(* ===== verification/Prelude.thy ===== *)
theory Prelude
  imports Main "HOL-Library.Word"
begin

text \<open>
  Shared vocabulary of the development: the C integer types as words, the error codes of
  \<^verbatim>\<open>include/ulmk/microkernel.h\<close>, the bit scans the kernel gets from the compiler and the arch
  layer (\<^verbatim>\<open>clz\<close>, \<^verbatim>\<open>ctz\<close>), and the lemmas on bits and lists the component theories share.
\<close>

unbundle bit_operations_syntax

section \<open>Machine integers\<close>

type_synonym u8 = "8 word"
type_synonym u16 = "16 word"
type_synonym u32 = "32 word"
type_synonym u64 = "64 word"
type_synonym addr = "32 word"   \<comment> \<open>\<^verbatim>\<open>uintptr_t\<close> and every pointer on the 32-bit ports\<close>

abbreviation NULL :: addr where "NULL \<equiv> 0"

section \<open>Error codes\<close>

text \<open>\<^verbatim>\<open>#define ULMK_E* \<close>: all of them are negative already.\<close>

abbreviation ULMK_OK :: int where "ULMK_OK \<equiv> 0"
abbreviation ULMK_EINVAL :: int where "ULMK_EINVAL \<equiv> -1"
abbreviation ULMK_ENOMEM :: int where "ULMK_ENOMEM \<equiv> -2"
abbreviation ULMK_EPERM :: int where "ULMK_EPERM \<equiv> -3"
abbreviation ULMK_ENOSPC :: int where "ULMK_ENOSPC \<equiv> -4"
abbreviation ULMK_EDEADLK :: int where "ULMK_EDEADLK \<equiv> -5"
abbreviation ULMK_ESRCH :: int where "ULMK_ESRCH \<equiv> -6"
abbreviation ULMK_ETIMEOUT :: int where "ULMK_ETIMEOUT \<equiv> -7"
abbreviation ULMK_ECANCELED :: int where "ULMK_ECANCELED \<equiv> -8"
abbreviation ULMK_ENOTSUP :: int where "ULMK_ENOTSUP \<equiv> -9"

text \<open>The cast \<^verbatim>\<open>(uint32_t)(int32_t)rc\<close> on every syscall return.\<close>

abbreviation ret_u32 :: "int \<Rightarrow> u32" where "ret_u32 rc \<equiv> word_of_int rc"

abbreviation ULMK_TID_INVALID :: addr where "ULMK_TID_INVALID \<equiv> 0"
abbreviation ULMK_EP_INVALID :: addr where "ULMK_EP_INVALID \<equiv> 0"
abbreviation ULMK_NOTIF_INVALID :: addr where "ULMK_NOTIF_INVALID \<equiv> 0"

section \<open>Bit scans\<close>

text \<open>
  \<^verbatim>\<open>ulmk_arch_cpu_clz\<close> (every port: 32 on zero, \<^verbatim>\<open>__builtin_clz\<close> otherwise) and
  \<^verbatim>\<open>__builtin_ctz\<close>. The builtins are undefined on zero; the model gives 32 there and the
  theorems about callers establish that the argument is not zero.
\<close>

definition ulmk_arch_cpu_clz :: "u32 \<Rightarrow> nat" where
  "ulmk_arch_cpu_clz w = length (takeWhile (\<lambda>i. \<not> bit w i) (rev [0..<32]))"

definition ctz32 :: "u32 \<Rightarrow> nat" where
  "ctz32 w = length (takeWhile (\<lambda>i. \<not> bit w i) [0..<32])"

lemma word_eq_0_iff_bits: "w = 0 \<longleftrightarrow> (\<forall>i < LENGTH('a). \<not> bit w i)" for w :: "'a::len word"
  by (auto intro: bit_word_eqI)

lemma length_takeWhile_less:
  "\<exists>x\<in>set xs. \<not> P x \<Longrightarrow> length (takeWhile P xs) < length xs"
  by (induction xs) auto

lemma ctz32_props:
  assumes "w \<noteq> 0"
  shows "ctz32 w < 32" "bit w (ctz32 w)" "\<And>i. i < ctz32 w \<Longrightarrow> \<not> bit w i"
proof -
  let ?p = "\<lambda>i. \<not> bit w i"
  let ?t = "takeWhile ?p [0..<32]"
  from assms have "\<exists>x\<in>set [0..<32]. \<not> ?p x"
    by (auto simp: word_eq_0_iff_bits [of w])
  then have lt: "length ?t < length [0..<32]"
    by (rule length_takeWhile_less)
  then show "ctz32 w < 32" by (simp add: ctz32_def)
  from nth_length_takeWhile [OF lt] lt show "bit w (ctz32 w)"
    by (simp add: ctz32_def)
  fix i assume i: "i < ctz32 w"
  then have "?t ! i \<in> set ?t" by (simp add: ctz32_def)
  then have "?p (?t ! i)" by (blast dest: set_takeWhileD)
  moreover have "?t ! i = i"
    using i lt by (simp add: ctz32_def takeWhile_nth)
  ultimately show "\<not> bit w i" by simp
qed

lemma ctz32_unique:
  assumes "bit w k" and "\<And>i. i < k \<Longrightarrow> \<not> bit w i"
  shows "ctz32 w = k"
proof -
  from assms(1) have "w \<noteq> 0" by auto
  note p = ctz32_props [OF this]
  show ?thesis
    using p(2) p(3) assms by (meson linorder_neqE_nat)
qed

lemma clz32_unique:
  assumes "bit w k" and "\<And>i. k < i \<Longrightarrow> \<not> bit w i"
  shows "ulmk_arch_cpu_clz w = 31 - k"
proof -
  have k: "k < 32" using bit_imp_le_length [OF assms(1)] by simp
  have "[0..<32] = [0..<k] @ k # [Suc k..<32]"
    using upt_add_eq_append [of 0 k "32 - k"] upt_conv_Cons [of k 32] k by simp
  then have "rev [0..<32] = rev [Suc k..<32] @ k # rev [0..<k]" by simp
  moreover have "takeWhile (\<lambda>i. \<not> bit w i) (rev [Suc k..<32] @ k # rev [0..<k]) = rev [Suc k..<32]"
    using assms by (subst takeWhile_append2) auto
  ultimately show ?thesis by (simp add: ulmk_arch_cpu_clz_def)
qed

text \<open>The isolated lowest bit \<^verbatim>\<open>w & -w\<close>.\<close>

lemma bit_minus_int_lowest:
  "bit (- a) n \<longleftrightarrow> (if \<exists>j<n. bit a j then \<not> bit a n else bit a n)" for a :: int
proof (induction n arbitrary: a)
  case 0
  then show ?case by (simp add: bit_0)
next
  case (Suc n)
  have ex: "(\<exists>j<Suc n. bit a j) \<longleftrightarrow> odd a \<or> (\<exists>j<n. bit (a div 2) j)"
    by (auto simp: less_Suc_eq_0_disj bit_0 bit_Suc)
  show ?case
  proof (cases "even a")
    case True
    then have "(- a) div 2 = - (a div 2)" by auto
    with True Suc.IH [of "a div 2"] ex show ?thesis by (simp add: bit_Suc)
  next
    case False
    then have "(- a) div 2 = - (a div 2) - 1" by presburger
    moreover have "bit (- (a div 2) - 1) n \<longleftrightarrow> \<not> bit (a div 2) n"
      by (rule bit_not_int_iff')
    ultimately show ?thesis using False ex by (simp add: bit_Suc)
  qed
qed

lemma bit_isolate_lowest:
  "bit (w AND - w) i \<longleftrightarrow> bit w i \<and> (\<forall>j<i. \<not> bit w j)" for w :: "'a::len word"
proof (cases "i < LENGTH('a)")
  case True
  have "bit (- w) i \<longleftrightarrow> bit (- uint w) i"
    using True by (metis bit_word_of_int_iff word_of_int_uint wi_hom_neg)
  moreover have "bit w j \<longleftrightarrow> bit (uint w) j" if "j \<le> i" for j
    using True that by (simp add: bit_uint_iff)
  ultimately show ?thesis
    using bit_minus_int_lowest [of "uint w" i] by (auto simp: bit_and_iff)
next
  case False
  then show ?thesis by (auto dest: bit_imp_le_length)
qed

lemma clz_isolate_lowest:
  assumes "w \<noteq> 0"
  shows "31 - ulmk_arch_cpu_clz (w AND - w) = ctz32 w"
proof -
  note p = ctz32_props [OF assms]
  have "ulmk_arch_cpu_clz (w AND - w) = 31 - ctz32 w"
    by (rule clz32_unique) (use p in \<open>auto simp: bit_isolate_lowest\<close>)
  then show ?thesis using p(1) by simp
qed

section \<open>Setting and clearing one bit\<close>

lemma bit_set_one:
  "bit (w OR push_bit k 1) i \<longleftrightarrow> bit w i \<or> (i = k \<and> k < LENGTH('a))" for w :: "'a::len word"
  by (auto simp: bit_or_iff bit_exp_iff)

lemma bit_clear_one:
  "bit (w AND NOT (push_bit k 1)) i \<longleftrightarrow> bit w i \<and> i \<noteq> k" for w :: "'a::len word"
  by (auto simp: bit_and_iff bit_not_iff bit_exp_iff dest: bit_imp_le_length)

text \<open>The simplifier writes \<open>push_bit k 1\<close> as a power of two.\<close>

lemmas bit_set_pow = bit_set_one [unfolded push_bit_of_1]
lemmas bit_clear_pow = bit_clear_one [unfolded push_bit_of_1]

section \<open>Lists\<close>

lemma remove1_hd [simp]: "xs \<noteq> [] \<Longrightarrow> remove1 (hd xs) xs = tl xs"
  by (cases xs) auto

lemma remove1_snoc_notin: "x \<notin> set xs \<Longrightarrow> remove1 x (xs @ [x]) = xs"
  by (simp add: remove1_append)

section \<open>Evaluation\<close>

text \<open>Congruences that stop the simplifier from rewriting under a binder before its argument is a
  value: with them a chain of \<open>let\<close>s over a concrete state is evaluated from the outside in.\<close>

lemmas eval_cong = let_weak_cong prod.case_cong_weak

section \<open>Word arithmetic\<close>

lemma unat_drop: "unat (drop_bit k x) = unat x div 2 ^ k" for x :: "'a::len word"
  by (simp only: unat_drop_bit_eq) (simp add: drop_bit_eq_div)

lemma unat_and_mask: "unat (x AND mask k) = unat x mod 2 ^ k" for x :: "'a::len word"
  by (metis take_bit_eq_mask take_bit_eq_mod unsigned_take_bit_eq)

lemma unat_and_not_mask: "unat (x AND NOT (mask k)) = unat x div 2 ^ k * 2 ^ k" for x :: "'a::len word"
proof -
  have "unat (x AND NOT (mask k)) = push_bit k (drop_bit k (unat x))"
    by (rule bit_eqI) (auto simp: bit_simps dest: bit_imp_le_length)
  then show ?thesis by (simp add: push_bit_eq_mult drop_bit_eq_div)
qed

lemma unat_mask: "k \<le> LENGTH('a) \<Longrightarrow> unat (mask k :: 'a::len word) = 2 ^ k - 1"
  by (simp add: uint_mask_eq min_absorb2 nat_mask_eq flip: nat_uint_eq) (simp add: mask_eq_exp_minus_1)

text \<open>Rounding up to a multiple.\<close>

lemma round_up_bounds:
  assumes "0 < (b::nat)"
  shows "a \<le> (a + b - 1) div b * b" "(a + b - 1) div b * b < a + b"
  using assms dividend_less_div_times [of b "a + b - 1"] div_times_less_eq_dividend [of "a + b - 1" b]
  by linarith+

lemma pow2_minus_1_mask: "2 ^ k - 1 = (mask k :: 'a::len word)"
  by (simp add: mask_eq_exp_minus_1)

end
