(* ===== verification/Tlsf.thy ===== *)
theory Tlsf
  imports Prelude
begin

text \<open>
  The kernel heap, \<^verbatim>\<open>kernel/mem/tlsf.c\<close>: a two-level segregated-fit allocator over one pool.

  The state is the control block \<^verbatim>\<open>ctrl\<close> plus a store of block headers indexed by address
  (\<open>blkmem\<close>); a pointer is the 32-bit address of a header and \<^verbatim>\<open>NULL\<close> is 0. Payload bytes are not part
  of the state. Size arithmetic is kept at 32 bits, as \<^verbatim>\<open>uint32_t\<close> and the 32-bit ports' \<^verbatim>\<open>size_t\<close>.
  The spinlock around each public function is taken where the kernel calls it.
\<close>

section \<open>State\<close>

abbreviation TLSF_HDR :: u32 where "TLSF_HDR \<equiv> 64"
abbreviation BLKF_FREE :: u32 where "BLKF_FREE \<equiv> 1"
abbreviation SL_BITS :: nat where "SL_BITS \<equiv> 2"
abbreviation SL_COUNT :: nat where "SL_COUNT \<equiv> 4"
abbreviation FL_BASE :: nat where "FL_BASE \<equiv> 6"
abbreviation FL_COUNT :: nat where "FL_COUNT \<equiv> 24"

record blk =
  prev_phys :: addr
  bsize :: u32
  flags :: u32
  next_free :: addr
  prev_free :: addr

record tlsf =
  fl_bitmap :: u32
  sl_bitmap :: "nat \<Rightarrow> u32"
  free_lists :: "nat \<Rightarrow> nat \<Rightarrow> addr"
  free_bytes :: u32
  blkmem :: "addr \<Rightarrow> blk"

definition upd_blk :: "addr \<Rightarrow> (blk \<Rightarrow> blk) \<Rightarrow> tlsf \<Rightarrow> tlsf" where
  "upd_blk b f h = h\<lparr>blkmem := (blkmem h)(b := f (blkmem h b))\<rparr>"

definition set_free_list :: "nat \<Rightarrow> nat \<Rightarrow> addr \<Rightarrow> tlsf \<Rightarrow> tlsf" where
  "set_free_list fl sl b h =
     h\<lparr>free_lists := (free_lists h)(fl := (free_lists h fl)(sl := b))\<rparr>"

definition set_sl_bitmap :: "nat \<Rightarrow> u32 \<Rightarrow> tlsf \<Rightarrow> tlsf" where
  "set_sl_bitmap fl w h = h\<lparr>sl_bitmap := (sl_bitmap h)(fl := w)\<rparr>"

section \<open>Helpers\<close>

definition FLS :: "u32 \<Rightarrow> nat" where
  "FLS x = unat (31 - word_of_nat (ulmk_arch_cpu_clz x) :: u32)"

definition blk_next :: "tlsf \<Rightarrow> addr \<Rightarrow> addr" where
  "blk_next h b = b + TLSF_HDR + bsize (blkmem h b)"

definition mapping_insert :: "u32 \<Rightarrow> nat \<times> nat" where
  "mapping_insert sz =
     (let f = FLS sz;
          fl = (if f \<ge> FL_BASE then f - FL_BASE else 0);
          fl = (if fl \<ge> FL_COUNT then FL_COUNT - 1 else fl)
      in (fl, unat (drop_bit (f - SL_BITS) sz AND 3)))"

definition mapping_search :: "u32 \<Rightarrow> nat \<times> nat" where
  "mapping_search sz =
     (let f = FLS sz;
          round = push_bit (f - SL_BITS) 1 - 1 :: u32;
          (sz, f) = (if f \<ge> SL_BITS
                       then (let sz = (sz + round) AND NOT round in (sz, FLS sz))
                       else (sz, f));
          fl = (if f \<ge> FL_BASE then f - FL_BASE else 0);
          fl = (if fl \<ge> FL_COUNT then FL_COUNT - 1 else fl)
      in (fl, unat (drop_bit (f - SL_BITS) sz AND 3)))"

definition insert_free :: "addr \<Rightarrow> tlsf \<Rightarrow> tlsf" where
  "insert_free b h =
     (let (fl, sl) = mapping_insert (bsize (blkmem h b));
          h = upd_blk b (\<lambda>x. x\<lparr>next_free := free_lists h fl sl, prev_free := NULL\<rparr>) h;
          h = (if free_lists h fl sl \<noteq> NULL
               then upd_blk (free_lists h fl sl) (\<lambda>x. x\<lparr>prev_free := b\<rparr>) h else h);
          h = set_free_list fl sl b h;
          h = h\<lparr>fl_bitmap := fl_bitmap h OR push_bit fl 1\<rparr>;
          h = set_sl_bitmap fl (sl_bitmap h fl OR push_bit sl 1) h;
          h = upd_blk b (\<lambda>x. x\<lparr>flags := flags x OR BLKF_FREE\<rparr>) h
      in h\<lparr>free_bytes := free_bytes h + bsize (blkmem h b)\<rparr>)"

definition remove_free :: "addr \<Rightarrow> tlsf \<Rightarrow> tlsf" where
  "remove_free b h =
     (let (fl, sl) = mapping_insert (bsize (blkmem h b));
          nx = next_free (blkmem h b);
          pv = prev_free (blkmem h b);
          h = (if pv \<noteq> NULL then upd_blk pv (\<lambda>x. x\<lparr>next_free := nx\<rparr>) h
               else set_free_list fl sl nx h);
          h = (if nx \<noteq> NULL then upd_blk nx (\<lambda>x. x\<lparr>prev_free := pv\<rparr>) h else h);
          h = (if free_lists h fl sl = NULL
               then let h = set_sl_bitmap fl (sl_bitmap h fl AND NOT (push_bit sl 1)) h
                    in (if sl_bitmap h fl = 0
                        then h\<lparr>fl_bitmap := fl_bitmap h AND NOT (push_bit fl 1)\<rparr> else h)
               else h);
          h = upd_blk b (\<lambda>x. x\<lparr>flags := flags x AND NOT BLKF_FREE,
                               next_free := NULL, prev_free := NULL\<rparr>) h
      in h\<lparr>free_bytes := free_bytes h - bsize (blkmem h b)\<rparr>)"

definition find_free_block :: "u32 \<Rightarrow> tlsf \<Rightarrow> addr" where
  "find_free_block sz h =
     (let (fl, sl) = mapping_search sz;
          sl_map = sl_bitmap h fl AND push_bit sl (NOT 0)
      in if sl_map \<noteq> 0 then free_lists h fl (ctz32 sl_map)
         else if fl + 1 < FL_COUNT
         then (let fl_map = fl_bitmap h AND push_bit (fl + 1) (NOT 0)
               in if fl_map \<noteq> 0
                  then (let fl = ctz32 fl_map in free_lists h fl (ctz32 (sl_bitmap h fl)))
                  else NULL)
         else NULL)"

section \<open>Public functions\<close>

definition heap_round :: "u32 \<Rightarrow> u32" where
  "heap_round sz = ((sz + TLSF_HDR - 1) div TLSF_HDR) * TLSF_HDR"

definition ulmk_heap_init :: "addr \<Rightarrow> u32 \<Rightarrow> tlsf \<Rightarrow> tlsf" where
  "ulmk_heap_init base sz h =
     (let fin = base + sz
      in if sz = 0 \<or> base \<ge> fin then h
         else
           let h = h\<lparr>fl_bitmap := 0, sl_bitmap := (\<lambda>_. 0), free_lists := (\<lambda>_ _. NULL),
                     free_bytes := 0\<rparr>;
               aligned = (base + TLSF_HDR - 1) AND NOT (TLSF_HDR - 1);
               total = fin - aligned
           in if total < 3 * TLSF_HDR then h
              else
                let first = aligned;
                    h = upd_blk first (\<lambda>_. \<lparr>prev_phys = NULL, bsize = total - 2 * TLSF_HDR,
                                            flags = 0, next_free = NULL, prev_free = NULL\<rparr>) h;
                    sentinel = blk_next h first;
                    h = upd_blk sentinel (\<lambda>_. \<lparr>prev_phys = first, bsize = 0, flags = 0,
                                               next_free = NULL, prev_free = NULL\<rparr>) h
                in insert_free first h)"

definition split_block :: "addr \<Rightarrow> u32 \<Rightarrow> tlsf \<Rightarrow> tlsf" where
  "split_block b rounded h =
     (if bsize (blkmem h b) \<ge> rounded + 2 * TLSF_HDR
      then
        let rem = b + TLSF_HDR + rounded;
            h = upd_blk rem (\<lambda>_. \<lparr>prev_phys = b, bsize = bsize (blkmem h b) - rounded - TLSF_HDR,
                                  flags = 0, next_free = NULL, prev_free = NULL\<rparr>) h;
            h = upd_blk (blk_next h rem) (\<lambda>x. x\<lparr>prev_phys := rem\<rparr>) h;
            h = upd_blk b (\<lambda>x. x\<lparr>bsize := rounded\<rparr>) h
        in insert_free rem h
      else h)"

definition ulmk_heap_alloc :: "u32 \<Rightarrow> tlsf \<Rightarrow> addr \<times> tlsf" where
  "ulmk_heap_alloc sz h =
     (if sz = 0 then (NULL, h)
      else
        let rounded = heap_round sz;
            b = find_free_block rounded h
        in if b = NULL then (NULL, h)
           else (b + TLSF_HDR, split_block b rounded (remove_free b h)))"

definition ulmk_heap_free :: "addr \<Rightarrow> tlsf \<Rightarrow> tlsf" where
  "ulmk_heap_free ptr h =
     (if ptr = NULL then h
      else
        let b = ptr - TLSF_HDR;
            nxt = blk_next h b;
            h = (if bsize (blkmem h nxt) > 0 \<and> flags (blkmem h nxt) AND BLKF_FREE \<noteq> 0
                 then
                   let after_nxt = blk_next h nxt;
                       h = remove_free nxt h;
                       h = upd_blk b (\<lambda>x. x\<lparr>bsize := bsize x + (TLSF_HDR + bsize (blkmem h nxt))\<rparr>) h
                   in upd_blk after_nxt (\<lambda>x. x\<lparr>prev_phys := b\<rparr>) h
                 else h);
            prv = prev_phys (blkmem h b)
        in if prv \<noteq> NULL \<and> flags (blkmem h prv) AND BLKF_FREE \<noteq> 0
           then
             let after_blk = blk_next h b;
                 h = remove_free prv h;
                 h = upd_blk prv (\<lambda>x. x\<lparr>bsize := bsize x + (TLSF_HDR + bsize (blkmem h b))\<rparr>) h;
                 h = upd_blk after_blk (\<lambda>x. x\<lparr>prev_phys := prv\<rparr>) h
             in insert_free prv h
           else insert_free b h)"

definition ulmk_heap_aligned_alloc :: "u32 \<Rightarrow> u32 \<Rightarrow> tlsf \<Rightarrow> addr \<times> tlsf" where
  "ulmk_heap_aligned_alloc align sz h =
     (if sz = 0 then (NULL, h)
      else if align \<le> TLSF_HDR then ulmk_heap_alloc sz h
      else if align AND (align - 1) \<noteq> 0 then (NULL, h)
      else
        let rounded = heap_round sz;
            b = find_free_block (rounded + align + TLSF_HDR) h
        in if b = NULL then (NULL, h)
           else
             let h = remove_free b h;
                 payload = b + TLSF_HDR;
                 aligned = (payload + align - 1) AND NOT (align - 1);
                 aligned = (if aligned \<noteq> payload \<and> aligned - payload < 2 * TLSF_HDR
                            then aligned + align else aligned);
                 (b, h) =
                   (if aligned \<noteq> payload
                    then
                      let nb = aligned - TLSF_HDR;
                          h = upd_blk nb (\<lambda>_. \<lparr>prev_phys = b,
                                bsize = bsize (blkmem h b) - (aligned - payload), flags = 0,
                                next_free = NULL, prev_free = NULL\<rparr>) h;
                          h = upd_blk (blk_next h nb) (\<lambda>x. x\<lparr>prev_phys := nb\<rparr>) h;
                          h = upd_blk b (\<lambda>x. x\<lparr>bsize := (aligned - payload) - TLSF_HDR\<rparr>) h
                      in (nb, insert_free b h)
                    else (b, h))
             in (aligned, split_block b rounded h))"

definition ulmk_heap_free_bytes :: "tlsf \<Rightarrow> u32" where
  "ulmk_heap_free_bytes h = free_bytes h"

end
