(* ===== verification/Tlsf_Proofs.thy ===== *)
theory Tlsf_Proofs
  imports Tlsf
begin

text \<open>
  Correctness of the kernel heap (theory Tlsf). The pool is tiled by blocks up to a sentinel; the free
  blocks, and only they, are on the free list of their size class; the bitmaps say which lists are non-empty;
  no two free blocks are adjacent. Allocation and freeing keep this, allocated blocks are disjoint, large
  enough and inside the pool, and freeing everything gives back one block.
\<close>

section \<open>Size classes\<close>

lemma FLS_eq:
  assumes "x \<noteq> 0"
  shows "FLS x < 32" "2 ^ FLS x \<le> unat x" "unat x < 2 ^ Suc (FLS x)"
proof -
  define k where "k = (GREATEST i. bit x i)"
  obtain j where j: "bit x j" using assms by (auto simp: word_eq_0_iff_bits [of x])
  have bound: "i \<le> 31" if "bit x i" for i using bit_imp_le_length [OF that] by simp
  have k: "bit x k" unfolding k_def using GreatestI_nat [of "bit x" j 31] j bound by blast
  have above: "\<not> bit x i" if "k < i" for i
    using that Greatest_le_nat [of "bit x" i 31] bound unfolding k_def by (meson leD)
  have k31: "k \<le> 31" using k bound by blast
  have "ulmk_arch_cpu_clz x = 31 - k" by (rule clz32_unique [OF k above])
  moreover have "(31 :: u32) - word_of_nat (31 - k) = word_of_nat k"
    using k31 by (simp add: of_nat_diff)
  ultimately have f: "FLS x = k" using k31 by (simp add: FLS_def unat_of_nat take_bit_nat_eq_self)
  show "FLS x < 32" using f k31 by simp
  have "unat x = take_bit (Suc k) (unat x)"
    by (rule bit_eqI) (use above not_le_imp_less in \<open>auto simp: bit_take_bit_iff bit_unsigned_iff less_Suc_eq_le\<close>)
  then show "unat x < 2 ^ Suc (FLS x)" unfolding f by (metis take_bit_nat_less_exp)
  have "bit (unat x) k" using k k31 by (simp add: bit_unsigned_iff)
  then have "odd (unat x div 2 ^ k)" by (simp add: bit_iff_odd)
  then have "unat x div 2 ^ k \<noteq> 0" by (metis even_zero)
  then show "2 ^ FLS x \<le> unat x" by (simp add: f div_eq_0_iff)
qed

text \<open>The least size in a class.\<close>

definition class_lb :: "nat \<Rightarrow> nat \<Rightarrow> nat" where
  "class_lb fl sl = (4 + sl) * 2 ^ (fl + 4)"

lemma class_lb_mono:
  assumes "fl < fl' \<or> fl = fl' \<and> sl \<le> sl'" "sl < 4"
  shows "class_lb fl sl \<le> class_lb fl' sl'"
proof (cases "fl = fl'")
  case False
  with assms have lt: "Suc (fl + 4) \<le> fl' + 4" by simp
  have "class_lb fl sl \<le> 8 * 2 ^ (fl + 4)" using assms(2) by (simp add: class_lb_def)
  also have "8 * 2 ^ (fl + 4) = 4 * (2 ^ Suc (fl + 4) :: nat)" by (simp add: power_add)
  also have "\<dots> \<le> (4 + sl') * 2 ^ (fl' + 4)"
    by (intro mult_mono power_increasing lt) simp_all
  finally show ?thesis by (simp add: class_lb_def)
qed (use assms in \<open>simp add: class_lb_def\<close>)

lemma unat_and_3: "unat (x AND 3) = unat x mod 4" for x :: u32
  using unat_and_mask [of x 2] by (simp add: mask_eq_exp_minus_1)

lemma FLS_le: "x \<noteq> 0 \<Longrightarrow> 2 ^ k \<le> unat x \<Longrightarrow> k \<le> FLS x"
  using FLS_eq(3) [of x] by (metis le_less_trans less_Suc_eq_le power_strict_increasing_iff one_less_numeral_iff semiring_norm(76))

lemma FLS_less: "x \<noteq> 0 \<Longrightarrow> unat x < 2 ^ k \<Longrightarrow> FLS x < k"
  using FLS_eq(2) [of x] by (metis le_less_trans power_strict_increasing_iff one_less_numeral_iff semiring_norm(76))

text \<open>The class of a size below \<open>2 ^ 30\<close>, in the form both mappings compute it.\<close>

lemma class_of_size:
  assumes "64 \<le> unat x" "unat x < 2 ^ 30"
  shows "6 \<le> FLS x" "FLS x - 6 < 24"
    "class_lb (FLS x - 6) (unat (drop_bit (FLS x - 2) x AND 3)) = unat x div 2 ^ (FLS x - 2) * 2 ^ (FLS x - 2)"
proof -
  have x0: "x \<noteq> 0" using assms(1) by auto
  note f = FLS_eq [OF x0]
  show f6: "6 \<le> FLS x" by (rule FLS_le [OF x0]) (use assms(1) in simp)
  have "FLS x < 30" by (rule FLS_less [OF x0 assms(2)])
  then show "FLS x - 6 < 24" by simp
  define e where "e = FLS x - 2"
  have e: "FLS x = e + 2" "FLS x - 6 + 4 = e" using f6 by (simp_all add: e_def)
  have q: "4 \<le> unat x div 2 ^ e" "unat x div 2 ^ e < 8"
    using f(2,3) by (simp_all add: e(1) less_eq_div_iff_mult_less_eq less_mult_imp_div_less mult.commute power_add)
  have "4 + n mod 4 = n" if "4 \<le> n" "n < 8" for n :: nat using that by presburger
  from this [OF q] have "4 + unat x div 2 ^ e mod 4 = unat x div 2 ^ e" .
  then show "class_lb (FLS x - 6) (unat (drop_bit (FLS x - 2) x AND 3)) = unat x div 2 ^ (FLS x - 2) * 2 ^ (FLS x - 2)"
    by (simp only: class_lb_def e(2) unat_and_3 unat_drop e_def [symmetric])
qed

lemma mapping_insert_class:
  assumes "64 \<le> unat x" "unat x < 2 ^ 30" "mapping_insert x = (fl, sl)"
  shows "class_lb fl sl \<le> unat x" "unat x < class_lb fl sl + 2 ^ (fl + 4)" "fl < 24" "sl < 4"
proof -
  note c = class_of_size [OF assms(1,2)]
  have *: "fl = FLS x - 6" "sl = unat (drop_bit (FLS x - 2) x AND 3)"
    using assms(3) c(1,2) by (simp_all add: mapping_insert_def Let_def)
  show "sl < 4" by (simp add: * unat_and_3)
  have e: "FLS x - 2 = fl + 4" using c(1) * by simp
  show "fl < 24" using c(2) by (simp add: *)
  have lb: "class_lb fl sl = unat x div 2 ^ (fl + 4) * 2 ^ (fl + 4)" using c(3) [folded *] e by simp
  show "class_lb fl sl \<le> unat x" "unat x < class_lb fl sl + 2 ^ (fl + 4)"
    using dividend_less_div_times [of "2 ^ (fl + 4)" "unat x"] unfolding lb by (simp_all add: add.commute)
qed

lemma mapping_search_class:
  assumes "64 \<le> unat x" "unat x < 2 ^ 29"
  obtains fl sl where "mapping_search x = (fl, sl)" "unat x \<le> class_lb fl sl" "fl < 24" "sl < 4"
    "4 * class_lb fl sl < 5 * unat x"
proof -
  have x0: "x \<noteq> 0" using assms(1) by auto
  define e where "e = FLS x - 2"
  have f: "4 \<le> e" "FLS x = e + 2" "e < 27"
    using FLS_le [OF x0, of 6] FLS_less [OF x0 assms(2)] assms(1) by (simp_all add: e_def)
  have b: "2 ^ (e + 2) \<le> unat x" "unat x < 2 ^ (e + 3)" using FLS_eq(2,3) [OF x0] f(2) by (simp_all add: eval_nat_numeral)
  have e26: "(2::nat) ^ e \<le> 2 ^ 26" by (rule power_increasing) (use f(3) in simp_all)
  define y where "y = (x + mask e) AND NOT (mask e)"
  have "unat (x + mask e) = unat x + 2 ^ e - 1"
    using e26 assms(2) f(3) by (simp add: unat_word_ariths unat_mask)
  then have y: "unat y = (unat x + 2 ^ e - 1) div 2 ^ e * 2 ^ e"
    by (simp add: y_def unat_and_not_mask)
  have xy: "unat x \<le> unat y" "unat y < unat x + 2 ^ e"
    unfolding y by (rule round_up_bounds; simp)+
  have y64: "64 \<le> unat y" "unat y < 2 ^ 30" "y \<noteq> 0" using xy assms e26 by auto
  have dvd: "2 ^ e dvd unat y" by (simp add: y)
  have yle: "unat y \<le> 2 ^ (e + 3)"
  proof -
    have "unat y div 2 ^ e < 9"
      using xy(2) b(2) by (intro less_mult_imp_div_less) (simp add: power_add)
    then have "unat y div 2 ^ e * 2 ^ e \<le> 8 * 2 ^ e" by (intro mult_le_mono1) simp
    with dvd show ?thesis by (simp add: power_add)
  qed
  note c = class_of_size [OF y64(1,2)]
  have "2 ^ (FLS y - 2) dvd unat y"
  proof (cases "FLS y = e + 2")
    case False
    have "e + 2 \<le> FLS y" by (rule FLS_le [OF y64(3)]) (use b(1) xy(1) in linarith)
    with False have "e + 3 \<le> FLS y" by simp
    then have "(2::nat) ^ (e + 3) \<le> 2 ^ FLS y" by (intro power_increasing) simp_all
    with FLS_eq(2) [OF y64(3)] yle have "unat y = 2 ^ FLS y" by linarith
    then show ?thesis by (simp add: le_imp_power_dvd)
  qed (use dvd in simp)
  then have "class_lb (FLS y - 6) (unat (drop_bit (FLS y - 2) y AND 3)) = unat y" using c(3) by simp
  moreover have "mapping_search x = (FLS y - 6, unat (drop_bit (FLS y - 2) y AND 3))"
  proof -
    have "push_bit (FLS x - 2) 1 - 1 = (mask e :: u32)"
      by (simp add: e_def push_bit_of_1 mask_eq_exp_minus_1)
    then show ?thesis
      using c(1,2) f(2) by (simp add: mapping_search_def Let_def y_def [symmetric])
  qed
  moreover have "4 * unat y < 5 * unat x" using xy(2) b(1) by (simp add: power_add)
  ultimately show ?thesis using that c(2) xy(1) by (simp add: unat_and_3)
qed

text \<open>A request of \<open>2 ^ 29\<close> bytes or more, or one whose rounding wrapped to zero, is looked up in the last
  class row.\<close>

lemma clz_zero: "ulmk_arch_cpu_clz 0 = 32"
  unfolding ulmk_arch_cpu_clz_def by (subst takeWhile_eq_all_conv [THEN iffD2]) simp_all

lemma FLS_zero: "FLS 0 = 2 ^ 32 - 1"
  by (simp add: FLS_def clz_zero unsigned_minus_1_eq_mask mask_eq_exp_minus_1)

lemma mapping_search_huge:
  assumes "2 ^ 29 \<le> unat x \<or> x = 0"
  shows "fst (mapping_search x) = 23"
proof -
  define f where "f = FLS x"
  define r where "r = (push_bit (f - 2) 1 - 1 :: u32)"
  define y where "y = (x + r) AND NOT r"
  have f29: "29 \<le> f"
    using assms FLS_le [of x 29] by (cases "x = 0") (auto simp: f_def FLS_zero)
  have "29 \<le> FLS y"
  proof (cases "y = 0")
    case False
    have x0: "x \<noteq> 0"
    proof
      assume "x = 0"
      then have "32 \<le> f - 2" by (simp add: f_def FLS_zero)
      then have "push_bit (f - 2) (1 :: u32) = 0" by (intro bit_word_eqI) (auto simp: bit_simps)
      then have "r = - 1" by (simp only: r_def diff_0)
      then have "y = 0" by (simp add: y_def)
      with False show False by simp
    qed
    have f31: "f < 32" using FLS_eq(1) [OF x0] by (simp add: f_def)
    have r: "r = mask (f - 2)" by (simp add: r_def push_bit_of_1 mask_eq_exp_minus_1)
    have yn: "unat y = unat (x + r) div 2 ^ (f - 2) * 2 ^ (f - 2)"
      by (simp add: y_def r unat_and_not_mask)
    have ur: "unat r = 2 ^ (f - 2) - 1" using f31 by (simp add: r unat_mask)
    have "unat (x + r) = unat x + unat r"
    proof (rule ccontr)
      assume *: "unat (x + r) \<noteq> unat x + unat r"
      have "(2::nat) ^ (f - 2) \<le> 2 ^ 29" using f31 by (intro power_increasing) simp_all
      then have "unat (x + r) < 2 ^ (f - 2)"
        using * ur unsigned_less [of x, where ?'a = nat] unat_plus_if_size [of x r]
        by (simp add: word_size split: if_splits) linarith
      then have "unat y = 0" by (simp add: yn)
      with False show False by (simp add: unat_eq_zero)
    qed
    then have "unat x \<le> unat y"
      using round_up_bounds(1) [of "2 ^ (f - 2)" "unat x"] by (simp add: yn ur)
    then show ?thesis using assms x0 False by (intro FLS_le) auto
  qed (simp add: FLS_zero)
  moreover have "mapping_search x = (let fl = (if FLS y \<ge> 6 then FLS y - 6 else 0)
      in (if fl \<ge> 24 then 23 else fl, unat (drop_bit (FLS y - 2) y AND 3)))"
    using f29 unfolding mapping_search_def Let_def f_def [symmetric] r_def [symmetric] y_def [symmetric] by simp
  ultimately show ?thesis by (simp add: Let_def) linarith
qed

section \<open>The free index\<close>

text \<open>A doubly linked segment from \<open>x\<close>, behind \<open>p\<close>, up to \<open>y\<close>; a free list ends in \<^verbatim>\<open>NULL\<close>.\<close>

primrec fseg :: "tlsf \<Rightarrow> addr \<Rightarrow> addr \<Rightarrow> addr list \<Rightarrow> addr \<Rightarrow> bool" where
  "fseg h p x [] y \<longleftrightarrow> x = y"
| "fseg h p x (b # bs) y \<longleftrightarrow> x = b \<and> b \<noteq> NULL \<and> prev_free (blkmem h b) = p \<and>
     fseg h b (next_free (blkmem h b)) bs y"

lemma fseg_append: "fseg h p x (us @ vs) y \<longleftrightarrow> (\<exists>z. fseg h p x us z \<and> fseg h (last (p # us)) z vs y)"
  by (induction us arbitrary: p x) auto

lemma fseg_cong:
  "(\<And>b. b \<in> set bs \<Longrightarrow> next_free (blkmem h' b) = next_free (blkmem h b) \<and>
      prev_free (blkmem h' b) = prev_free (blkmem h b)) \<Longrightarrow> fseg h' p x bs y \<longleftrightarrow> fseg h p x bs y"
  by (induction bs arbitrary: p x) auto

abbreviation flist :: "tlsf \<Rightarrow> addr \<Rightarrow> addr list \<Rightarrow> bool" where
  "flist h x bs \<equiv> fseg h NULL x bs NULL"

text \<open>The free lists and bitmaps index exactly the blocks of \<open>S\<close>.\<close>

definition fidx :: "tlsf \<Rightarrow> addr set \<Rightarrow> (nat \<Rightarrow> nat \<Rightarrow> addr list) \<Rightarrow> bool" where
  "fidx h S F \<longleftrightarrow> finite S \<and>
     (\<forall>fl sl. flist h (free_lists h fl sl) (F fl sl) \<and> distinct (F fl sl) \<and>
        set (F fl sl) = {b \<in> S. mapping_insert (bsize (blkmem h b)) = (fl, sl)}) \<and>
     (\<forall>fl sl. bit (sl_bitmap h fl) sl \<longleftrightarrow> F fl sl \<noteq> []) \<and>
     (\<forall>fl. bit (fl_bitmap h) fl \<longleftrightarrow> sl_bitmap h fl \<noteq> 0) \<and>
     (\<forall>b\<in>S. 64 \<le> unat (bsize (blkmem h b)) \<and> unat (bsize (blkmem h b)) < 2 ^ 29) \<and>
     free_bytes h = (\<Sum>b\<in>S. bsize (blkmem h b))"

lemma upd_blk_simps [simp]:
  "blkmem (upd_blk b f h) x = (if x = b then f (blkmem h b) else blkmem h x)"
  "fl_bitmap (upd_blk b f h) = fl_bitmap h" "sl_bitmap (upd_blk b f h) = sl_bitmap h"
  "free_lists (upd_blk b f h) = free_lists h" "free_bytes (upd_blk b f h) = free_bytes h"
  "blkmem (set_free_list fl sl x h) = blkmem h" "blkmem (set_sl_bitmap fl w h) = blkmem h"
  by (simp_all add: upd_blk_def set_free_list_def set_sl_bitmap_def)

lemma ctrl_simps [simp]:
  "free_lists (set_free_list fl sl x h) i j = (if i = fl \<and> j = sl then x else free_lists h i j)"
  "fl_bitmap (set_free_list fl sl x h) = fl_bitmap h" "sl_bitmap (set_free_list fl sl x h) = sl_bitmap h"
  "free_bytes (set_free_list fl sl x h) = free_bytes h"
  "free_lists (set_sl_bitmap fl w h) = free_lists h" "fl_bitmap (set_sl_bitmap fl w h) = fl_bitmap h"
  "sl_bitmap (set_sl_bitmap fl w h) i = (if i = fl then w else sl_bitmap h i)"
  "free_bytes (set_sl_bitmap fl w h) = free_bytes h"
  by (simp_all add: set_free_list_def set_sl_bitmap_def)

text \<open>The index only depends on the link fields and sizes of the blocks in it.\<close>

lemma fidx_cong:
  assumes "fidx h S F" "fl_bitmap h' = fl_bitmap h" "sl_bitmap h' = sl_bitmap h"
    "free_lists h' = free_lists h" "free_bytes h' = free_bytes h"
    and "\<And>b. b \<in> S \<Longrightarrow> next_free (blkmem h' b) = next_free (blkmem h b) \<and>
      prev_free (blkmem h' b) = prev_free (blkmem h b) \<and> bsize (blkmem h' b) = bsize (blkmem h b)"
  shows "fidx h' S F"
proof -
  have "flist h' (free_lists h fl sl) (F fl sl)" for fl sl
    using assms(1,6) fseg_cong [of "F fl sl" h' h] unfolding fidx_def by blast
  with assms show ?thesis unfolding fidx_def by (auto cong: sum.cong)
qed

lemma fseg_in: "fseg h p x bs y \<Longrightarrow> b \<in> set bs \<Longrightarrow> b \<noteq> NULL"
  by (induction bs arbitrary: p x) auto

lemma flist_head: "flist h x bs \<Longrightarrow> x = (case bs of [] \<Rightarrow> NULL | b # _ \<Rightarrow> b)"
  by (cases bs) auto

text \<open>What \<^verbatim>\<open>insert_free\<close> and \<^verbatim>\<open>remove_free\<close> leave alone.\<close>

lemma insert_free_frame [simp]:
  "bsize (blkmem (insert_free b h) x) = bsize (blkmem h x)"
  "prev_phys (blkmem (insert_free b h) x) = prev_phys (blkmem h x)"
  "flags (blkmem (insert_free b h) x) = (if x = b then flags (blkmem h b) OR BLKF_FREE else flags (blkmem h x))"
  by (simp_all add: insert_free_def Let_def case_prod_beta)

lemma remove_free_frame [simp]:
  "bsize (blkmem (remove_free b h) x) = bsize (blkmem h x)"
  "prev_phys (blkmem (remove_free b h) x) = prev_phys (blkmem h x)"
  "flags (blkmem (remove_free b h) x) = (if x = b then flags (blkmem h b) AND NOT BLKF_FREE else flags (blkmem h x))"
  by (simp_all add: remove_free_def Let_def case_prod_beta)

lemma fidx_insert:
  assumes "fidx h S F" "b \<notin> S" "b \<noteq> NULL"
    "64 \<le> unat (bsize (blkmem h b))" "unat (bsize (blkmem h b)) < 2 ^ 29"
    and m: "mapping_insert (bsize (blkmem h b)) = (fl, sl)"
  shows "fidx (insert_free b h) (insert b S) (F(fl := (F fl)(sl := b # F fl sl)))"
proof -
  let ?h = "insert_free b h" and ?hd = "free_lists h fl sl"
  have fl: "flist h (free_lists h i j) (F i j)" "distinct (F i j)"
    "set (F i j) = {b \<in> S. mapping_insert (bsize (blkmem h b)) = (i, j)}"
    "bit (sl_bitmap h i) j \<longleftrightarrow> F i j \<noteq> []" "bit (fl_bitmap h) i \<longleftrightarrow> sl_bitmap h i \<noteq> 0" for i j
    using assms(1) unfolding fidx_def by blast+
  have c: "fl < 24" "sl < 4" using mapping_insert_class [OF assms(4) _ m] assms(5) by simp_all
  have hdin: "?hd \<in> set (F fl sl)" if "?hd \<noteq> NULL"
    using flist_head [OF fl(1), of fl sl] that by (cases "F fl sl") auto
  then have hd: "?hd \<noteq> b" "mapping_insert (bsize (blkmem h ?hd)) = (fl, sl)" if "?hd \<noteq> NULL"
    using fl(3) [of fl sl] assms(2) that by auto
  have lists: "free_lists ?h = (free_lists h)(fl := (free_lists h fl)(sl := b))"
    and nx: "next_free (blkmem ?h x) = (if x = b then ?hd else next_free (blkmem h x))"
    and pv: "prev_free (blkmem ?h x) = (if x = b then NULL else if x = ?hd \<and> ?hd \<noteq> NULL then b
        else prev_free (blkmem h x))" for x
    using hd by (auto simp: insert_free_def Let_def m fun_eq_iff)
  have "flist ?h (free_lists ?h i j) ((F(fl := (F fl)(sl := b # F fl sl))) i j)" for i j
  proof (cases "i = fl \<and> j = sl")
    case True
    have "fseg ?h b ?hd (F fl sl) NULL"
    proof (cases "F fl sl")
      case (Cons c cs)
      with fl(1,2) [of fl sl] fl(3) [of fl sl] assms(2) have "?hd = c" "c \<noteq> NULL" "c \<noteq> b" "c \<notin> set cs" "b \<notin> set cs"
        and cs: "fseg h c (next_free (blkmem h c)) cs NULL" by auto
      moreover have "fseg ?h c (next_free (blkmem h c)) cs NULL"
        using cs by (rule fseg_cong [THEN iffD2, rotated]) (use calculation in \<open>auto simp: nx pv\<close>)
      ultimately show ?thesis by (simp add: Cons nx pv)
    qed (use fl(1) [of fl sl] in simp)
    with True assms(3) show ?thesis by (simp add: lists nx pv)
  next
    case False
    have "fseg ?h NULL (free_lists h i j) (F i j) NULL"
      using fl(1) [of i j]
    proof (rule fseg_cong [THEN iffD2, rotated])
      fix x assume x: "x \<in> set (F i j)"
      have "x \<noteq> b" using x fl(3) assms(2) by auto
      moreover have "x \<noteq> ?hd" if "?hd \<noteq> NULL"
        using hd(2) [OF that] x False fl(3) [of i j] by auto
      ultimately show "next_free (blkmem ?h x) = next_free (blkmem h x) \<and>
        prev_free (blkmem ?h x) = prev_free (blkmem h x)" by (auto simp: nx pv)
    qed
    with False show ?thesis by (auto simp: lists)
  qed
  moreover have "bit (sl_bitmap ?h i) j \<longleftrightarrow> (F(fl := (F fl)(sl := b # F fl sl))) i j \<noteq> []" for i j
    using fl(4) c by (auto simp: insert_free_def Let_def m bit_set_pow push_bit_of_1)
  moreover have "bit (fl_bitmap ?h) i \<longleftrightarrow> sl_bitmap ?h i \<noteq> 0" for i
    using fl(5) c by (auto simp: insert_free_def Let_def m bit_set_pow push_bit_of_1 or_eq_0_iff)
  moreover have "set ((F(fl := (F fl)(sl := b # F fl sl))) i j)
      = {x \<in> insert b S. mapping_insert (bsize (blkmem ?h x)) = (i, j)}" for i j
    using fl(3) m by auto
  moreover have "distinct ((F(fl := (F fl)(sl := b # F fl sl))) i j)" for i j
    using fl(2,3) assms(2) by auto
  moreover have "free_bytes ?h = (\<Sum>x\<in>insert b S. bsize (blkmem ?h x))"
  proof -
    have "free_bytes ?h = free_bytes h + bsize (blkmem h b)" by (simp add: insert_free_def Let_def m)
    with assms(1,2) show ?thesis by (simp add: fidx_def add.commute)
  qed
  ultimately show ?thesis using assms unfolding fidx_def by simp
qed

lemma fseg_retail:
  assumes "fseg h p x us y" "distinct us" "us \<noteq> []"
    and "\<And>z. z \<in> set us \<Longrightarrow> prev_free (blkmem h' z) = prev_free (blkmem h z) \<and>
      next_free (blkmem h' z) = (if z = last us then y' else next_free (blkmem h z))"
  shows "fseg h' p x us y'"
  using assms
proof (induction us arbitrary: p x)
  case (Cons u us)
  then show ?case by (cases "us = []") auto
qed simp

lemma fseg_rehead:
  assumes "fseg h p x vs y" "distinct vs" "vs \<noteq> []"
    and "\<And>z. z \<in> set vs \<Longrightarrow> next_free (blkmem h' z) = next_free (blkmem h z) \<and>
      prev_free (blkmem h' z) = (if z = hd vs then q else prev_free (blkmem h z))"
  shows "fseg h' q x vs y"
proof (cases vs)
  case (Cons v vs')
  with assms have "fseg h v (next_free (blkmem h v)) vs' y" "v \<notin> set vs'" by auto
  then have "fseg h' v (next_free (blkmem h v)) vs' y"
    by (rule_tac fseg_cong [THEN iffD2]) (use assms(4) Cons in auto)
  with assms Cons show ?thesis by simp
qed (use assms in simp)

lemma fidx_remove:
  assumes "fidx h S F" "b \<in> S" and m: "mapping_insert (bsize (blkmem h b)) = (fl, sl)"
  shows "fidx (remove_free b h) (S - {b}) (F(fl := (F fl)(sl := remove1 b (F fl sl))))"
proof -
  let ?h = "remove_free b h"
  have fl: "flist h (free_lists h i j) (F i j)" "distinct (F i j)"
    "set (F i j) = {b \<in> S. mapping_insert (bsize (blkmem h b)) = (i, j)}"
    "bit (sl_bitmap h i) j \<longleftrightarrow> F i j \<noteq> []" "bit (fl_bitmap h) i \<longleftrightarrow> sl_bitmap h i \<noteq> 0" for i j
    using assms(1) unfolding fidx_def by blast+
  obtain us vs where F: "F fl sl = us @ b # vs" and bu: "b \<notin> set us"
    using fl(3) [of fl sl] assms(2) m split_list_first [of b "F fl sl"] by auto
  have F': "remove1 b (F fl sl) = us @ vs" using bu by (simp add: F remove1_append)
  define pv nx where "pv = prev_free (blkmem h b)" and "nx = next_free (blkmem h b)"
  have segs: "fseg h NULL (free_lists h fl sl) us b" "pv = last (NULL # us)" "fseg h b nx vs NULL" "b \<noteq> NULL"
    using fl(1) [of fl sl] by (auto simp: F fseg_append pv_def nx_def)
  have d: "distinct us" "distinct vs" "b \<notin> set vs" "set us \<inter> set vs = {}" using fl(2) [of fl sl] by (auto simp: F)
  have pv0: "pv = NULL \<longleftrightarrow> us = []" using segs(1,2) fseg_in [OF segs(1), of "last us"] by auto
  have nx0: "nx = (case vs of [] \<Rightarrow> NULL | v # _ \<Rightarrow> v)" "nx = NULL \<longleftrightarrow> vs = []"
    using segs(3) fseg_in [OF segs(3)] by (cases vs; auto)+
  have lists: "free_lists ?h = (if us = [] then (free_lists h)(fl := (free_lists h fl)(sl := nx)) else free_lists h)"
    using pv0 by (auto simp: remove_free_def Let_def m fun_eq_iff pv_def nx_def)
  have links: "next_free (blkmem ?h x) = (if us \<noteq> [] \<and> x = last us then nx else next_free (blkmem h x))"
    "prev_free (blkmem ?h x) = (if vs \<noteq> [] \<and> x = hd vs then pv else prev_free (blkmem h x))"
    if "x \<noteq> b" for x
  proof -
    have ends: "us \<noteq> [] \<Longrightarrow> last us = pv" "vs \<noteq> [] \<Longrightarrow> hd vs = nx"
      using segs(2) nx0(1) by (simp_all split: list.splits)
    show "next_free (blkmem ?h x) = (if us \<noteq> [] \<and> x = last us then nx else next_free (blkmem h x))"
      "prev_free (blkmem ?h x) = (if vs \<noteq> [] \<and> x = hd vs then pv else prev_free (blkmem h x))"
      using that pv0 nx0(2) ends
      by (auto simp: remove_free_def Let_def m pv_def [symmetric] nx_def [symmetric])
  qed
  have "flist ?h (free_lists ?h i j) ((F(fl := (F fl)(sl := us @ vs))) i j)" for i j
  proof (cases "i = fl \<and> j = sl")
    case True
    have "fseg ?h pv nx vs NULL"
    proof (cases "vs = []")
      case False
      show ?thesis
      proof (rule fseg_rehead [OF segs(3) d(2) False])
        fix z assume "z \<in> set vs"
        then have "z \<noteq> b" "us \<noteq> [] \<Longrightarrow> z \<noteq> last us"
          using d(3,4) by (auto, metis disjoint_iff last_in_set)
        with False show "next_free (blkmem ?h z) = next_free (blkmem h z) \<and>
          prev_free (blkmem ?h z) = (if z = hd vs then pv else prev_free (blkmem h z))"
          by (auto simp: links)
      qed
    qed (use nx0 in simp)
    moreover have "fseg ?h NULL (free_lists ?h fl sl) us nx"
    proof (cases "us = []")
      case False
      have "fseg ?h NULL (free_lists h fl sl) us nx"
      proof (rule fseg_retail [OF segs(1) d(1) False])
        fix z assume z: "z \<in> set us"
        then have "z \<noteq> b" "vs \<noteq> [] \<Longrightarrow> z \<noteq> hd vs" using d(4) bu hd_in_set [of vs] by auto
        with False show "prev_free (blkmem ?h z) = prev_free (blkmem h z) \<and>
          next_free (blkmem ?h z) = (if z = last us then nx else next_free (blkmem h z))"
          by (auto simp: links)
      qed
      with False show ?thesis by (simp add: lists)
    qed (simp add: lists)
    ultimately show ?thesis using True segs(2) by (auto simp: fseg_append)
  next
    case False
    have "fseg ?h NULL (free_lists h i j) (F i j) NULL"
      using fl(1) [of i j]
    proof (rule fseg_cong [THEN iffD2, rotated])
      fix x assume x: "x \<in> set (F i j)"
      then have "x \<notin> set (F fl sl)" using False fl(3) by auto
      then have "x \<noteq> b" "us \<noteq> [] \<Longrightarrow> x \<noteq> last us" "vs \<noteq> [] \<Longrightarrow> x \<noteq> hd vs"
        by (auto simp: F)
      then show "next_free (blkmem ?h x) = next_free (blkmem h x) \<and>
        prev_free (blkmem ?h x) = prev_free (blkmem h x)" by (auto simp: links)
    qed
    with False show ?thesis by (auto simp: lists)
  qed
  moreover have empty: "free_lists ?h fl sl = NULL \<longleftrightarrow> us @ vs = []"
    using calculation [of fl sl] by (cases "us @ vs") auto
  moreover have sl: "sl_bitmap ?h = (if us @ vs = [] then (sl_bitmap h)(fl := sl_bitmap h fl AND NOT (2 ^ sl)) else sl_bitmap h)"
    and flb: "fl_bitmap ?h = (if us @ vs = [] \<and> sl_bitmap h fl AND NOT (2 ^ sl) = 0
      then fl_bitmap h AND NOT (2 ^ fl) else fl_bitmap h)"
    using empty unfolding lists
    by (auto simp: remove_free_def Let_def m fun_eq_iff pv_def [symmetric] nx_def [symmetric] pv0 nx0(2) split: if_splits)
  moreover have "bit (sl_bitmap ?h i) j \<longleftrightarrow> (F(fl := (F fl)(sl := us @ vs))) i j \<noteq> []" for i j
    using fl(4) [of i j] F by (auto simp: sl bit_clear_pow)
  moreover have "bit (fl_bitmap ?h) i \<longleftrightarrow> sl_bitmap ?h i \<noteq> 0" for i
    using fl(5) [of i] fl(4) [of fl sl] F by (auto simp: sl flb bit_clear_pow)
  moreover have "set ((F(fl := (F fl)(sl := us @ vs))) i j)
      = {x \<in> S - {b}. mapping_insert (bsize (blkmem ?h x)) = (i, j)}" for i j
  proof (cases "i = fl \<and> j = sl")
    case True
    have "set (us @ vs) = set (F fl sl) - {b}" using bu d(3) by (auto simp: F)
    with True fl(3) [of fl sl] show ?thesis by auto
  next
    case False
    then show ?thesis using fl(3) [of i j] m by auto
  qed
  moreover have "distinct ((F(fl := (F fl)(sl := us @ vs))) i j)" for i j
    using fl(2) d by auto
  moreover have "free_bytes ?h = (\<Sum>x\<in>S - {b}. bsize (blkmem ?h x))"
  proof -
    have "free_bytes ?h = free_bytes h - bsize (blkmem h b)" by (simp add: remove_free_def Let_def m)
    with assms(1,2) show ?thesis by (simp add: fidx_def sum_diff1)
  qed
  ultimately show ?thesis using assms unfolding fidx_def F' by simp
qed

section \<open>The physical chain\<close>

text \<open>
  The blocks \<open>bs\<close> tile the addresses from \<open>x\<close> up to \<open>e\<close>, each knowing its physical predecessor; the
  header at \<open>e\<close> knows the last of them.
\<close>

primrec walk :: "tlsf \<Rightarrow> addr \<Rightarrow> addr \<Rightarrow> addr list \<Rightarrow> addr \<Rightarrow> bool" where
  "walk h p x [] e \<longleftrightarrow> x = e \<and> prev_phys (blkmem h e) = p"
| "walk h p x (b # bs) e \<longleftrightarrow> x = b \<and> 64 dvd unat b \<and> prev_phys (blkmem h b) = p \<and>
     64 \<le> unat (bsize (blkmem h b)) \<and> unat b + 64 + unat (bsize (blkmem h b)) < 2 ^ 32 \<and>
     walk h b (blk_next h b) bs e"

lemma walk_append:
  "walk h p x (us @ vs) e \<longleftrightarrow> (\<exists>z. walk h p x us z \<and> walk h (last (p # us)) z vs e)"
  by (induction us arbitrary: p x) (cases vs; auto)+

lemma walk_cong:
  "(\<And>b. b \<in> set bs \<Longrightarrow> bsize (blkmem h' b) = bsize (blkmem h b)) \<Longrightarrow>
   (\<And>b. b \<in> insert e (set bs) \<Longrightarrow> prev_phys (blkmem h' b) = prev_phys (blkmem h b)) \<Longrightarrow>
   walk h' p x bs e \<longleftrightarrow> walk h p x bs e"
  by (induction bs arbitrary: p x) (auto simp: blk_next_def)

lemma unat_blk_next:
  assumes "unat b + 64 + unat (bsize (blkmem h b)) < 2 ^ 32"
  shows "unat (blk_next h b) = unat b + 64 + unat (bsize (blkmem h b))"
proof -
  have 1: "unat (b + 64) = unat b + 64" using assms by (simp add: unat_plus_if_size word_size)
  show ?thesis unfolding blk_next_def using assms 1 by (simp add: unat_plus_if_size word_size)
qed

lemma walk_bounds:
  "walk h p x bs e \<Longrightarrow> unat x \<le> unat e \<and> (\<forall>b\<in>set bs. unat x \<le> unat b \<and> 64 dvd unat b \<and>
     64 \<le> unat (bsize (blkmem h b)) \<and> unat b + 64 + unat (bsize (blkmem h b)) \<le> unat e)"
proof (induction bs arbitrary: p x)
  case (Cons b bs)
  then have w: "walk h b (blk_next h b) bs e" and [simp]: "x = b" and
    n: "unat (blk_next h b) = unat b + 64 + unat (bsize (blkmem h b))" by (auto simp: unat_blk_next)
  from Cons.IH [OF w] Cons.prems show ?case unfolding n by fastforce
qed simp

lemma walk_sorted:
  "walk h p x bs e \<Longrightarrow> sorted_wrt (\<lambda>a b. unat a + 64 + unat (bsize (blkmem h a)) \<le> unat b) bs"
proof (induction bs arbitrary: p x)
  case (Cons b bs)
  then have w: "walk h b (blk_next h b) bs e" and
    n: "unat (blk_next h b) = unat b + 64 + unat (bsize (blkmem h b))" by (auto simp: unat_blk_next)
  from Cons.IH [OF w] walk_bounds [OF w] show ?case unfolding n by auto
qed simp

lemma walk_disjoint:
  assumes "walk h p x bs e" "a \<in> set bs" "b \<in> set bs" "unat a < unat b"
  shows "unat a + 64 + unat (bsize (blkmem h a)) \<le> unat b"
proof -
  from split_list [OF assms(2)] obtain us vs where bs: "bs = us @ a # vs" by blast
  have s: "sorted_wrt (\<lambda>a b. unat a + 64 + unat (bsize (blkmem h a)) \<le> unat b) (us @ a # vs)"
    using walk_sorted [OF assms(1)] bs by simp
  then show ?thesis using assms(3,4) bs by (fastforce simp: sorted_wrt_append)
qed

lemma walk_distinct: "walk h p x bs e \<Longrightarrow> distinct bs"
proof (induction bs arbitrary: p x)
  case (Cons b bs)
  then have w: "walk h b (blk_next h b) bs e" and
    n: "unat (blk_next h b) = unat b + 64 + unat (bsize (blkmem h b))" by (auto simp: unat_blk_next)
  from Cons.IH [OF w] walk_bounds [OF w] show ?case unfolding n by auto
qed simp

text \<open>The three places of the chain around a block.\<close>

lemma walk_at:
  assumes "walk h p x (us @ b # vs) e"
  shows "walk h p x us b" "walk h b (blk_next h b) vs e" "prev_phys (blkmem h b) = last (p # us)"
    "unat (blk_next h b) = unat b + 64 + unat (bsize (blkmem h b))"
    "blk_next h b = (case vs of [] \<Rightarrow> e | c # _ \<Rightarrow> c)"
proof -
  from assms obtain z where z: "walk h p x us z" "walk h (last (p # us)) z (b # vs) e" by (auto simp: walk_append)
  then show "walk h p x us b" "walk h b (blk_next h b) vs e" "prev_phys (blkmem h b) = last (p # us)"
    "unat (blk_next h b) = unat b + 64 + unat (bsize (blkmem h b))" by (auto simp: unat_blk_next)
  then show "blk_next h b = (case vs of [] \<Rightarrow> e | c # _ \<Rightarrow> c)" by (cases vs) auto
qed

section \<open>Searching\<close>

lemma fidxD:
  assumes "fidx h S F"
  shows "\<And>i j. flist h (free_lists h i j) (F i j)"
    "\<And>i j. set (F i j) = {b \<in> S. mapping_insert (bsize (blkmem h b)) = (i, j)}"
    "\<And>i j. bit (sl_bitmap h i) j \<longleftrightarrow> F i j \<noteq> []" "\<And>i. bit (fl_bitmap h) i \<longleftrightarrow> sl_bitmap h i \<noteq> 0"
    "\<And>b. b \<in> S \<Longrightarrow> 64 \<le> unat (bsize (blkmem h b)) \<and> unat (bsize (blkmem h b)) < 2 ^ 29"
  using assms unfolding fidx_def by blast+

lemma fidx_head:
  assumes "fidx h S F" "bit (sl_bitmap h i) j"
  shows "free_lists h i j \<in> S" "free_lists h i j \<noteq> NULL" "class_lb i j \<le> unat (bsize (blkmem h (free_lists h i j)))"
proof -
  note d = fidxD [OF assms(1)]
  obtain b bs where F: "F i j = b # bs" using assms(2) d(3) by (cases "F i j") auto
  have b: "free_lists h i j = b" "b \<noteq> NULL" using d(1) [of i j] by (auto simp: F)
  have "b \<in> S" and m: "mapping_insert (bsize (blkmem h b)) = (i, j)" using d(2) [of i j] by (auto simp: F)
  with mapping_insert_class(1) [OF _ _ m] d(5) [of b] b
  show "free_lists h i j \<in> S" "free_lists h i j \<noteq> NULL" "class_lb i j \<le> unat (bsize (blkmem h (free_lists h i j)))"
    by auto
qed

lemma bit_from: "bit (w AND push_bit k (NOT 0)) i \<longleftrightarrow> bit w i \<and> k \<le> i" for w :: u32
  by (auto simp: bit_simps dest: bit_imp_le_length)

lemma find_free_eq:
  assumes "mapping_search x = (fl, sl)"
  shows "find_free_block x h =
    (if sl_bitmap h fl AND push_bit sl (NOT 0) \<noteq> 0 then free_lists h fl (ctz32 (sl_bitmap h fl AND push_bit sl (NOT 0)))
     else if fl + 1 < 24 \<and> fl_bitmap h AND push_bit (fl + 1) (NOT 0) \<noteq> 0
     then free_lists h (ctz32 (fl_bitmap h AND push_bit (fl + 1) (NOT 0)))
       (ctz32 (sl_bitmap h (ctz32 (fl_bitmap h AND push_bit (fl + 1) (NOT 0)))))
     else NULL)"
  unfolding find_free_block_def Let_def assms prod.case by simp

lemma find_free_bounded:
  assumes "fidx h S F" "find_free_block x h \<noteq> NULL"
  shows "unat x < 2 ^ 29 \<and> x \<noteq> 0"
proof (rule ccontr)
  assume "\<not> ?thesis"
  then have 23: "fst (mapping_search x) = 23" by (intro mapping_search_huge) auto
  have "sl_bitmap h 23 = 0"
  proof (rule ccontr)
    assume "sl_bitmap h 23 \<noteq> 0"
    then obtain j where "bit (sl_bitmap h 23) j" by (auto simp: word_eq_0_iff_bits [of "sl_bitmap h 23"])
    with fidx_head [OF assms(1) this] fidxD(5) [OF assms(1), of "free_lists h 23 j"] show False
      by (auto simp: class_lb_def)
  qed
  with 23 have "find_free_block x h = NULL"
    by (cases "mapping_search x") (simp add: find_free_eq)
  with assms(2) show False by simp
qed

lemma find_free_sound:
  assumes "fidx h S F" "64 \<le> unat x \<or> x = 0" "find_free_block x h \<noteq> NULL"
  shows "find_free_block x h \<in> S" "unat x \<le> unat (bsize (blkmem h (find_free_block x h)))"
proof -
  note d = fidxD [OF assms(1)]
  have "unat x < 2 ^ 29 \<and> x \<noteq> 0" by (rule find_free_bounded [OF assms(1,3)])
  with assms(2) have "64 \<le> unat x" "unat x < 2 ^ 29" by auto
  then obtain fl sl where s: "mapping_search x = (fl, sl)" "unat x \<le> class_lb fl sl" "sl < 4"
    by (rule mapping_search_class)
  define m1 where "m1 = sl_bitmap h fl AND push_bit sl (NOT 0)"
  define m2 where "m2 = fl_bitmap h AND push_bit (fl + 1) (NOT 0)"
  note ff = find_free_eq [OF s(1), of h, folded m1_def m2_def]
  have "\<exists>i j. find_free_block x h = free_lists h i j \<and> bit (sl_bitmap h i) j \<and> (fl < i \<or> fl = i \<and> sl \<le> j)"
  proof (cases "m1 = 0")
    case False
    have "bit (sl_bitmap h fl) (ctz32 m1) \<and> sl \<le> ctz32 m1" using ctz32_props(2) [OF False] unfolding m1_def bit_from .
    with False ff show ?thesis by auto
  next
    case True
    with assms(3) ff have m2: "m2 \<noteq> 0" and
      r: "find_free_block x h = free_lists h (ctz32 m2) (ctz32 (sl_bitmap h (ctz32 m2)))"
      by (auto split: if_splits)
    have "bit (fl_bitmap h) (ctz32 m2) \<and> fl + 1 \<le> ctz32 m2"
      using ctz32_props(2) [OF m2] unfolding m2_def bit_from .
    then have "bit (fl_bitmap h) (ctz32 m2)" "fl < ctz32 m2" by auto
    with d(4) r show ?thesis using ctz32_props(2) [of "sl_bitmap h (ctz32 m2)"] by blast
  qed
  then obtain i j where *: "find_free_block x h = free_lists h i j" "bit (sl_bitmap h i) j" "fl < i \<or> fl = i \<and> sl \<le> j"
    by blast
  from fidx_head [OF assms(1) *(2)] class_lb_mono [OF *(3) s(3)] s(2)
  show "find_free_block x h \<in> S" "unat x \<le> unat (bsize (blkmem h (find_free_block x h)))"
    by (simp_all add: *(1))
qed

text \<open>Good fit: a free block a quarter larger than the request is always enough.\<close>

lemma find_free_complete:
  assumes "fidx h S F" "64 \<le> unat x" "unat x < 2 ^ 29" "b \<in> S" "5 * unat x \<le> 4 * unat (bsize (blkmem h b))"
  shows "find_free_block x h \<noteq> NULL"
proof -
  note d = fidxD [OF assms(1)]
  obtain fl sl where s: "mapping_search x = (fl, sl)" "4 * class_lb fl sl < 5 * unat x" "fl < 24" "sl < 4"
    using mapping_search_class [OF assms(2,3)] by metis
  obtain i j where m: "mapping_insert (bsize (blkmem h b)) = (i, j)" by fastforce
  have sz: "64 \<le> unat (bsize (blkmem h b))" "unat (bsize (blkmem h b)) < 2 ^ 29" using d(5) [OF assms(4)] by auto
  note c = mapping_insert_class [OF sz(1) _ m]
  have ge: "fl < i \<or> fl = i \<and> sl \<le> j"
  proof (rule ccontr)
    assume "\<not> ?thesis"
    then have lt: "i < fl \<or> i = fl \<and> Suc j \<le> sl" by auto
    have "class_lb i j + 2 ^ (i + 4) = class_lb i (Suc j)" by (simp add: class_lb_def algebra_simps)
    also have "\<dots> \<le> class_lb fl sl"
    proof (cases "i = fl")
      case True
      with lt show ?thesis by (simp add: class_lb_def)
    next
      case False
      with lt have "Suc (i + 4) \<le> fl + 4" by simp
      then have "4 * 2 ^ Suc (i + 4) \<le> (4 + sl) * (2::nat) ^ (fl + 4)" by (intro mult_mono power_increasing) simp_all
      moreover have "class_lb i (Suc j) \<le> 8 * 2 ^ (i + 4)"
        unfolding class_lb_def using c(4) sz(2) by (intro mult_right_mono) simp_all
      ultimately show ?thesis by (simp add: class_lb_def [of fl] power_add algebra_simps)
    qed
    finally show False using c(2) sz(2) s(2) assms(5) by simp
  qed
  have "b \<in> set (F i j)" using d(2) [of i j] m assms(4) by simp
  then have bj1: "bit (sl_bitmap h i) j" using d(3) by auto
  then have "sl_bitmap h i \<noteq> 0" by auto
  with bj1 have bj: "bit (sl_bitmap h i) j" "bit (fl_bitmap h) i" using d(4) by simp_all
  define m1 where "m1 = sl_bitmap h fl AND push_bit sl (NOT 0)"
  define m2 where "m2 = fl_bitmap h AND push_bit (fl + 1) (NOT 0)"
  note ff = find_free_eq [OF s(1), of h, folded m1_def m2_def]
  show ?thesis
  proof (cases "m1 = 0")
    case False
    have "bit (sl_bitmap h fl) (ctz32 m1) \<and> sl \<le> ctz32 m1" using ctz32_props(2) [OF False] unfolding m1_def bit_from .
    with fidx_head(2) [OF assms(1), of fl "ctz32 m1"] False ff show ?thesis by simp
  next
    case True
    with bj(1) have "fl \<noteq> i \<or> \<not> sl \<le> j" using bit_from [of "sl_bitmap h fl" sl j] unfolding m1_def by auto
    with ge have i: "fl < i" by auto
    then have "bit m2 i" using bj(2) unfolding m2_def bit_from by simp
    then have m2: "m2 \<noteq> 0" by auto
    have "bit (fl_bitmap h) (ctz32 m2) \<and> fl + 1 \<le> ctz32 m2" using ctz32_props(2) [OF m2] unfolding m2_def bit_from .
    then have "sl_bitmap h (ctz32 m2) \<noteq> 0" using d(4) by simp
    from fidx_head(2) [OF assms(1) ctz32_props(2) [OF this]] True m2 i c(3) sz(2) ff show ?thesis by simp
  qed
qed

section \<open>The pool\<close>

text \<open>
  \<open>S\<close> are the free blocks among \<open>bs\<close>: exactly those with \<^verbatim>\<open>BLKF_FREE\<close>, and exactly those in the
  index. \<open>e\<close> is the sentinel header at the end of the pool.
\<close>

definition pool :: "tlsf \<Rightarrow> addr \<Rightarrow> addr \<Rightarrow> addr list \<Rightarrow> addr set \<Rightarrow> bool" where
  "pool h x e bs S \<longleftrightarrow> walk h NULL x bs e \<and> (\<exists>F. fidx h S F) \<and> S \<subseteq> set bs \<and>
     (\<forall>b\<in>set bs. flags (blkmem h b) AND BLKF_FREE \<noteq> 0 \<longleftrightarrow> b \<in> S) \<and>
     bsize (blkmem h e) = 0 \<and> flags (blkmem h e) AND BLKF_FREE = 0 \<and> x \<noteq> NULL \<and> unat e < unat x + 2 ^ 29"

lemma flag_simps [simp]: "(f OR 1) AND 1 \<noteq> (0::u32)" "(f AND - 2) AND 1 = (0::u32)"
  using bit_eq_iff [of "(f AND NOT 1) AND 1" "0::u32"]
  by (auto simp: bit_eq_iff [where ?'a = "32 word"] bit_simps)

lemma walk_reprev:
  assumes "walk h p x vs e"
    and "\<And>b. b \<in> set vs \<Longrightarrow> bsize (blkmem h' b) = bsize (blkmem h b)"
    and "\<And>b. b \<in> insert e (set vs) \<Longrightarrow> b \<noteq> x \<Longrightarrow> prev_phys (blkmem h' b) = prev_phys (blkmem h b)"
    and "prev_phys (blkmem h' x) = q"
  shows "walk h' q x vs e"
proof (cases vs)
  case (Cons b bs)
  then have w: "walk h b (blk_next h b) bs e" and [simp]: "x = b" using assms(1) by auto
  have gt: "unat b < unat c" if "c \<in> insert e (set bs)" for c
    using walk_bounds [OF w] walk_at(4) [of h p x "[]" b bs e] assms(1) Cons that by auto
  have "walk h' b (blk_next h b) bs e"
  proof (rule walk_cong [THEN iffD2, OF _ _ w])
    show "prev_phys (blkmem h' c) = prev_phys (blkmem h c)" if "c \<in> insert e (set bs)" for c
      using assms(3) [of c] gt [OF that] that Cons by auto
  qed (use assms(2) Cons in auto)
  with assms Cons show ?thesis by (auto simp: blk_next_def)
qed (use assms in simp)

lemma poolD:
  assumes "pool h x e bs S"
  shows "walk h NULL x bs e" "\<exists>F. fidx h S F" "S \<subseteq> set bs" "x \<noteq> NULL" "unat e < unat x + 2 ^ 29"
    "bsize (blkmem h e) = 0" "flags (blkmem h e) AND BLKF_FREE = 0"
    "\<And>b. b \<in> set bs \<Longrightarrow> flags (blkmem h b) AND BLKF_FREE \<noteq> 0 \<longleftrightarrow> b \<in> S"
  using assms unfolding pool_def by blast+

lemma pool_block:
  assumes "pool h x e bs S" "b \<in> set bs"
  shows "b \<noteq> NULL" "64 dvd unat b" "64 \<le> unat (bsize (blkmem h b))" "unat (bsize (blkmem h b)) < 2 ^ 29"
    "unat x \<le> unat b" "unat b + 64 + unat (bsize (blkmem h b)) \<le> unat e" "b \<noteq> e"
proof -
  note w = walk_bounds [OF poolD(1) [OF assms(1)]] and d = poolD(4,5) [OF assms(1)]
  have "unat x \<noteq> 0" using d(1) by (simp add: unat_eq_0)
  with w d assms(2) show "b \<noteq> NULL" "64 dvd unat b" "64 \<le> unat (bsize (blkmem h b))"
    "unat (bsize (blkmem h b)) < 2 ^ 29" "unat x \<le> unat b" "unat b + 64 + unat (bsize (blkmem h b)) \<le> unat e" "b \<noteq> e"
    by fastforce+
qed

lemma pool_remove:
  assumes "pool h x e bs S" "b \<in> S"
  shows "pool (remove_free b h) x e bs (S - {b})"
proof -
  note d = poolD [OF assms(1)]
  obtain F where F: "fidx h S F" using d(2) by blast
  have "\<exists>F. fidx (remove_free b h) (S - {b}) F"
    using fidx_remove [OF F assms(2)] by (metis surj_pair)
  moreover have "b \<noteq> e" using pool_block(7) [OF assms(1)] assms(2) d(3) by blast
  moreover have "walk (remove_free b h) NULL x bs e" by (rule walk_cong [THEN iffD2, OF _ _ d(1)]) simp_all
  moreover have "flags (blkmem (remove_free b h) c) AND BLKF_FREE \<noteq> 0 \<longleftrightarrow> c \<in> S - {b}" if "c \<in> set bs" for c
    using d(8) [OF that] by simp
  ultimately show ?thesis using d(3-7) unfolding pool_def by auto
qed

lemma pool_insert:
  assumes "pool h x e bs S" "b \<in> set bs" "b \<notin> S"
  shows "pool (insert_free b h) x e bs (insert b S)"
proof -
  note d = poolD [OF assms(1)] and pb = pool_block [OF assms(1,2)]
  obtain F where F: "fidx h S F" using d(2) by blast
  have "\<exists>F. fidx (insert_free b h) (insert b S) F"
    using fidx_insert [OF F assms(3) pb(1,3,4)] by (metis surj_pair)
  moreover have "walk (insert_free b h) NULL x bs e" by (rule walk_cong [THEN iffD2, OF _ _ d(1)]) simp_all
  moreover have "flags (blkmem (insert_free b h) c) AND BLKF_FREE \<noteq> 0 \<longleftrightarrow> c \<in> insert b S" if "c \<in> set bs" for c
    using d(8) [OF that] by simp
  ultimately show ?thesis using d(3-7) pb(7) assms(2) unfolding pool_def by auto
qed

text \<open>Carving a block: the first \<open>r\<close> bytes stay with \<open>b\<close>, the rest becomes a block of its own.\<close>

definition carve :: "addr \<Rightarrow> u32 \<Rightarrow> tlsf \<Rightarrow> tlsf" where
  "carve b r h =
     (let rem = b + TLSF_HDR + r;
          h = upd_blk rem (\<lambda>_. \<lparr>prev_phys = b, bsize = bsize (blkmem h b) - r - TLSF_HDR,
                                flags = 0, next_free = NULL, prev_free = NULL\<rparr>) h;
          h = upd_blk (blk_next h rem) (\<lambda>x. x\<lparr>prev_phys := rem\<rparr>) h
      in upd_blk b (\<lambda>x. x\<lparr>bsize := r\<rparr>) h)"

lemma pool_carve:
  assumes P: "pool h x e (us @ b # vs) S" "b \<notin> S"
    and r: "64 \<le> unat r" "64 dvd unat r" "unat r + 128 \<le> unat (bsize (blkmem h b))"
  defines "rem \<equiv> b + 64 + r"
  shows "pool (carve b r h) x e (us @ b # rem # vs) S" "rem \<notin> set (us @ b # vs)" "rem \<noteq> b" "rem \<notin> S"
    "unat rem = unat b + 64 + unat r" "bsize (blkmem (carve b r h) b) = r"
    "unat (bsize (blkmem (carve b r h) rem)) = unat (bsize (blkmem h b)) - unat r - 64"
    "\<And>c. c \<noteq> b \<Longrightarrow> c \<noteq> rem \<Longrightarrow> bsize (blkmem (carve b r h) c) = bsize (blkmem h c)"
proof -
  let ?n = "bsize (blkmem h b)" and ?h = "carve b r h" and ?nx = "blk_next h b"
  note d = poolD [OF P(1)] and pb = pool_block [OF P(1)] and at = walk_at [OF poolD(1) [OF P(1)]]
  have b: "b \<in> set (us @ b # vs)" by simp
  have ue: "unat e < 2 ^ 32" using unsigned_less [of e, where ?'a = nat] by simp
  have 1: "unat (b + 64) = unat b + 64" using pb(3,6) [OF b] ue by (simp add: unat_plus_if_size word_size)
  show ur: "unat rem = unat b + 64 + unat r"
    unfolding rem_def using 1 r(3) pb(6) [OF b] ue by (simp add: unat_plus_if_size word_size)
  have un: "unat (?n - r - 64) = unat ?n - unat r - 64"
  proof -
    have "unat (?n - r) = unat ?n - unat r" using r(3) by (intro unat_sub) (simp add: word_le_nat_alt)
    then show ?thesis using r(3) by (subst unat_sub) (simp_all add: word_le_nat_alt)
  qed
  have nx: "rem + 64 + (?n - r - 64) = ?nx" by (simp add: rem_def blk_next_def algebra_simps)
  have nxr: "?nx \<noteq> rem" using at(4) ur r(3) by (auto simp: unat_arith_simps)
  show nin: "rem \<notin> set (us @ b # vs)"
  proof
    assume "rem \<in> set (us @ b # vs)"
    from walk_disjoint [OF d(1) b this] ur r(3) show False by simp
  qed
  then show "rem \<noteq> b" "rem \<notin> S" using d(3) by auto
  have re: "rem \<noteq> e" using ur r(3) pb(6) [OF b] by auto
  define new where "new = \<lparr>prev_phys = b, bsize = ?n - r - 64, flags = 0, next_free = NULL, prev_free = NULL\<rparr>"
  have nb: "?nx \<noteq> b" using at(4) by auto
  have bn: "blk_next (upd_blk rem (\<lambda>_. new) h) rem = ?nx" using nx unfolding blk_next_def new_def by simp
  have "?h = upd_blk b (\<lambda>x. x\<lparr>bsize := r\<rparr>) (upd_blk ?nx (\<lambda>x. x\<lparr>prev_phys := rem\<rparr>) (upd_blk rem (\<lambda>_. new) h))"
    unfolding carve_def Let_def rem_def [symmetric] new_def [symmetric] bn by (rule refl)
  then have h: "blkmem ?h b = (blkmem h b)\<lparr>bsize := r\<rparr>" "blkmem ?h rem = new"
    "c \<noteq> b \<Longrightarrow> c \<noteq> rem \<Longrightarrow> blkmem ?h c = (if c = ?nx then (blkmem h c)\<lparr>prev_phys := rem\<rparr> else blkmem h c)" for c
    using nin nxr nb by auto
  show "bsize (blkmem ?h b) = r" "unat (bsize (blkmem ?h rem)) = unat ?n - unat r - 64"
    "\<And>c. c \<noteq> b \<Longrightarrow> c \<noteq> rem \<Longrightarrow> bsize (blkmem ?h c) = bsize (blkmem h c)"
    using h un by (simp_all add: new_def)
  have bd: "\<And>c. c \<in> set us \<Longrightarrow> unat c < unat b" "\<And>c. c \<in> set vs \<Longrightarrow> unat ?nx \<le> unat c"
    using walk_bounds [OF at(1)] walk_bounds [OF at(2)] by fastforce+
  have "walk ?h NULL x us b"
  proof (rule walk_cong [THEN iffD2, OF _ _ at(1)])
    show "bsize (blkmem ?h c) = bsize (blkmem h c)" if "c \<in> set us" for c
      using that nin bd(1) [OF that] by (subst h(3)) auto
    show "prev_phys (blkmem ?h c) = prev_phys (blkmem h c)" if "c \<in> insert b (set us)" for c
    proof (cases "c = b")
      case True
      then show ?thesis by (simp add: h(1))
    next
      case False
      with that bd(1) [of c] at(4) have "c \<noteq> ?nx" by auto
      with that nin False show ?thesis by (subst h(3)) auto
    qed
  qed
  moreover have "walk ?h rem ?nx vs e"
  proof (rule walk_reprev [OF at(2)])
    show "bsize (blkmem ?h c) = bsize (blkmem h c)" if "c \<in> set vs" for c
      using that nin bd(2) [OF that] at(4) by (subst h(3)) auto
    show "prev_phys (blkmem ?h c) = prev_phys (blkmem h c)" if "c \<in> insert e (set vs)" "c \<noteq> ?nx" for c
      using that nin re pb(7) [OF b] by (cases "c = b") (simp add: h(1), subst h(3), auto)
    show "prev_phys (blkmem ?h ?nx) = rem" using nxr nb by (subst h(3)) auto
  qed
  moreover have "blk_next ?h rem = ?nx" "blk_next ?h b = rem"
    using nx unfolding blk_next_def h new_def rem_def [symmetric] by (simp_all add: rem_def)
  moreover have "64 dvd unat rem" using ur r(2) pb(2) [OF b] by simp
  ultimately have "walk ?h NULL x (us @ b # rem # vs) e"
    using at(3) r ur un pb(2,6) [OF b] ue by (auto simp: walk_append h new_def)
  moreover have "\<exists>F. fidx ?h S F"
  proof -
    obtain F where F: "fidx h S F" using d(2) by blast
    have "fidx ?h S F"
      by (rule fidx_cong [OF F]) (use P(2) \<open>rem \<notin> S\<close> in \<open>auto simp: carve_def Let_def rem_def\<close>)
    then show ?thesis by blast
  qed
  moreover have fl: "flags (blkmem ?h c) = flags (blkmem h c)" if "c \<noteq> rem" for c
    using that by (cases "c = b") (auto simp: h)
  moreover have "bsize (blkmem ?h e) = bsize (blkmem h e)" using re pb(7) [OF b] by (subst h(3)) auto
  moreover have "flags (blkmem ?h c) AND BLKF_FREE \<noteq> 0 \<longleftrightarrow> c \<in> S" if "c \<in> set (us @ b # rem # vs)" for c
    using that \<open>rem \<notin> S\<close> fl [of c] d(8) [of c] by (cases "c = rem") (auto simp: h new_def)
  ultimately show "pool ?h x e (us @ b # rem # vs) S"
    using d(3-7) fl [of e] re unfolding pool_def by auto
qed

text \<open>Coalescing: \<open>a\<close> swallows its physical successor \<open>c\<close>.\<close>

definition absorb :: "addr \<Rightarrow> addr \<Rightarrow> tlsf \<Rightarrow> tlsf" where
  "absorb a c h = upd_blk (blk_next h c) (\<lambda>x. x\<lparr>prev_phys := a\<rparr>)
     (upd_blk a (\<lambda>x. x\<lparr>bsize := bsize x + (TLSF_HDR + bsize (blkmem h c))\<rparr>) h)"

lemma pool_absorb:
  assumes P: "pool h x e (us @ a # c # vs) S" "a \<notin> S" "c \<notin> S"
  shows "pool (absorb a c h) x e (us @ a # vs) S"
    "unat (bsize (blkmem (absorb a c h) a)) = unat (bsize (blkmem h a)) + 64 + unat (bsize (blkmem h c))"
    "\<And>b. b \<noteq> a \<Longrightarrow> bsize (blkmem (absorb a c h) b) = bsize (blkmem h b)"
proof -
  let ?n = "bsize (blkmem h a)" and ?m = "bsize (blkmem h c)" and ?h = "absorb a c h" and ?nx = "blk_next h c"
  note d = poolD [OF P(1)] and pb = pool_block [OF P(1)]
  note ata = walk_at [OF poolD(1) [OF P(1)]] and atc = walk_at [of h NULL x "us @ [a]" c vs e]
  have w: "walk h NULL x ((us @ [a]) @ c # vs) e" using d(1) by simp
  note atc = atc [OF w]
  have ab: "a \<in> set (us @ a # c # vs)" "c \<in> set (us @ a # c # vs)" by simp_all
  have ue: "unat e < 2 ^ 32" using unsigned_less [of e, where ?'a = nat] by simp
  have c: "c = blk_next h a" "unat c = unat a + 64 + unat ?n" using ata(2,4) by auto
  have un: "unat (?n + (64 + ?m)) = unat ?n + 64 + unat ?m"
  proof -
    have "unat (64 + ?m) = 64 + unat ?m" using pb(6) [OF ab(2)] ue by (simp add: unat_plus_if_size word_size)
    then show ?thesis using pb(6) [OF ab(2)] ue c(2) by (simp add: unat_plus_if_size word_size)
  qed
  have nx: "unat ?nx = unat a + 64 + unat ?n + 64 + unat ?m" using atc(4) c(2) by simp
  then have na: "?nx \<noteq> a" by auto
  have h: "blkmem ?h a = (blkmem h a)\<lparr>bsize := ?n + (64 + ?m)\<rparr>"
    "b \<noteq> a \<Longrightarrow> blkmem ?h b = (if b = ?nx then (blkmem h b)\<lparr>prev_phys := a\<rparr> else blkmem h b)" for b
    using na unfolding absorb_def by auto
  show "unat (bsize (blkmem ?h a)) = unat ?n + 64 + unat ?m"
    "\<And>b. b \<noteq> a \<Longrightarrow> bsize (blkmem ?h b) = bsize (blkmem h b)" using h un by simp_all
  have bd: "\<And>b. b \<in> set us \<Longrightarrow> unat b < unat a" "\<And>b. b \<in> set vs \<Longrightarrow> unat ?nx \<le> unat b"
    using walk_bounds [OF ata(1)] walk_bounds [OF atc(2)] by fastforce+
  have "walk ?h NULL x us a"
  proof (rule walk_cong [THEN iffD2, OF _ _ ata(1)])
    show "bsize (blkmem ?h b) = bsize (blkmem h b)" if "b \<in> set us" for b
      using bd(1) [OF that] by (subst h(2)) auto
    show "prev_phys (blkmem ?h b) = prev_phys (blkmem h b)" if "b \<in> insert a (set us)" for b
      using that bd(1) [of b] nx by (cases "b = a") (simp add: h(1), subst h(2), auto)
  qed
  moreover have "walk ?h a ?nx vs e"
  proof (rule walk_reprev [OF atc(2)])
    show "bsize (blkmem ?h b) = bsize (blkmem h b)" if "b \<in> set vs" for b
      using bd(2) [OF that] nx by (subst h(2)) auto
    show "prev_phys (blkmem ?h b) = prev_phys (blkmem h b)" if "b \<in> insert e (set vs)" "b \<noteq> ?nx" for b
      using that by (cases "b = a") (simp add: h(1), subst h(2), auto)
    show "prev_phys (blkmem ?h ?nx) = a" using na by (subst h(2)) auto
  qed
  moreover have "blk_next ?h a = ?nx" unfolding blk_next_def h by (simp add: c(1) blk_next_def)
  ultimately have "walk ?h NULL x (us @ a # vs) e"
    using ata(3) un pb(2,3) [OF ab(1)] pb(6) [OF ab(2)] ue c(2) by (auto simp: walk_append h(1))
  moreover have "\<exists>F. fidx ?h S F"
  proof -
    obtain F where F: "fidx h S F" using d(2) by blast
    have "fidx ?h S F"
      by (rule fidx_cong [OF F]) (use P(2) in \<open>auto simp: absorb_def\<close>)
    then show ?thesis by blast
  qed
  moreover have fl: "flags (blkmem ?h b) = flags (blkmem h b)" for b by (cases "b = a") (auto simp: h)
  moreover have "bsize (blkmem ?h e) = bsize (blkmem h e)" using pb(7) [OF ab(1)] by (subst h(2)) auto
  ultimately show "pool ?h x e (us @ a # vs) S"
    using d(3-8) P(3) unfolding pool_def by auto
qed

section \<open>The heap invariant\<close>

text \<open>
  No two free neighbours: every free has coalesced. The abstract state is the map of live
  allocations, from payload address to payload size.
\<close>

definition heap_inv :: "tlsf \<Rightarrow> addr \<Rightarrow> addr \<Rightarrow> addr list \<Rightarrow> addr set \<Rightarrow> bool" where
  "heap_inv h x e bs S \<longleftrightarrow> pool h x e bs S \<and> successively (\<lambda>a b. \<not> (a \<in> S \<and> b \<in> S)) bs"

definition used :: "tlsf \<Rightarrow> addr list \<Rightarrow> addr set \<Rightarrow> addr \<rightharpoonup> nat" where
  "used h bs S p = (if p - TLSF_HDR \<in> set bs - S then Some (unat (bsize (blkmem h (p - TLSF_HDR)))) else None)"

definition heap_ok :: "tlsf \<Rightarrow> addr \<Rightarrow> addr \<Rightarrow> (addr \<rightharpoonup> nat) \<Rightarrow> bool" where
  "heap_ok h x e U \<longleftrightarrow> (\<exists>bs S. heap_inv h x e bs S \<and> U = used h bs S)"

lemma used_updI:
  assumes "\<And>c. (if c \<in> set bs' - S' then Some (unat (bsize (blkmem h' c))) else None) =
    (if c = b then z else if c \<in> set bs - S then Some (unat (bsize (blkmem h c))) else None)"
  shows "used h' bs' S' = (used h bs S)(b + 64 := z)"
proof (rule ext)
  show "used h' bs' S' p = ((used h bs S)(b + 64 := z)) p" for p
    using assms [of "p - 64"] by (auto simp: used_def eq_diff_eq)
qed

lemma successively_weaken:
  "successively (\<lambda>a b. \<not> (a \<in> S \<and> b \<in> S)) bs \<Longrightarrow> T \<inter> set bs \<subseteq> S \<Longrightarrow> successively (\<lambda>a b. \<not> (a \<in> T \<and> b \<in> T)) bs"
  by (erule successively_mono) auto

lemma successively_mid:
  "successively P (us @ b # vs) \<longleftrightarrow> successively P us \<and> (us \<noteq> [] \<longrightarrow> P (last us) b) \<and>
     (vs \<noteq> [] \<longrightarrow> P b (hd vs)) \<and> successively P vs"
  by (auto simp: successively_append_iff successively_Cons)

lemma successively_new:
  assumes "successively (\<lambda>a b. \<not> (a \<in> S \<and> b \<in> S)) (us @ b # vs)" "c \<notin> set (us @ b # vs)" "b \<notin> S"
    "vs \<noteq> [] \<Longrightarrow> hd vs \<notin> S"
  shows "successively (\<lambda>a b. \<not> (a \<in> insert c S \<and> b \<in> insert c S)) (us @ b # c # vs)"
proof -
  have "successively (\<lambda>a b. \<not> (a \<in> insert c S \<and> b \<in> insert c S)) (us @ b # vs)"
    by (rule successively_weaken [OF assms(1)]) (use assms(2) in auto)
  with assms(2-4) show ?thesis by (cases vs) (auto simp: successively_mid successively_Cons)
qed

lemma split_block_ok:
  assumes inv: "heap_inv h x e (us @ b # vs) S" "b \<notin> S" and hd: "vs \<noteq> [] \<Longrightarrow> hd vs \<notin> S"
    and r: "64 \<le> unat r" "64 dvd unat r" "unat r \<le> unat (bsize (blkmem h b))"
  shows "\<exists>z vs' S'. heap_inv (split_block b r h) x e (us @ b # vs') S' \<and>
    used (split_block b r h) (us @ b # vs') S' = (used h (us @ b # vs) S)(b + 64 \<mapsto> z) \<and> unat r \<le> z"
proof (cases "bsize (blkmem h b) \<ge> r + 2 * 64")
  case False
  then have "split_block b r h = h" by (simp add: split_block_def)
  moreover have "used h (us @ b # vs) S = (used h (us @ b # vs) S)(b + 64 \<mapsto> unat (bsize (blkmem h b)))"
    using inv(2) by (auto simp: used_def fun_eq_iff)
  ultimately show ?thesis using inv(1) r(3) by (metis (no_types))
next
  case True
  note P = conjunct1 [OF inv(1) [unfolded heap_inv_def]]
  have "unat (bsize (blkmem h b)) < 2 ^ 29" using pool_block(4) [OF P] by simp
  with True r(3) have r3: "unat r + 128 \<le> unat (bsize (blkmem h b))"
    by (simp add: word_le_nat_alt unat_plus_if_size word_size split: if_splits)
  define rem where "rem = b + 64 + r"
  let ?c = "carve b r h"
  note c = pool_carve [OF P inv(2) r(1,2) r3, folded rem_def]
  have sp: "split_block b r h = insert_free rem ?c" using True by (simp add: split_block_def carve_def Let_def rem_def)
  have p: "pool (split_block b r h) x e (us @ b # rem # vs) (insert rem S)"
    unfolding sp using c(4) by (intro pool_insert [OF c(1)]) simp_all
  have "successively (\<lambda>a b. \<not> (a \<in> insert rem S \<and> b \<in> insert rem S)) (us @ b # rem # vs)"
    using successively_new [OF _ c(2) inv(2) hd] inv(1) unfolding heap_inv_def by blast
  with p have "heap_inv (split_block b r h) x e (us @ b # rem # vs) (insert rem S)" by (simp add: heap_inv_def)
  moreover have "used (split_block b r h) (us @ b # rem # vs) (insert rem S) = (used h (us @ b # vs) S)(b + 64 \<mapsto> unat r)"
    unfolding sp using c(2-4,6,8) inv(2) by (intro used_updI) auto
  ultimately show ?thesis by blast
qed

lemma heap_inv_remove:
  assumes "heap_inv h x e (us @ b # vs) S" "b \<in> S"
  shows "heap_inv (remove_free b h) x e (us @ b # vs) (S - {b})" "vs \<noteq> [] \<Longrightarrow> hd vs \<notin> S" "us \<noteq> [] \<Longrightarrow> last us \<notin> S"
    "used (remove_free b h) (us @ b # vs) (S - {b}) = (used h (us @ b # vs) S)(b + 64 \<mapsto> unat (bsize (blkmem h b)))"
proof -
  show "heap_inv (remove_free b h) x e (us @ b # vs) (S - {b})"
    using assms pool_remove successively_weaken [of S "us @ b # vs" "S - {b}"] unfolding heap_inv_def by blast
  show "vs \<noteq> [] \<Longrightarrow> hd vs \<notin> S" "us \<noteq> [] \<Longrightarrow> last us \<notin> S"
    using assms by (auto simp: heap_inv_def successively_mid)
  show "used (remove_free b h) (us @ b # vs) (S - {b}) = (used h (us @ b # vs) S)(b + 64 \<mapsto> unat (bsize (blkmem h b)))"
    using assms(2) by (auto simp: used_def fun_eq_iff eq_diff_eq)
qed

lemma heap_round_ok:
  assumes "sz \<noteq> 0"
  shows "heap_round sz = 0 \<or> 64 \<le> unat (heap_round sz) \<and> unat sz \<le> unat (heap_round sz)" "64 dvd unat (heap_round sz)"
    "unat sz + 63 < 2 ^ 32 \<Longrightarrow> unat sz \<le> unat (heap_round sz) \<and> unat (heap_round sz) < unat sz + 64"
proof -
  let ?y = "sz + 64 - 1 :: u32"
  have "unat (?y div 64) = unat ?y div 64" by (simp add: unat_div)
  moreover have "unat ?y div 64 * 64 < 2 ^ 32" using unsigned_less [of ?y, where ?'a = nat] by simp
  ultimately have u: "unat (heap_round sz) = unat ?y div 64 * 64"
    by (simp add: heap_round_def unat_word_ariths(2))
  then show "64 dvd unat (heap_round sz)" by simp
  have y: "?y = sz + 63" by (simp add: algebra_simps)
  have uy: "unat ?y = (if unat sz + 63 < 2 ^ 32 then unat sz + 63 else unat sz + 63 - 2 ^ 32)"
    unfolding y by (simp add: unat_plus_if_size word_size)
  have lt: "unat sz < 2 ^ 32" using unsigned_less [of sz, where ?'a = nat] by simp
  show 3: "unat sz \<le> unat (heap_round sz) \<and> unat (heap_round sz) < unat sz + 64" if "unat sz + 63 < 2 ^ 32"
    unfolding u uy using that by auto
  show "heap_round sz = 0 \<or> 64 \<le> unat (heap_round sz) \<and> unat sz \<le> unat (heap_round sz)"
  proof (cases "unat sz + 63 < 2 ^ 32")
    case True
    then have "unat sz \<le> unat (heap_round sz)" using 3 by blast
    moreover have "unat sz \<noteq> 0" using assms by (simp add: unat_eq_0)
    then have "64 \<le> unat (heap_round sz)"
      unfolding u uy using True div_le_mono [of 64 "unat sz + 63" 64] by simp
    ultimately show ?thesis by blast
  next
    case False
    then have "unat ?y < 64" unfolding uy using lt by simp
    then have "unat (heap_round sz) = 0" unfolding u by simp
    then show ?thesis by (simp add: unat_eq_0)
  qed
qed

text \<open>Allocation: \<^verbatim>\<open>NULL\<close> and nothing changed, or one more live block of at least the size asked for.\<close>

lemma heap_alloc_ok:
  assumes "heap_ok h x e U" "ulmk_heap_alloc sz h = (p, h')" "p \<noteq> NULL"
  shows "\<exists>z. heap_ok h' x e (U(p \<mapsto> z)) \<and> unat sz \<le> z \<and> U p = None"
proof -
  obtain bs S where inv: "heap_inv h x e bs S" and U: "U = used h bs S" using assms(1) by (auto simp: heap_ok_def)
  note P = conjunct1 [OF inv [unfolded heap_inv_def]]
  obtain F where F: "fidx h S F" using poolD(2) [OF P] by blast
  define b where "b = find_free_block (heap_round sz) h"
  have sz: "sz \<noteq> 0" and b: "b \<noteq> NULL" and p: "p = b + 64" and
    h': "h' = split_block b (heap_round sz) (remove_free b h)"
    using assms(2,3) by (auto simp: ulmk_heap_alloc_def Let_def b_def split: if_splits)
  have r: "64 \<le> unat (heap_round sz) \<or> heap_round sz = 0" using heap_round_ok(1) [OF sz] by auto
  note f = find_free_sound [OF F r, folded b_def, OF b]
  have r0: "heap_round sz \<noteq> 0" using find_free_bounded [OF F] b unfolding b_def by blast
  have "b \<in> set bs" using f(1) poolD(3) [OF P] by auto
  then obtain us vs where bs: "bs = us @ b # vs" by (meson split_list)
  note rm = heap_inv_remove [OF inv [unfolded bs] f(1)]
  from split_block_ok [OF rm(1), of "heap_round sz"] rm(2) heap_round_ok(1,2) [OF sz] r0 f(2)
  obtain z vs' S' where "heap_inv h' x e (us @ b # vs') S'" "unat (heap_round sz) \<le> z"
    "used h' (us @ b # vs') S' = (used (remove_free b h) (us @ b # vs) (S - {b}))(p \<mapsto> z)"
    by (auto simp: h' p)
  then have "heap_ok h' x e (U(p \<mapsto> z))" using rm(4) by (auto simp: heap_ok_def U bs p intro!: exI)
  with \<open>unat (heap_round sz) \<le> z\<close> show ?thesis
    using heap_round_ok(1) [OF sz] r0 f(1) by (intro exI [of _ z]) (auto simp: U p used_def)
qed

text \<open>Freeing: first the successor, then the predecessor is coalesced.\<close>

lemma hd_free:
  assumes "pool h x e (us @ b # vs) S"
  shows "bsize (blkmem h (blk_next h b)) > 0 \<and> flags (blkmem h (blk_next h b)) AND BLKF_FREE \<noteq> 0 \<longleftrightarrow>
    vs \<noteq> [] \<and> hd vs \<in> S"
proof (cases vs)
  case Nil
  then show ?thesis using walk_at(5) [OF poolD(1) [OF assms]] poolD(6) [OF assms] by simp
next
  case (Cons c ws)
  then have "blk_next h b = c" "c \<in> set (us @ b # vs)" using walk_at(5) [OF poolD(1) [OF assms]] by auto
  moreover have "bsize (blkmem h c) > 0" using pool_block(3) [OF assms \<open>c \<in> _\<close>] by (metis le_zero_eq not_gr_zero unat_0 word_neq_0_conv zero_neq_numeral)
  ultimately show ?thesis using poolD(8) [OF assms] Cons by simp
qed

lemma successively_fill:
  assumes "successively (\<lambda>a c. \<not> (a \<in> S \<and> c \<in> S)) (us @ b # vs)" "distinct (us @ b # vs)"
    "us \<noteq> [] \<Longrightarrow> last us \<notin> S" "vs \<noteq> [] \<Longrightarrow> hd vs \<notin> S"
  shows "successively (\<lambda>a c. \<not> (a \<in> insert b S \<and> c \<in> insert b S)) (us @ b # vs)"
proof -
  have "successively (\<lambda>a c. \<not> (a \<in> S \<and> c \<in> S)) us" "successively (\<lambda>a c. \<not> (a \<in> S \<and> c \<in> S)) vs"
    using assms(1) unfolding successively_mid by blast+
  note this [THEN successively_weaken, of "insert b S"]
  then have "successively (\<lambda>a c. \<not> (a \<in> insert b S \<and> c \<in> insert b S)) us"
    "successively (\<lambda>a c. \<not> (a \<in> insert b S \<and> c \<in> insert b S)) vs" using assms(2) by auto
  moreover have "us \<noteq> [] \<Longrightarrow> last us \<noteq> b" "vs \<noteq> [] \<Longrightarrow> hd vs \<noteq> b"
    using assms(2) last_in_set [of us] hd_in_set [of vs] by auto
  ultimately show ?thesis using assms(3,4) unfolding successively_mid by blast
qed

definition free_next :: "addr \<Rightarrow> tlsf \<Rightarrow> tlsf" where
  "free_next b h = (let nxt = blk_next h b in
     if bsize (blkmem h nxt) > 0 \<and> flags (blkmem h nxt) AND BLKF_FREE \<noteq> 0
     then absorb b nxt (remove_free nxt h) else h)"

definition free_prev :: "addr \<Rightarrow> tlsf \<Rightarrow> tlsf" where
  "free_prev b h = (let prv = prev_phys (blkmem h b) in
     if prv \<noteq> NULL \<and> flags (blkmem h prv) AND BLKF_FREE \<noteq> 0
     then insert_free prv (absorb prv b (remove_free prv h)) else insert_free b h)"

lemma heap_free_eq: "p \<noteq> NULL \<Longrightarrow> ulmk_heap_free p h = free_prev (p - 64) (free_next (p - 64) h)"
  unfolding ulmk_heap_free_def free_prev_def free_next_def absorb_def Let_def
  by (simp add: blk_next_def)

lemma free_next_ok:
  assumes inv: "heap_inv h x e (us @ b # vs) S" "b \<notin> S"
  shows "\<exists>vs' S'. heap_inv (free_next b h) x e (us @ b # vs') S' \<and> b \<notin> S' \<and> (vs' \<noteq> [] \<longrightarrow> hd vs' \<notin> S') \<and>
    (used (free_next b h) (us @ b # vs') S')(b + 64 := None) = (used h (us @ b # vs) S)(b + 64 := None)"
proof -
  note P = conjunct1 [OF inv(1) [unfolded heap_inv_def]]
  show ?thesis
  proof (cases "vs \<noteq> [] \<and> hd vs \<in> S")
    case False
    then have "free_next b h = h" unfolding free_next_def Let_def using hd_free [OF P] by auto
    with False inv show ?thesis by auto
  next
    case True
    then obtain c ws where vs: "vs = c # ws" and c: "c \<in> S" by (cases vs) auto
    let ?h = "remove_free c h" and ?S = "S - {c}"
    have "blk_next h b = c" using walk_at(5) [OF poolD(1) [OF P]] vs by simp
    then have fn: "free_next b h = absorb b c ?h" using hd_free [OF P] True by (simp add: free_next_def)
    have "heap_inv h x e ((us @ [b]) @ c # ws) S" using inv(1) vs by simp
    note rm = heap_inv_remove [OF this c]
    have pr: "pool ?h x e (us @ b # c # ws) ?S" using rm(1) by (simp add: heap_inv_def)
    note ab = pool_absorb [OF pr]
    have b: "b \<notin> ?S" "c \<notin> ?S" using inv(2) by auto
    have dist: "c \<noteq> b" "c \<notin> set us" "c \<notin> set ws"
      using walk_distinct [OF poolD(1) [OF P]] vs by auto
    have suc: "successively (\<lambda>a b. \<not> (a \<in> ?S \<and> b \<in> ?S)) (us @ b # ws)"
      using rm(1,2) b(1) by (auto simp: heap_inv_def successively_mid successively_Cons)
    have "used (absorb b c ?h) (us @ b # ws) ?S =
      (used h (us @ b # vs) S)(b + 64 := Some (unat (bsize (blkmem (absorb b c ?h) b))))"
      using ab(3) [OF b] dist c vs inv(2) by (intro used_updI) auto
    then have "(used (absorb b c ?h) (us @ b # ws) ?S)(b + 64 := None) = (used h (us @ b # vs) S)(b + 64 := None)"
      by simp
    with ab(1) [OF b] suc b(1) rm(2) show ?thesis unfolding fn heap_inv_def by blast
  qed
qed

lemma free_prev_ok:
  assumes inv: "heap_inv h x e (us @ b # vs) S" "b \<notin> S" and hd: "vs \<noteq> [] \<longrightarrow> hd vs \<notin> S"
  shows "heap_ok (free_prev b h) x e ((used h (us @ b # vs) S)(b + 64 := None))"
proof -
  note P = conjunct1 [OF inv(1) [unfolded heap_inv_def]]
  have pv: "prev_phys (blkmem h b) = last (NULL # us)" using walk_at(3) [OF poolD(1) [OF P]] .
  have dist: "distinct (us @ b # vs)" using walk_distinct [OF poolD(1) [OF P]] .
  show ?thesis
  proof (cases "us \<noteq> [] \<and> last us \<in> S")
    case False
    have "us \<noteq> [] \<Longrightarrow> last us \<in> set (us @ b # vs)" by simp
    with False pv poolD(8) [OF P] have fp: "free_prev b h = insert_free b h"
      by (auto simp: free_prev_def Let_def)
    have "pool (insert_free b h) x e (us @ b # vs) (insert b S)" by (rule pool_insert [OF P _ inv(2)]) simp
    moreover have "successively (\<lambda>a c. \<not> (a \<in> insert b S \<and> c \<in> insert b S)) (us @ b # vs)"
      using successively_fill [OF _ dist] inv(1) False hd unfolding heap_inv_def by blast
    moreover have "used (insert_free b h) (us @ b # vs) (insert b S) = (used h (us @ b # vs) S)(b + 64 := None)"
      by (rule used_updI) auto
    ultimately show ?thesis unfolding fp heap_ok_def heap_inv_def by metis
  next
    case True
    then obtain ws a where us: "us = ws @ [a]" and a: "a \<in> S" by (metis append_butlast_last_id)
    let ?h = "remove_free a h" and ?S = "S - {a}"
    have "a \<noteq> NULL" using pool_block(1) [OF P] us by simp
    then have fp: "free_prev b h = insert_free a (absorb a b ?h)"
      using pv us a poolD(8) [OF P, of a] by (simp add: free_prev_def Let_def)
    have "heap_inv h x e (ws @ a # b # vs) S" using inv(1) us by simp
    note rm = heap_inv_remove [OF this a]
    have pr: "pool ?h x e (ws @ a # b # vs) ?S" using rm(1) by (simp add: heap_inv_def)
    note ab = pool_absorb [OF pr]
    have n: "a \<notin> ?S" "b \<notin> ?S" using inv(2) by auto
    have p: "pool (free_prev b h) x e (ws @ a # vs) S"
      unfolding fp using pool_insert [OF ab(1) [OF n] _ n(1)] a by (simp add: insert_absorb)
    have "successively (\<lambda>a c. \<not> (a \<in> S \<and> c \<in> S)) (ws @ a # vs)"
      using inv(1) us hd by (auto simp: heap_inv_def successively_append_iff successively_Cons)
    moreover have "used (free_prev b h) (ws @ a # vs) S = (used h (us @ b # vs) S)(b + 64 := None)"
    proof -
      have "bsize (blkmem (free_prev b h) c) = bsize (blkmem h c)" if "c \<notin> S" for c
        using that a ab(3) [OF n, of c] unfolding fp by (cases "c = a") auto
      with dist us a show ?thesis by (intro used_updI) auto
    qed
    ultimately show ?thesis using p unfolding heap_ok_def heap_inv_def by metis
  qed
qed

lemma heap_free_ok:
  assumes "heap_ok h x e U" "U p \<noteq> None"
  shows "heap_ok (ulmk_heap_free p h) x e (U(p := None))"
proof -
  obtain bs S where inv: "heap_inv h x e bs S" and U: "U = used h bs S" using assms(1) by (auto simp: heap_ok_def)
  have b: "p - 64 \<in> set bs" "p - 64 \<notin> S" using assms(2) by (auto simp: U used_def split: if_splits)
  then obtain us vs where bs: "bs = us @ (p - 64) # vs" by (meson split_list)
  have "p \<noteq> NULL"
  proof
    assume "p = NULL"
    then have "unat (p - 64) = 2 ^ 32 - 64" by simp
    moreover have "unat (p - 64) + 128 \<le> unat e" using pool_block(3,6) [of h x e bs S "p - 64"] inv b(1)
      by (auto simp: heap_inv_def)
    ultimately show False using unsigned_less [of e, where ?'a = nat] by simp
  qed
  from free_next_ok [OF inv [unfolded bs] b(2)] obtain vs' S' where
    "heap_inv (free_next (p - 64) h) x e (us @ (p - 64) # vs') S'" "p - 64 \<notin> S'" "vs' \<noteq> [] \<longrightarrow> hd vs' \<notin> S'"
    "(used (free_next (p - 64) h) (us @ (p - 64) # vs') S')(p - 64 + 64 := None) = U(p - 64 + 64 := None)"
    unfolding U bs by blast
  from free_prev_ok [OF this(1-3)] this(4) show ?thesis by (simp add: heap_free_eq [OF \<open>p \<noteq> NULL\<close>])
qed

end
