(* ===== verification/Heap.thy ===== *)
theory Heap
  imports Tlsf_Proofs
begin

text \<open>
  What the kernel heap promises its clients: the contract of \<^verbatim>\<open>ulmk_heap_alloc\<close>,
  \<^verbatim>\<open>ulmk_heap_aligned_alloc\<close> and \<^verbatim>\<open>ulmk_heap_free\<close> over the map of live blocks, initialisation, and the
  good-fit and coalescing guarantees.
\<close>

section \<open>Aligned allocation\<close>

lemma bit_FLS:
  fixes a :: u32
  assumes "2 ^ k \<le> unat a" "unat a < 2 ^ Suc k"
  shows "bit a k"
proof -
  have "unat a div 2 ^ k = 1" using assms by (intro div_nat_eqI) simp_all
  then have "bit (unat a) k" by (simp add: bit_iff_odd)
  then show ?thesis by (simp add: bit_unsigned_iff)
qed

lemma power_of_two:
  fixes a :: u32
  assumes "a AND (a - 1) = 0" "a \<noteq> 0"
  obtains k where "unat a = 2 ^ k" "k < 32"
proof -
  have f: "2 ^ FLS a \<le> unat a" "unat a < 2 ^ Suc (FLS a)" "FLS a < 32" using FLS_eq [OF assms(2)] by auto
  have "unat a = 2 ^ FLS a"
  proof (rule ccontr)
    assume "unat a \<noteq> 2 ^ FLS a"
    moreover have "unat (a - 1) = unat a - 1" using assms(2) by (intro unat_minus_one) auto
    ultimately have "bit (a - 1) (FLS a)" "bit a (FLS a)" using f by (intro bit_FLS; simp)+
    then have "bit (a AND (a - 1)) (FLS a)" by (simp add: bit_and_iff)
    then show False using assms(1) by simp
  qed
  from this f(3) show thesis by (rule that)
qed

text \<open>The aligned payload address inside a block with enough room, and the gap in front of it.\<close>

lemma aligned_gap:
  fixes payload align :: u32
  assumes "unat align = 2 ^ k" "6 < k" "64 dvd unat payload" "unat payload + unat align < 2 ^ 32"
  defines "a \<equiv> (payload + align - 1) AND NOT (align - 1)"
  shows "unat align dvd unat a" "unat payload \<le> unat a" "unat a < unat payload + unat align" "64 dvd unat a"
proof -
  have k: "k < 32" using assms(1) unsigned_less [of align, where ?'a = nat] power_strict_increasing_iff [of "2::nat" k 32] by simp
  have al: "align = 2 ^ k" using arg_cong [OF assms(1), of "word_of_nat :: nat \<Rightarrow> u32"] by simp
  have "unat (payload + align) \<noteq> 0" using assms(1,4) by (simp add: unat_plus_if_size word_size)
  then have nz: "payload + align \<noteq> 0" by auto
  have y: "unat (payload + align - 1) = unat payload + unat align - 1"
  proof -
    have "unat (payload + align) = unat payload + unat align" using assms(4) by (simp add: unat_plus_if_size word_size)
    then show ?thesis using nz by (simp add: unat_minus_one)
  qed
  have "unat a = (unat payload + 2 ^ k - 1) div 2 ^ k * 2 ^ k"
    unfolding a_def using y by (simp add: al pow2_minus_1_mask unat_and_not_mask assms(1) [unfolded al])
  then show "unat align dvd unat a" "unat payload \<le> unat a" "unat a < unat payload + unat align"
    using round_up_bounds [of "2 ^ k" "unat payload"] assms(1) by simp_all
  have "(64::nat) dvd 2 ^ k" using assms(2) le_imp_power_dvd [of 6 k "2::nat"] by simp
  then show "64 dvd unat a" using \<open>unat align dvd unat a\<close> assms(1) by (metis dvd_trans)
qed

section \<open>Live blocks\<close>

lemma heap_ok_block:
  assumes "heap_ok h x e U" "U p = Some n"
  shows "64 dvd unat p" "unat x + 64 \<le> unat p" "unat p + n \<le> unat e" "64 \<le> n"
proof -
  obtain bs S where inv: "heap_inv h x e bs S" and U: "U = used h bs S" using assms(1) by (auto simp: heap_ok_def)
  have b: "p - 64 \<in> set bs" and n: "n = unat (bsize (blkmem h (p - 64)))"
    using assms(2) by (auto simp: U used_def split: if_splits)
  note pb = pool_block [OF conjunct1 [OF inv [unfolded heap_inv_def]] b]
  have "unat (p - 64 + 64) = unat (p - 64) + 64"
    using pb(6) unsigned_less [of e, where ?'a = nat] by (simp only: unat_plus_if_size) (simp add: word_size)
  then have p: "unat p = unat (p - 64) + 64" by simp
  show "64 dvd unat p" "unat x + 64 \<le> unat p" "unat p + n \<le> unat e" "64 \<le> n" unfolding p n using pb(2-6) by simp_all
qed

lemma heap_ok_disjoint:
  assumes "heap_ok h x e U" "U p = Some n" "U q = Some m" "p \<noteq> q"
  shows "unat p + n \<le> unat q \<or> unat q + m \<le> unat p"
proof -
  obtain bs S where inv: "heap_inv h x e bs S" and U: "U = used h bs S" using assms(1) by (auto simp: heap_ok_def)
  have b: "p - 64 \<in> set bs" "q - 64 \<in> set bs" and n: "n = unat (bsize (blkmem h (p - 64)))" "m = unat (bsize (blkmem h (q - 64)))"
    using assms(2,3) by (auto simp: U used_def split: if_splits)
  have w: "walk h NULL x bs e" using inv by (simp add: heap_inv_def pool_def)
  have u: "unat (c - 64) = unat c - 64 \<and> 64 \<le> unat c" if "U c = Some k" for c k
    using heap_ok_block(2) [OF assms(1) that] unat_sub [of "64::u32" c] by (simp add: word_le_nat_alt)
  note u = u [OF assms(2)] u [OF assms(3)]
  have "unat p \<noteq> unat q" using assms(4) by (simp add: word_unat_eq_iff)
  then consider "unat (p - 64) < unat (q - 64)" | "unat (q - 64) < unat (p - 64)" using u by linarith
  then show ?thesis
  proof cases
    case 1
    from walk_disjoint [OF w b this] u n show ?thesis by linarith
  next
    case 2
    from walk_disjoint [OF w b(2,1) this] u n show ?thesis by linarith
  qed
qed

text \<open>The block header found for a request is a free block, so its payload is not at \<^verbatim>\<open>NULL\<close>.\<close>

lemma find_free_payload:
  assumes "heap_ok h x e U" "64 \<le> unat r \<or> r = 0" "find_free_block r h = b" "b \<noteq> NULL"
  shows "unat (b + 64) = unat b + 64" "b + 64 \<noteq> NULL"
proof -
  obtain bs S where inv: "heap_inv h x e bs S" using assms(1) by (auto simp: heap_ok_def)
  note P = conjunct1 [OF inv [unfolded heap_inv_def]]
  obtain F where F: "fidx h S F" using poolD(2) [OF P] by blast
  have "b \<in> set bs" using find_free_sound(1) [OF F assms(2)] poolD(3) [OF P] assms(3,4) by auto
  from pool_block(3,6) [OF P this] have "unat b + 64 < 2 ^ 32"
    using unsigned_less [of e, where ?'a = nat] by simp
  then show "unat (b + 64) = unat b + 64" by (simp add: unat_plus_if_size word_size)
  then show "b + 64 \<noteq> NULL" by (metis add_is_0 unat_0 zero_neq_numeral)
qed

lemma heap_alloc_null:
  assumes "heap_ok h x e U" "ulmk_heap_alloc sz h = (NULL, h')"
  shows "h' = h"
proof (rule ccontr)
  assume "h' \<noteq> h"
  with assms(2) have "sz \<noteq> 0" "find_free_block (heap_round sz) h \<noteq> NULL" "find_free_block (heap_round sz) h + 64 = NULL"
    by (auto simp: ulmk_heap_alloc_def Let_def split: if_splits)
  with find_free_payload(2) [OF assms(1) _ refl] heap_round_ok(1) show False by blast
qed

lemma aligned_split_ok:
  assumes inv: "heap_inv h x e (us @ b # vs) S" "b \<in> S"
    and g: "unat g + unat r \<le> unat (bsize (blkmem h b))" "128 \<le> unat g" "64 dvd unat g"
    and r: "64 \<le> unat r" "64 dvd unat r"
  defines "nb \<equiv> b + g"
  shows "\<exists>z. heap_ok (split_block nb r (insert_free b (carve b (g - 64) (remove_free b h)))) x e
    ((used h (us @ b # vs) S)(nb + 64 \<mapsto> z)) \<and> unat r \<le> z \<and> used h (us @ b # vs) S (nb + 64) = None"
proof -
  note rm = heap_inv_remove [OF inv]
  let ?h = "remove_free b h" and ?c = "carve b (g - 64) (remove_free b h)" and ?S = "S - {b}"
  have p: "pool ?h x e (us @ b # vs) ?S" using rm(1) by (simp add: heap_inv_def)
  have g64: "unat (g - 64) = unat g - 64" using g(2) by (intro unat_sub [THEN trans]) (simp_all add: word_le_nat_alt)
  have nb: "b + 64 + (g - 64) = nb" by (simp add: nb_def)
  have d: "64 dvd unat (g - 64)" using g(2,3) unfolding g64 by (intro dvd_diff_nat) simp_all
  have l: "64 \<le> unat (g - 64)" "unat (g - 64) + 128 \<le> unat (bsize (blkmem ?h b))"
    unfolding g64 using g(1,2) r(1) by simp_all
  note pc = pool_carve [OF p _ l(1) d l(2), unfolded nb]
  have c: "pool ?c x e (us @ b # nb # vs) ?S" "nb \<notin> set (us @ b # vs)" "nb \<noteq> b" "nb \<notin> ?S"
    by (rule pc; simp)+
  have c5: "unat (bsize (blkmem ?c nb)) = unat (bsize (blkmem h b)) - unat g"
    using pc(7) g(2) unfolding g64 by simp
  have c6: "bsize (blkmem ?c c) = bsize (blkmem h c)" if "c \<noteq> b" "c \<noteq> nb" for c
    using pc(8) [OF _ that] by simp
  let ?i = "insert_free b ?c"
  have "pool ?i x e (us @ b # nb # vs) (insert b ?S)" by (rule pool_insert [OF c(1)]) simp_all
  then have "pool ?i x e (us @ b # nb # vs) S" using inv(2) by (simp add: insert_absorb)
  moreover have nbS: "nb \<notin> S" using c(3,4) by simp
  then have "successively (\<lambda>a c. \<not> (a \<in> S \<and> c \<in> S)) (us @ b # nb # vs)"
    using inv(1) by (auto simp: heap_inv_def successively_append_iff successively_Cons)
  ultimately have i: "heap_inv ?i x e ((us @ [b]) @ nb # vs) S" by (simp add: heap_inv_def)
  have u: "used ?i ((us @ [b]) @ nb # vs) S = (used h (us @ b # vs) S)(nb + 64 \<mapsto> unat (bsize (blkmem ?c nb)))"
  proof -
    have "bsize (blkmem ?c c) = bsize (blkmem h c)" if "c \<notin> S" "c \<noteq> nb" for c
      using that inv(2) c6 [of c] by (cases "c = b") auto
    with nbS c(2,3) inv(2) show ?thesis by (intro used_updI) auto
  qed
  have "unat r \<le> unat (bsize (blkmem ?i nb))" using g(1) c5 by simp
  from split_block_ok [OF i nbS _ r this] rm(2) u
  obtain z vs' S' where "heap_inv (split_block nb r ?i) x e ((us @ [b]) @ nb # vs') S'" "unat r \<le> z"
    "used (split_block nb r ?i) ((us @ [b]) @ nb # vs') S' = (used h (us @ b # vs) S)(nb + 64 \<mapsto> z)"
    by auto
  then show ?thesis using c(2) by (auto simp: heap_ok_def used_def intro!: exI)
qed

lemma heap_aligned_alloc_eq:
  assumes "\<not> align \<le> 64" "sz \<noteq> 0" "align AND (align - 1) = 0"
    "b = find_free_block (heap_round sz + align + 64) h" "b \<noteq> NULL"
    "a = (b + 64 + align - 1) AND NOT (align - 1)"
    "a' = (if a \<noteq> b + 64 \<and> a - (b + 64) < 2 * 64 then a + align else a)"
  shows "ulmk_heap_aligned_alloc align sz h = (if a' \<noteq> b + 64
    then (a', split_block (b + (a' - (b + 64))) (heap_round sz)
           (insert_free b (carve b (a' - (b + 64) - 64) (remove_free b h))))
    else (a', split_block b (heap_round sz) (remove_free b h)))"
proof -
  have nb: "b + 64 + (a' - (b + 64) - 64) = a' - 64" "b + (a' - (b + 64)) = a' - 64" by simp_all
  have sz': "bsize (blkmem (remove_free b h) b) - (a' - (b + 64) - 64) - 64 = bsize (blkmem (remove_free b h) b) - (a' - (b + 64))"
    by simp
  have "ulmk_heap_aligned_alloc align sz h =
    (let (b, h) = (if a' \<noteq> b + 64 then (a' - 64, insert_free b (carve b (a' - (b + 64) - 64) (remove_free b h)))
       else (b, remove_free b h)) in (a', split_block b (heap_round sz) h))"
    unfolding ulmk_heap_aligned_alloc_def Let_def carve_def nb sz' assms(4) [symmetric]
      assms(6) [symmetric] assms(7) [symmetric] by (simp only: assms(1,2,3,5) if_False simp_thms)
  then show ?thesis unfolding nb by simp
qed

lemma heap_aligned_alloc_ok:
  assumes ok: "heap_ok h x e U" and al: "ulmk_heap_aligned_alloc align sz h = (p, h')" "(p, h') \<noteq> (NULL, h)"
    and fit: "unat sz + unat align + 128 \<le> 2 ^ 32"
  shows "\<exists>z. heap_ok h' x e (U(p \<mapsto> z)) \<and> unat sz \<le> z \<and> U p = None \<and> (align > 64 \<longrightarrow> unat align dvd unat p)"
proof (cases "align \<le> 64")
  case True
  then have a: "ulmk_heap_alloc sz h = (p, h')"
    using al by (auto simp: ulmk_heap_aligned_alloc_def split: if_splits)
  with heap_alloc_null [OF ok] al(2) have "p \<noteq> NULL" by auto
  from heap_alloc_ok [OF ok a this] True show ?thesis by auto
next
  case False
  define r where "r = heap_round sz"
  define b where "b = find_free_block (r + align + 64) h"
  define a where "a = (b + 64 + align - 1) AND NOT (align - 1)"
  have sz: "sz \<noteq> 0" and pw: "align AND (align - 1) = 0" and b: "b \<noteq> NULL"
    using al False by (auto simp: ulmk_heap_aligned_alloc_def Let_def b_def r_def split: if_splits)
  have al64: "64 < unat align" using False by (simp add: word_le_nat_alt)
  have "align \<noteq> 0" using al64 by auto
  with pw obtain k where k: "unat align = 2 ^ k" by (auto elim: power_of_two)
  have k6: "6 < k" using al64 k power_strict_increasing_iff [of "2::nat" 6 k] by simp
  have a64: "64 dvd unat align" using le_imp_power_dvd [of 6 k "2::nat"] k k6 by simp
  have r: "unat sz \<le> unat r" "unat r < unat sz + 64" "64 dvd unat r" "64 \<le> unat r"
    using heap_round_ok [OF sz] fit sz unfolding r_def by (auto simp: unat_eq_0)
  have "unat (r + align) = unat r + unat align" using r fit by (simp add: unat_plus_if_size word_size)
  then have q: "unat (r + align + 64) = unat r + unat align + 64" using r fit by (simp add: unat_plus_if_size word_size)
  obtain bs S where inv: "heap_inv h x e bs S" and U: "U = used h bs S" using ok by (auto simp: heap_ok_def)
  note P = conjunct1 [OF inv [unfolded heap_inv_def]]
  obtain F where F: "fidx h S F" using poolD(2) [OF P] by blast
  have q64: "64 \<le> unat (r + align + 64) \<or> r + align + 64 = 0" using q by simp
  note f = find_free_sound [OF F q64, folded b_def, OF b]
  note pay = find_free_payload [OF ok q64 b_def [symmetric] b]
  have bb: "b \<in> set bs" using f(1) poolD(3) [OF P] by auto
  then obtain us vs where bs: "bs = us @ b # vs" by (meson split_list)
  note pb = pool_block [OF P bb]
  have n: "unat r + unat align + 64 \<le> unat (bsize (blkmem h b))" using f(2) q by simp
  have e: "unat e < 2 ^ 32" using unsigned_less [of e, where ?'a = nat] by simp
  have p64: "64 dvd unat (b + 64)" using pay(1) pb(2) by simp
  have "unat (b + 64) + unat align < 2 ^ 32" using pay(1) pb(6) n e by simp
  note ag = aligned_gap [OF k k6 p64 this, folded a_def]
  define a' where "a' = (if a \<noteq> b + 64 \<and> a - (b + 64) < 2 * 64 then a + align else a)"
  have res: "(p, h') = (if a' \<noteq> b + 64
      then (a', split_block (b + (a' - (b + 64))) r (insert_free b (carve b (a' - (b + 64) - 64) (remove_free b h))))
      else (a', split_block b r (remove_free b h)))"
    using al(1) heap_aligned_alloc_eq [OF False sz pw b_def [unfolded r_def] b a_def a'_def]
    unfolding r_def by (metis (no_types))
  show ?thesis
  proof (cases "a = b + 64")
    case True
    then have "a' = b + 64" by (simp add: a'_def)
    then have p: "p = b + 64" and h': "h' = split_block b r (remove_free b h)" using res by simp_all
    note rm = heap_inv_remove [OF inv [unfolded bs] f(1)]
    from split_block_ok [OF rm(1), of r] rm(2) r n
    obtain z vs' S' where "heap_inv h' x e (us @ b # vs') S'" and z: "unat r \<le> z" and
      "used h' (us @ b # vs') S' = (used (remove_free b h) (us @ b # vs) (S - {b}))(p \<mapsto> z)"
      by (auto simp: h' p)
    then have "heap_ok h' x e (U(p \<mapsto> z))" using rm(4) by (auto simp: heap_ok_def U bs p intro!: exI)
    moreover have "U p = None" using f(1) by (simp add: U p used_def)
    ultimately show ?thesis using z r(1) ag(1) by (intro exI [of _ z]) (auto simp: p True)
  next
    case ne: False
    define g where "g = a' - (b + 64)"
    have ua: "unat (a - (b + 64)) = unat a - unat (b + 64)"
      using ag(2) by (intro unat_sub) (simp add: word_le_nat_alt)
    have ne': "unat a \<noteq> unat (b + 64)" using ne by (simp add: word_unat_eq_iff)
    have "unat a - unat (b + 64) \<ge> 64"
      using ne' ag(2,4) p64 by (intro dvd_imp_le dvd_diff_nat) simp_all
    have a': "unat a' = (if unat a - unat (b + 64) < 128 then unat a + unat align else unat a)"
    proof -
      have "unat (a + align) = unat a + unat align" if "unat a - unat (b + 64) < 128"
        using that ag(2) pay(1) pb(6) n e r(4) by (simp add: unat_plus_if_size word_size)
      then show ?thesis using ne ua by (simp add: a'_def word_less_nat_alt)
    qed
    have "unat g = unat a' - unat (b + 64)"
      unfolding g_def using ag(2) by (intro unat_sub) (simp add: word_le_nat_alt a')
    moreover have "unat align \<ge> 128" using k k6 power_increasing [of 7 k "2::nat"] by simp
    moreover have "unat a - unat (b + 64) = 64" if "unat a - unat (b + 64) < 128"
      using that \<open>64 \<le> unat a - unat (b + 64)\<close> ag(4) p64 by (elim dvdE) presburger
    ultimately have g: "unat g + unat r \<le> unat (bsize (blkmem h b))" "128 \<le> unat g" "64 dvd unat g"
      using a' ag n r(4) a64 p64 by (auto split: if_splits intro: dvd_diff_nat)
    have "a' \<noteq> b + 64" using g(2) unfolding g_def by auto
    then have p: "p = a'" "p = b + g + 64" and
      h': "h' = split_block (b + g) r (insert_free b (carve b (g - 64) (remove_free b h)))"
      using res by (simp_all add: g_def)
    from aligned_split_ok [OF inv [unfolded bs] f(1) g r(4,3)]
    obtain z where "heap_ok h' x e (U(p \<mapsto> z))" "unat r \<le> z" "U p = None"
      unfolding h' p(2) U bs by blast
    moreover have "unat align dvd unat p" using ag(1) by (simp add: p(1) a')
    ultimately show ?thesis using r(1) by (intro exI [of _ z]) auto
  qed
qed

section \<open>Initialisation\<close>

definition pool_start :: "addr \<Rightarrow> addr" where
  "pool_start base = (base + 63) AND NOT 63"

lemma heap_init_ok:
  assumes "base \<noteq> 0" "unat base + unat sz < 2 ^ 32" "255 \<le> unat sz" "unat sz < 2 ^ 29"
  shows "heap_ok (ulmk_heap_init base sz h) (pool_start base) (base + sz - 64) Map.empty"
    "unat (pool_start base) + 128 \<le> unat (base + sz - 64)"
proof -
  define x where "x = pool_start base"
  define e where "e = base + sz - 64"
  have us: "unat (base + sz) = unat base + unat sz" using assms(2) by (simp add: unat_plus_if_size word_size)
  have b63: "unat (base + 63) = unat base + 63" using assms(2,3) by (simp add: unat_plus_if_size word_size)
  have "63 = (mask 6 :: u32)" by (simp add: mask_eq_exp_minus_1)
  then have ux: "unat x = (unat base + 64 - 1) div 64 * 64"
    unfolding x_def pool_start_def using b63 unat_and_not_mask [of "base + 63" 6] by simp
  note rb = round_up_bounds [of 64 "unat base", folded ux]
  have xe: "unat base \<le> unat x" "unat x < unat base + 64" using rb by simp_all
  have x64: "64 dvd unat x" by (simp add: ux)
  have ue: "unat e = unat base + unat sz - 64"
    unfolding e_def using us assms(3) by (subst unat_sub) (simp_all add: word_le_nat_alt)
  then show "unat (pool_start base) + 128 \<le> unat (base + sz - 64)" using xe(2) assms(3) unfolding x_def e_def by linarith
  have tot: "unat (base + sz - x) = unat base + unat sz - unat x"
    using xe us assms(3) by (subst unat_sub) (simp_all add: word_le_nat_alt)
  have tot2: "unat (base + sz - x - 128) = unat base + unat sz - unat x - 128"
    using xe tot assms(3) by (subst unat_sub) (simp_all add: word_le_nat_alt)
  define h0 where "h0 = h\<lparr>fl_bitmap := 0, sl_bitmap := (\<lambda>_. 0), free_lists := (\<lambda>_ _. NULL), free_bytes := 0\<rparr>"
  define h1 where "h1 = upd_blk e (\<lambda>_. \<lparr>prev_phys = x, bsize = 0, flags = 0, next_free = NULL, prev_free = NULL\<rparr>)
    (upd_blk x (\<lambda>_. \<lparr>prev_phys = NULL, bsize = base + sz - x - 128, flags = 0, next_free = NULL, prev_free = NULL\<rparr>) h0)"
  have xne: "x \<noteq> e" using xe ue assms(3) by auto
  have x0: "x \<noteq> NULL" using xe(1) assms(1) by (auto simp: unat_eq_0)
  have "base < base + sz" using us assms(3) by (simp add: word_less_nat_alt)
  moreover have "\<not> base + sz - x < 3 * 64" using tot xe assms(3) by (simp add: word_less_nat_alt)
  moreover have xx: "(base + 64 - 1) AND NOT (64 - 1) = x" by (simp add: x_def pool_start_def add_diff_eq [symmetric])
  moreover have "x + 64 + (base + sz - x - 2 * 64) = e" by (simp add: e_def)
  ultimately have init: "ulmk_heap_init base sz h = insert_free x h1"
    unfolding ulmk_heap_init_def Let_def h1_def h0_def xx using assms(3) by (auto simp: blk_next_def)
  have nx: "blk_next h1 x = e" using xne by (simp add: blk_next_def h1_def e_def algebra_simps)
  have big: "64 \<le> unat (base + sz - x - 128)" "unat x + 64 + unat (base + sz - x - 128) < 2 ^ 32"
    using tot2 xe assms(2,3) by linarith+
  have h1: "blkmem h1 x = \<lparr>prev_phys = NULL, bsize = base + sz - x - 128, flags = 0, next_free = NULL, prev_free = NULL\<rparr>"
    "prev_phys (blkmem h1 e) = x" using xne by (simp_all add: h1_def)
  have "walk h1 NULL x [x] e" using x64 big nx by (simp add: h1)
  moreover have "fidx h1 {} (\<lambda>_ _. [])" by (simp add: fidx_def h1_def h0_def)
  ultimately have "pool h1 x e [x] {}" using xne x0 ue xe assms(4) by (auto simp: pool_def h1_def)
  from pool_insert [OF this, of x] have "heap_inv (insert_free x h1) x e [x] {x}" by (simp add: heap_inv_def)
  moreover have "used (insert_free x h1) [x] {x} = Map.empty" by (auto simp: used_def fun_eq_iff)
  ultimately show "heap_ok (ulmk_heap_init base sz h) (pool_start base) (base + sz - 64) Map.empty"
    unfolding init heap_ok_def x_def [symmetric] e_def [symmetric] by metis
qed

section \<open>Good fit and coalescing\<close>

lemma heap_all_free:
  assumes "heap_ok h x e Map.empty" "unat x < unat e"
  shows "heap_inv h x e [x] {x}" "unat (bsize (blkmem h x)) = unat e - unat x - 64" "free_bytes h = bsize (blkmem h x)"
proof -
  obtain bs S where inv: "heap_inv h x e bs S" and U: "Map.empty = used h bs S" using assms(1) by (auto simp: heap_ok_def)
  note P = conjunct1 [OF inv [unfolded heap_inv_def]]
  have "b \<in> S" if "b \<in> set bs" for b
    using fun_cong [OF U, of "b + 64"] that by (auto simp: used_def split: if_splits)
  then have S: "S = set bs" using poolD(3) [OF P] by auto
  have w: "walk h NULL x bs e" using poolD(1) [OF P] .
  then obtain cs where bs: "bs = x # cs" using assms(2) by (cases bs) auto
  have "cs = []" using inv S bs by (cases cs) (auto simp: heap_inv_def)
  with inv S bs show inv': "heap_inv h x e [x] {x}" by simp
  have "walk h NULL x [x] e" using w bs \<open>cs = []\<close> by simp
  then show "unat (bsize (blkmem h x)) = unat e - unat x - 64" using unat_blk_next [of x h] by auto
  obtain F where "fidx h {x} F" using inv' by (auto simp: heap_inv_def pool_def)
  then show "free_bytes h = bsize (blkmem h x)" by (simp add: fidx_def)
qed

lemma heap_alloc_complete:
  assumes "heap_ok h x e U" "sz \<noteq> 0" "unat sz + 63 < 2 ^ 29"
    and "heap_inv h x e bs S" "b \<in> S" "5 * unat (heap_round sz) \<le> 4 * unat (bsize (blkmem h b))"
  shows "fst (ulmk_heap_alloc sz h) \<noteq> NULL"
proof -
  obtain F where F: "fidx h S F" using assms(4) by (auto simp: heap_inv_def pool_def)
  have r: "64 \<le> unat (heap_round sz)" "unat (heap_round sz) < 2 ^ 29"
    using heap_round_ok(1,3) [OF assms(2)] assms(2,3) by (auto simp: unat_eq_0)
  note f = find_free_complete [OF F r assms(5,6)]
  from find_free_payload(2) [OF assms(1) _ refl f] r(1) f assms(2) show ?thesis
    by (simp add: ulmk_heap_alloc_def Let_def)
qed

end
