(* ===== verification/Heap_Contract.thy ===== *)
theory Heap_Contract
  imports Heap
begin

text \<open>
  The contract of the kernel heap as its clients see it: an interface of an allocator over a map of live
  blocks, the TLSF functions as two instances of it, and the states any sequence of calls can reach.
\<close>

section \<open>The interface\<close>

locale allocator =
  fixes ok :: "'h \<Rightarrow> (addr \<rightharpoonup> nat) \<Rightarrow> bool"
    and alloc :: "u32 \<Rightarrow> 'h \<Rightarrow> addr \<times> 'h"
    and free :: "addr \<Rightarrow> 'h \<Rightarrow> 'h"
    and fits :: "u32 \<Rightarrow> bool"
    and lo hi :: nat
  assumes alloc_null: "\<lbrakk>ok h U; fits sz; alloc sz h = (NULL, h')\<rbrakk> \<Longrightarrow> h' = h"
    and alloc_some: "\<lbrakk>ok h U; fits sz; alloc sz h = (p, h'); p \<noteq> NULL\<rbrakk> \<Longrightarrow>
      \<exists>z. ok h' (U(p \<mapsto> z)) \<and> unat sz \<le> z \<and> U p = None"
    and free_live: "\<lbrakk>ok h U; U p \<noteq> None\<rbrakk> \<Longrightarrow> ok (free p h) (U(p := None))"
    and live_inside: "\<lbrakk>ok h U; U p = Some n\<rbrakk> \<Longrightarrow> lo \<le> unat p \<and> unat p + n \<le> hi"
    and live_disjoint: "\<lbrakk>ok h U; U p = Some n; U q = Some m; p \<noteq> q\<rbrakk> \<Longrightarrow> unat p + n \<le> unat q \<or> unat q + m \<le> unat p"
begin

text \<open>A new block lies in the pool and meets no live block.\<close>

lemma alloc_fresh:
  assumes "ok h U" "fits sz" "alloc sz h = (p, h')" "p \<noteq> NULL"
  shows "lo \<le> unat p \<and> unat p + unat sz \<le> hi"
    and "U q = Some m \<Longrightarrow> unat p + unat sz \<le> unat q \<or> unat q + m \<le> unat p"
proof -
  obtain z where z: "ok h' (U(p \<mapsto> z))" "unat sz \<le> z" "U p = None" using alloc_some [OF assms] by blast
  show "lo \<le> unat p \<and> unat p + unat sz \<le> hi" using live_inside [OF z(1), of p z] z(2) by auto
  show "unat p + unat sz \<le> unat q \<or> unat q + m \<le> unat p" if "U q = Some m"
  proof -
    have "q \<noteq> p" using that z(3) by auto
    with live_disjoint [OF z(1), of p z q m] that z(2) show ?thesis by auto
  qed
qed

text \<open>Giving back a block at once restores the live map: the error paths of the kernel's constructors.\<close>

lemma alloc_free_undo:
  assumes "ok h U" "fits sz" "alloc sz h = (p, h')" "p \<noteq> NULL"
  shows "ok (free p h') U"
proof -
  obtain z where z: "ok h' (U(p \<mapsto> z))" "U p = None" using alloc_some [OF assms] by blast
  have "U = (U(p \<mapsto> z))(p := None)" using z(2) by (simp add: fun_upd_idem)
  with free_live [OF z(1), of p] show ?thesis by simp
qed

end

section \<open>The instances\<close>

lemma heap_aligned_alloc_null:
  assumes "heap_ok h x e U" "ulmk_heap_aligned_alloc align sz h = (NULL, h')" "unat sz + unat align + 128 \<le> 2 ^ 32"
  shows "h' = h"
proof (rule ccontr)
  assume "h' \<noteq> h"
  then obtain z where "heap_ok h' x e (U(NULL \<mapsto> z))" using heap_aligned_alloc_ok [OF assms(1,2) _ assms(3)] by blast
  from heap_ok_block(2) [OF this, of NULL z] show False by simp
qed

interpretation tlsf: allocator "\<lambda>h. heap_ok h x e" ulmk_heap_alloc ulmk_heap_free "\<lambda>_. True" "unat x" "unat e" for x e
proof (unfold_locales, goal_cases)
  case 1
  show ?case by (rule heap_alloc_null [OF 1(1,3)])
next
  case 2
  show ?case by (rule heap_alloc_ok [OF 2(1,3,4)])
next
  case 3
  show ?case by (rule heap_free_ok [OF 3])
next
  case 4
  show ?case using heap_ok_block(2,3) [OF 4] by simp
next
  case 5
  show ?case by (rule heap_ok_disjoint [OF 5])
qed

interpretation tlsf_aligned: allocator "\<lambda>h. heap_ok h x e" "ulmk_heap_aligned_alloc align" ulmk_heap_free
    "\<lambda>sz. unat sz + unat align + 128 \<le> 2 ^ 32" "unat x" "unat e" for x e align
proof (unfold_locales, goal_cases)
  case 1
  show ?case by (rule heap_aligned_alloc_null [OF 1(1,3,2)])
next
  case 2
  show ?case using heap_aligned_alloc_ok [OF 2(1,3) _ 2(2)] 2(4) by blast
qed (rule tlsf.free_live tlsf.live_inside tlsf.live_disjoint; assumption)+

section \<open>Every sequence of calls\<close>

text \<open>
  The states of the heap between calls, with the map of what the clients hold: the size they asked for
  under the address they got. Clients free only what they hold, and an aligned request does not
  overflow \<^verbatim>\<open>rounded + align + TLSF_HDR\<close>.
\<close>

inductive heap_reach :: "addr \<Rightarrow> u32 \<Rightarrow> tlsf \<Rightarrow> (addr \<rightharpoonup> nat) \<Rightarrow> bool" for base len where
  init: "heap_reach base len (ulmk_heap_init base len h) Map.empty"
| alloc: "\<lbrakk>heap_reach base len h R; ulmk_heap_alloc sz h = (p, h')\<rbrakk> \<Longrightarrow>
    heap_reach base len h' (if p = NULL then R else R(p \<mapsto> unat sz))"
| aligned_alloc: "\<lbrakk>heap_reach base len h R; unat sz + unat align + 128 \<le> 2 ^ 32; ulmk_heap_aligned_alloc align sz h = (p, h')\<rbrakk> \<Longrightarrow>
    heap_reach base len h' (if p = NULL then R else R(p \<mapsto> unat sz))"
| free: "\<lbrakk>heap_reach base len h R; p = NULL \<or> p \<in> dom R\<rbrakk> \<Longrightarrow> heap_reach base len (ulmk_heap_free p h) (R(p := None))"

definition covers :: "(addr \<rightharpoonup> nat) \<Rightarrow> (addr \<rightharpoonup> nat) \<Rightarrow> bool" where
  "covers U R \<longleftrightarrow> (\<forall>p. U p = None \<longleftrightarrow> R p = None) \<and> (\<forall>p n. R p = Some n \<longrightarrow> (\<exists>z. U p = Some z \<and> n \<le> z))"

lemma covers_simps:
  "covers Map.empty Map.empty" "covers U R \<Longrightarrow> n \<le> z \<Longrightarrow> covers (U(p \<mapsto> z)) (R(p \<mapsto> n))"
  "covers U R \<Longrightarrow> covers (U(p := None)) (R(p := None))"
  by (auto simp: covers_def split: if_splits)

lemma heap_ok_null: "heap_ok h x e U \<Longrightarrow> U NULL = None"
  using heap_ok_block(2) [of h x e U NULL] by (cases "U NULL") auto

lemma heap_reach_ok:
  assumes "heap_reach base len h R" "base \<noteq> 0" "unat base + unat len < 2 ^ 32" "255 \<le> unat len" "unat len < 2 ^ 29"
  shows "\<exists>U. heap_ok h (pool_start base) (base + len - 64) U \<and> covers U R"
  using assms(1)
proof induction
  case (init h)
  show ?case using heap_init_ok(1) [OF assms(2-5)] covers_simps(1) by blast
next
  case (alloc h R sz p h')
  then obtain U where U: "heap_ok h (pool_start base) (base + len - 64) U" "covers U R" by blast
  show ?case
  proof (cases "p = NULL")
    case True
    with tlsf.alloc_null [OF U(1) TrueI] alloc(2) U show ?thesis by auto
  next
    case False
    from tlsf.alloc_some [OF U(1) TrueI alloc(2) False] covers_simps(2) [OF U(2)]
    show ?thesis unfolding if_not_P [OF False] by blast
  qed
next
  case (aligned_alloc h R sz align p h')
  then obtain U where U: "heap_ok h (pool_start base) (base + len - 64) U" "covers U R" by blast
  show ?case
  proof (cases "p = NULL")
    case True
    with tlsf_aligned.alloc_null [OF U(1) aligned_alloc(2)] aligned_alloc(3) U show ?thesis by auto
  next
    case False
    from tlsf_aligned.alloc_some [OF U(1) aligned_alloc(2,3) False] covers_simps(2) [OF U(2)]
    show ?thesis unfolding if_not_P [OF False] by blast
  qed
next
  case (free h R p)
  then obtain U where U: "heap_ok h (pool_start base) (base + len - 64) U" "covers U R" by blast
  show ?case
  proof (cases "p = NULL")
    case True
    then have "U = U(p := None)" using heap_ok_null [OF U(1)] by (simp add: fun_upd_idem)
    moreover have "ulmk_heap_free p h = h" using True by (simp add: ulmk_heap_free_def)
    ultimately show ?thesis using U(1) covers_simps(3) [OF U(2), of p] by metis
  next
    case False
    with free(2) U(2) have "U p \<noteq> None" unfolding covers_def by auto
    from tlsf.free_live [OF U(1) this] covers_simps(3) [OF U(2)] show ?thesis by blast
  qed
qed

lemma pool_start_ge:
  assumes "unat base + unat len < 2 ^ 32" "255 \<le> unat len"
  shows "unat base \<le> unat (pool_start base)" "unat (base + len - 64) + 64 = unat base + unat len"
proof -
  have b63: "unat (base + 63) = unat base + 63" using assms by (simp add: unat_plus_if_size word_size)
  have "63 = (mask 6 :: u32)" by (simp add: mask_eq_exp_minus_1)
  then have "unat (pool_start base) = (unat base + 64 - 1) div 64 * 64"
    unfolding pool_start_def using b63 unat_and_not_mask [of "base + 63" 6] by simp
  then show "unat base \<le> unat (pool_start base)" using round_up_bounds(1) [of 64 "unat base"] by simp
  have "unat (base + len) = unat base + unat len" using assms(1) by (simp add: unat_plus_if_size word_size)
  then show "unat (base + len - 64) + 64 = unat base + unat len"
    using assms(2) by (subst unat_sub) (simp_all add: word_le_nat_alt)
qed

text \<open>The zeroed control block and memory of a fresh boot, and a pool of 4 KiB in it.\<close>

definition heap_zero :: tlsf where
  "heap_zero = \<lparr>fl_bitmap = 0, sl_bitmap = (\<lambda>_. 0), free_lists = (\<lambda>_ _. NULL), free_bytes = 0,
     blkmem = (\<lambda>_. \<lparr>prev_phys = NULL, bsize = 0, flags = 0, next_free = NULL, prev_free = NULL\<rparr>)\<rparr>"

definition heap_4k :: tlsf where
  "heap_4k = ulmk_heap_init 0x20000000 0x1000 heap_zero"

lemma heap_4k_reach: "heap_reach 0x20000000 0x1000 heap_4k Map.empty"
  unfolding heap_4k_def by (rule heap_reach.init)

lemma heap_4k_alloc: "fst (ulmk_heap_alloc 100 heap_4k) = 0x20000040"
  unfolding heap_4k_def heap_zero_def by code_simp

lemma heap_4k_alloc_reach:
  "heap_reach 0x20000000 0x1000 (snd (ulmk_heap_alloc 100 heap_4k)) [0x20000040 \<mapsto> 100]"
proof -
  have "ulmk_heap_alloc 100 heap_4k = (0x20000040, snd (ulmk_heap_alloc 100 heap_4k))"
    using heap_4k_alloc by (metis prod.collapse)
  from heap_reach.alloc [OF heap_4k_reach this] show ?thesis by simp
qed

text \<open>C3. Safety of the kernel heap: whatever sequence of \<^verbatim>\<open>ulmk_heap_alloc\<close>, \<^verbatim>\<open>ulmk_heap_aligned_alloc\<close>
  and \<^verbatim>\<open>ulmk_heap_free\<close> calls follows \<^verbatim>\<open>ulmk_heap_init\<close>, every block a client holds is aligned to 64 bytes,
  lies with all the bytes asked for inside the pool, and overlaps no other block held.\<close>

theorem heap_blocks_safe:
  assumes "heap_reach base len h R" "base \<noteq> 0" "unat base + unat len < 2 ^ 32" "255 \<le> unat len" "unat len < 2 ^ 29"
    "R p = Some n"
  shows "64 dvd unat p \<and> unat base \<le> unat p \<and> unat p + n \<le> unat base + unat len \<and>
    (\<forall>q m. R q = Some m \<longrightarrow> q \<noteq> p \<longrightarrow> unat p + n \<le> unat q \<or> unat q + m \<le> unat p)"
proof -
  obtain U where U: "heap_ok h (pool_start base) (base + len - 64) U" "covers U R"
    using heap_reach_ok [OF assms(1-5)] by blast
  have c: "\<exists>z. U q = Some z \<and> m \<le> z" if "R q = Some m" for q m
    using that U(2) unfolding covers_def by blast
  obtain z where z: "U p = Some z" "n \<le> z" using c [OF assms(6)] by blast
  have "unat p + n \<le> unat q \<or> unat q + m \<le> unat p" if "R q = Some m" "q \<noteq> p" for q m
    using c [OF that(1)] heap_ok_disjoint [OF U(1) z(1), of q] that(2) z(2) by fastforce
  with heap_ok_block [OF U(1) z(1)] z(2) pool_start_ge [OF assms(3,4)] show ?thesis by auto
qed


theorem heap_blocks_safe_witness:
  "unat (0x20000040 :: u32) + 100 \<le> unat (0x20000000 :: u32) + unat (0x1000 :: u32)"
  using heap_blocks_safe [OF heap_4k_alloc_reach, where p = "0x20000040" and n = 100] by simp

text \<open>C16. Freeing coalesces: when every block has been given back, whatever the order, the pool is again one free
  block, \<^verbatim>\<open>ulmk_heap_free_bytes\<close> reports it whole, and any request whose rounded size plus a quarter fits is
  served.\<close>

theorem heap_coalesces:
  assumes "heap_reach base len h Map.empty" "base \<noteq> 0" "unat base + unat len < 2 ^ 32" "255 \<le> unat len" "unat len < 2 ^ 29"
  shows "unat (ulmk_heap_free_bytes h) = unat (base + len - 64) - unat (pool_start base) - 64 \<and>
    (\<forall>sz. sz \<noteq> 0 \<longrightarrow> unat sz + 63 < 2 ^ 29 \<longrightarrow> 5 * unat (heap_round sz) \<le> 4 * unat (ulmk_heap_free_bytes h) \<longrightarrow>
       fst (ulmk_heap_alloc sz h) \<noteq> NULL)"
proof -
  obtain U where U: "heap_ok h (pool_start base) (base + len - 64) U" "covers U Map.empty"
    using heap_reach_ok [OF assms] by blast
  then have ok: "heap_ok h (pool_start base) (base + len - 64) Map.empty"
    by (metis (no_types) covers_def ext)
  have "unat (pool_start base) < unat (base + len - 64)" using heap_init_ok(2) [OF assms(2-5)] by simp
  note af = heap_all_free [OF ok this]
  show ?thesis
    using af(2,3) heap_alloc_complete [OF ok _ _ af(1), of _ "pool_start base"] by (auto simp: ulmk_heap_free_bytes_def)
qed

theorem heap_coalesces_witness:
  "unat (ulmk_heap_free_bytes (ulmk_heap_free 0x20000040 (snd (ulmk_heap_alloc 100 heap_4k)))) = 0x1000 - 128"
proof -
  have "heap_reach 0x20000000 0x1000 (ulmk_heap_free 0x20000040 (snd (ulmk_heap_alloc 100 heap_4k))) Map.empty"
    using heap_reach.free [OF heap_4k_alloc_reach, of "0x20000040"] by simp
  from heap_coalesces [OF this] show ?thesis by (simp add: pool_start_def)
qed

text \<open>C31. An aligned allocation that does not overflow returns an address that is a multiple of the alignment, and one
  that fails leaves the heap as it was.\<close>

theorem heap_aligned_alloc_result:
  assumes "heap_reach base len h R" "base \<noteq> 0" "unat base + unat len < 2 ^ 32" "255 \<le> unat len" "unat len < 2 ^ 29"
    "unat sz + unat align + 128 \<le> 2 ^ 32" "64 < align" "ulmk_heap_aligned_alloc align sz h = (p, h')"
  shows "(p = NULL \<longrightarrow> h' = h) \<and> unat align dvd unat p"
proof -
  obtain U where U: "heap_ok h (pool_start base) (base + len - 64) U" using heap_reach_ok [OF assms(1-5)] by blast
  show ?thesis
  proof (cases "(p, h') = (NULL, h)")
    case False
    from heap_aligned_alloc_null [OF U _ assms(6)] False assms(8) have "p \<noteq> NULL" by blast
    with heap_aligned_alloc_ok [OF U assms(8) False assms(6)] assms(7) show ?thesis by blast
  qed simp
qed

lemma heap_4k_aligned: "fst (ulmk_heap_aligned_alloc 256 100 heap_4k) = 0x20000100"
  unfolding heap_4k_def heap_zero_def by code_simp

theorem heap_aligned_alloc_result_witness:
  "fst (ulmk_heap_aligned_alloc 256 100 heap_4k) = 0x20000100 \<and> unat (256 :: u32) dvd unat (0x20000100 :: u32)"
  using heap_aligned_alloc_result [OF heap_4k_reach _ _ _ _ _ _ surjective_pairing, of 100 256] heap_4k_aligned
  by simp



end
