(* ===== verification/Dnode_List.thy ===== *)
theory Dnode_List
  imports Prelude
begin

text \<open>
  The intrusive doubly-linked list of \<^verbatim>\<open>kernel/include/list.h\<close>.

  \<^item> The first part is the header itself, at pointer level: a store of \<^verbatim>\<open>next\<close>/\<^verbatim>\<open>prev\<close> fields
    (\<open>dstore\<close>) and one definition per inline function, each assignment in the order of the source.
    A pointer is \<open>Inl h\<close> for a list sentinel and \<open>Inr n\<close> for a node embedded in an object.
  \<^item> The second part is what the kernel relies on: queues as HOL lists (\<open>qstore\<close>), where \<open>link n\<close>
    is the list a node is in (\<open>None\<close> for a self-linked node) and \<open>dl_ub\<close> records that a call broke
    the contract of the header (a node appended while still linked), which in C corrupts two lists.
  \<^item> The locale \<open>intrusive_list\<close> is the contract between the two, \<open>ptr\<close> its interpretation on the
    header's functions: every sequence of calls the queue model accepts is simulated by the pointers.
\<close>

section \<open>Pointer level: \<^verbatim>\<open>list.h\<close>\<close>

type_synonym ('h, 'n) ptr = "'h + 'n"

record ('h, 'n) dstore =
  dnext :: "('h, 'n) ptr \<Rightarrow> ('h, 'n) ptr"   \<comment> \<open>also \<^verbatim>\<open>head\<close> of a sentinel\<close>
  dprev :: "('h, 'n) ptr \<Rightarrow> ('h, 'n) ptr"   \<comment> \<open>also \<^verbatim>\<open>tail\<close> of a sentinel\<close>

definition set_next :: "('h, 'n) ptr \<Rightarrow> ('h, 'n) ptr \<Rightarrow> ('h, 'n) dstore \<Rightarrow> ('h, 'n) dstore" where
  "set_next p v st = st\<lparr>dnext := (dnext st)(p := v)\<rparr>"

definition set_prev :: "('h, 'n) ptr \<Rightarrow> ('h, 'n) ptr \<Rightarrow> ('h, 'n) dstore \<Rightarrow> ('h, 'n) dstore" where
  "set_prev p v st = st\<lparr>dprev := (dprev st)(p := v)\<rparr>"

definition sys_dlist_init :: "'h \<Rightarrow> ('h, 'n) dstore \<Rightarrow> ('h, 'n) dstore" where
  "sys_dlist_init l st = set_prev (Inl l) (Inl l) (set_next (Inl l) (Inl l) st)"

definition sys_dlist_is_head :: "'h \<Rightarrow> ('h, 'n) ptr \<Rightarrow> ('h, 'n) dstore \<Rightarrow> bool" where
  "sys_dlist_is_head l n st \<longleftrightarrow> dnext st (Inl l) = n"

definition sys_dlist_is_tail :: "'h \<Rightarrow> ('h, 'n) ptr \<Rightarrow> ('h, 'n) dstore \<Rightarrow> bool" where
  "sys_dlist_is_tail l n st \<longleftrightarrow> dprev st (Inl l) = n"

definition sys_dlist_is_empty :: "'h \<Rightarrow> ('h, 'n) dstore \<Rightarrow> bool" where
  "sys_dlist_is_empty l st \<longleftrightarrow> dnext st (Inl l) = Inl l"

definition sys_dlist_has_multiple_nodes :: "'h \<Rightarrow> ('h, 'n) dstore \<Rightarrow> bool" where
  "sys_dlist_has_multiple_nodes l st \<longleftrightarrow> dnext st (Inl l) \<noteq> dprev st (Inl l)"

text \<open>A returned \<^verbatim>\<open>NULL\<close> is \<open>None\<close>.\<close>

definition sys_dlist_peek_head :: "'h \<Rightarrow> ('h, 'n) dstore \<Rightarrow> ('h, 'n) ptr option" where
  "sys_dlist_peek_head l st = (if sys_dlist_is_empty l st then None else Some (dnext st (Inl l)))"

definition sys_dlist_peek_head_not_empty :: "'h \<Rightarrow> ('h, 'n) dstore \<Rightarrow> ('h, 'n) ptr" where
  "sys_dlist_peek_head_not_empty l st = dnext st (Inl l)"

definition sys_dlist_peek_next_no_check ::
    "'h \<Rightarrow> ('h, 'n) ptr \<Rightarrow> ('h, 'n) dstore \<Rightarrow> ('h, 'n) ptr option" where
  "sys_dlist_peek_next_no_check l n st = (if n = dprev st (Inl l) then None else Some (dnext st n))"

definition sys_dlist_peek_next ::
    "'h \<Rightarrow> ('h, 'n) ptr option \<Rightarrow> ('h, 'n) dstore \<Rightarrow> ('h, 'n) ptr option" where
  "sys_dlist_peek_next l n st =
     (case n of None \<Rightarrow> None | Some p \<Rightarrow> sys_dlist_peek_next_no_check l p st)"

definition sys_dlist_peek_tail :: "'h \<Rightarrow> ('h, 'n) dstore \<Rightarrow> ('h, 'n) ptr option" where
  "sys_dlist_peek_tail l st = (if sys_dlist_is_empty l st then None else Some (dprev st (Inl l)))"

definition sys_dlist_append :: "'h \<Rightarrow> ('h, 'n) ptr \<Rightarrow> ('h, 'n) dstore \<Rightarrow> ('h, 'n) dstore" where
  "sys_dlist_append l n st =
     (let st = set_next n (Inl l) st;
          st = set_prev n (dprev st (Inl l)) st;
          st = set_next (dprev st (Inl l)) n st
      in set_prev (Inl l) n st)"

definition sys_dlist_prepend :: "'h \<Rightarrow> ('h, 'n) ptr \<Rightarrow> ('h, 'n) dstore \<Rightarrow> ('h, 'n) dstore" where
  "sys_dlist_prepend l n st =
     (let st = set_next n (dnext st (Inl l)) st;
          st = set_prev n (Inl l) st;
          st = set_prev (dnext st (Inl l)) n st
      in set_next (Inl l) n st)"

definition sys_dlist_insert_after ::
    "'h \<Rightarrow> ('h, 'n) ptr option \<Rightarrow> ('h, 'n) ptr \<Rightarrow> ('h, 'n) dstore \<Rightarrow> ('h, 'n) dstore" where
  "sys_dlist_insert_after l ip n st =
     (case ip of
        None \<Rightarrow> sys_dlist_prepend l n st
      | Some p \<Rightarrow>
          (let st = set_next n (dnext st p) st;
               st = set_prev n p st;
               st = set_prev (dnext st p) n st
           in set_next p n st))"

definition sys_dlist_insert_before ::
    "'h \<Rightarrow> ('h, 'n) ptr option \<Rightarrow> ('h, 'n) ptr \<Rightarrow> ('h, 'n) dstore \<Rightarrow> ('h, 'n) dstore" where
  "sys_dlist_insert_before l ip n st =
     (case ip of
        None \<Rightarrow> sys_dlist_append l n st
      | Some p \<Rightarrow>
          (let st = set_prev n (dprev st p) st;
               st = set_next n p st;
               st = set_next (dprev st p) n st
           in set_prev p n st))"

text \<open>
  The scan of \<^verbatim>\<open>sys_dlist_insert_at\<close> may run for ever on a corrupted list, so its result is an
  option: \<open>Some pos\<close> when the loop ends at \<^verbatim>\<open>pos\<close>.
\<close>

partial_function (option) insert_at_scan ::
    "'h \<Rightarrow> (('h, 'n) ptr \<Rightarrow> bool) \<Rightarrow> ('h, 'n) ptr option \<Rightarrow> ('h, 'n) dstore
      \<Rightarrow> ('h, 'n) ptr option option" where
  "insert_at_scan l cond pos st =
     (case pos of
        None \<Rightarrow> Some None
      | Some p \<Rightarrow>
          (if cond p then Some (Some p)
           else insert_at_scan l cond (sys_dlist_peek_next l (Some p) st) st))"

definition sys_dlist_insert_at ::
    "'h \<Rightarrow> ('h, 'n) ptr \<Rightarrow> (('h, 'n) ptr \<Rightarrow> bool) \<Rightarrow> ('h, 'n) dstore \<Rightarrow> ('h, 'n) dstore option" where
  "sys_dlist_insert_at l n cond st =
     (if sys_dlist_is_empty l st then Some (sys_dlist_append l n st)
      else map_option (\<lambda>pos. sys_dlist_insert_before l pos n st)
             (insert_at_scan l cond (sys_dlist_peek_head l st) st))"

definition sys_dlist_remove :: "('h, 'n) ptr \<Rightarrow> ('h, 'n) dstore \<Rightarrow> ('h, 'n) dstore" where
  "sys_dlist_remove n st =
     (let st = set_next (dprev st n) (dnext st n) st
      in set_prev (dnext st n) (dprev st n) st)"

definition sys_dnode_init :: "('h, 'n) ptr \<Rightarrow> ('h, 'n) dstore \<Rightarrow> ('h, 'n) dstore" where
  "sys_dnode_init n st = set_prev n n (set_next n n st)"

definition sys_dnode_is_linked :: "('h, 'n) ptr \<Rightarrow> ('h, 'n) dstore \<Rightarrow> bool" where
  "sys_dnode_is_linked n st \<longleftrightarrow> dnext st n \<noteq> n"

definition sys_dlist_get ::
    "'h \<Rightarrow> ('h, 'n) dstore \<Rightarrow> ('h, 'n) ptr option \<times> ('h, 'n) dstore" where
  "sys_dlist_get l st =
     (if sys_dlist_is_empty l st then (None, st)
      else let n = dnext st (Inl l) in (Some n, sys_dlist_remove n st))"

section \<open>Chains\<close>

text \<open>\<open>chain st a xs b\<close>: following \<^verbatim>\<open>next\<close> from \<open>a\<close> passes through \<open>xs\<close> and ends at \<open>b\<close>, and the \<^verbatim>\<open>prev\<close>
  fields point back. A list with sentinel \<open>l\<close> is a chain from \<open>l\<close> to \<open>l\<close>.\<close>

fun chain :: "('h, 'n) dstore \<Rightarrow> ('h, 'n) ptr \<Rightarrow> ('h, 'n) ptr list \<Rightarrow> ('h, 'n) ptr \<Rightarrow> bool" where
  "chain st a [] b \<longleftrightarrow> dnext st a = b \<and> dprev st b = a"
| "chain st a (x # xs) b \<longleftrightarrow> dnext st a = x \<and> dprev st x = a \<and> chain st x xs b"

lemma chain_cong:
  assumes "\<And>p. p \<in> set (a # xs) \<Longrightarrow> dnext st' p = dnext st p"
    and "\<And>p. p \<in> set (xs @ [b]) \<Longrightarrow> dprev st' p = dprev st p"
  shows "chain st' a xs b \<longleftrightarrow> chain st a xs b"
  using assms by (induction xs arbitrary: a) auto

lemma chain_first: "chain st a xs b \<Longrightarrow> dnext st a = hd (xs @ [b])"
  by (cases xs) auto

lemma chain_last: "chain st a xs b \<Longrightarrow> dprev st b = last (a # xs)"
  by (induction xs arbitrary: a) auto

lemma chain_mid:
  "chain st a (ys @ n # zs) b \<Longrightarrow> dprev st n = last (a # ys) \<and> dnext st n = hd (zs @ [b])"
  by (induction ys arbitrary: a) (auto dest: chain_first)

lemma chain_insert:
  assumes "chain st a (ys @ zs) b" and "distinct (a # ys @ zs)" and "b \<notin> set (ys @ zs)"
    and "n \<notin> set (a # b # ys @ zs)"
    and "p = last (a # ys)" and "x = hd (zs @ [b])"
    and "dnext st' = (dnext st)(p := n, n := x)" and "dprev st' = (dprev st)(n := p, x := n)"
  shows "chain st' a (ys @ n # zs) b"
  using assms
proof (induction ys arbitrary: a)
  case Nil
  show ?case
  proof (cases zs)
    case Nil': Nil
    with Nil show ?thesis by auto
  next
    case (Cons z zs')
    have "chain st' z zs' b \<longleftrightarrow> chain st z zs' b"
      by (rule chain_cong) (use Nil Cons in \<open>auto split: if_splits\<close>)
    with Nil Cons show ?thesis by auto
  qed
next
  case (Cons y ys)
  have "chain st' y (ys @ n # zs) b"
    by (rule Cons.IH) (use Cons.prems in auto)
  moreover have "dnext st' a = dnext st a" and "dprev st' y = dprev st y"
    using Cons.prems by (auto simp: hd_append split: if_splits)
  ultimately show ?case using Cons.prems by auto
qed

lemma chain_delete:
  assumes "chain st a (ys @ n # zs) b" and "distinct (a # ys @ n # zs)"
    and "b \<notin> set (ys @ n # zs)"
    and "p = last (a # ys)" and "x = hd (zs @ [b])"
    and nx: "\<And>q. q \<noteq> n \<Longrightarrow> dnext st' q = ((dnext st)(p := x)) q"
    and pv: "\<And>q. q \<noteq> n \<Longrightarrow> dprev st' q = ((dprev st)(x := p)) q"
  shows "chain st' a (ys @ zs) b"
  using assms(1-5)
proof (induction ys arbitrary: a)
  case Nil
  show ?case
  proof (cases zs)
    case Nil': Nil
    with Nil show ?thesis by (auto simp: nx pv)
  next
    case (Cons z zs')
    have "q \<noteq> n \<and> q \<noteq> p" if "q \<in> set (z # zs')" for q
      using that Nil.prems(2,4) Cons by auto
    then have "dnext st' q = dnext st q" if "q \<in> set (z # zs')" for q
      using that nx [of q] by simp
    moreover have "q \<noteq> n \<and> q \<noteq> x" if "q \<in> set (zs' @ [b])" for q
      using that Nil.prems(2,3,5) Cons by auto
    then have "dprev st' q = dprev st q" if "q \<in> set (zs' @ [b])" for q
      using that pv [of q] by simp
    ultimately have "chain st' z zs' b \<longleftrightarrow> chain st z zs' b"
      by (rule chain_cong)
    with Nil Cons show ?thesis by (auto simp: nx pv)
  qed
next
  case (Cons y ys)
  have "chain st' y (ys @ zs) b"
    by (rule Cons.IH) (use Cons.prems in auto)
  moreover have "a \<noteq> n" "a \<noteq> p" "y \<noteq> n" "y \<noteq> x"
    using Cons.prems by (auto simp: hd_append split: if_splits)
  then have "dnext st' a = dnext st a" "dprev st' y = dprev st y"
    using nx [of a] pv [of y] by simp_all
  ultimately show ?case using Cons.prems by auto
qed

section \<open>Queues as lists\<close>

record ('h, 'n) qstore =
  q_of :: "'h \<Rightarrow> 'n list"
  link :: "'n \<Rightarrow> 'h option"
  dl_ub :: bool

abbreviation q_empty :: "'h \<Rightarrow> ('h, 'n) qstore \<Rightarrow> bool" where
  "q_empty h q \<equiv> q_of q h = []"

abbreviation q_linked :: "'n \<Rightarrow> ('h, 'n) qstore \<Rightarrow> bool" where
  "q_linked n q \<equiv> link q n \<noteq> None"

definition q_peek :: "'h \<Rightarrow> ('h, 'n) qstore \<Rightarrow> 'n option" where
  "q_peek h q = (case q_of q h of [] \<Rightarrow> None | n # _ \<Rightarrow> Some n)"

text \<open>Initialising a list that has members, or a node that is a member, leaves the other side
  pointing at it: the contract is broken.\<close>

definition q_init :: "'h \<Rightarrow> ('h, 'n) qstore \<Rightarrow> ('h, 'n) qstore" where
  "q_init h q = (if q_empty h q then q else q\<lparr>dl_ub := True\<rparr>)"

definition q_node_init :: "'n \<Rightarrow> ('h, 'n) qstore \<Rightarrow> ('h, 'n) qstore" where
  "q_node_init n q = (if q_linked n q then q\<lparr>dl_ub := True\<rparr> else q)"

definition q_insert :: "'h \<Rightarrow> nat \<Rightarrow> 'n \<Rightarrow> ('h, 'n) qstore \<Rightarrow> ('h, 'n) qstore" where
  "q_insert h k n q =
     (if q_linked n q then q\<lparr>dl_ub := True\<rparr>
      else q\<lparr>q_of := (q_of q)(h := take k (q_of q h) @ n # drop k (q_of q h)),
             link := (link q)(n := Some h)\<rparr>)"

definition q_append :: "'h \<Rightarrow> 'n \<Rightarrow> ('h, 'n) qstore \<Rightarrow> ('h, 'n) qstore" where
  "q_append h n q =
     (if q_linked n q then q\<lparr>dl_ub := True\<rparr>
      else q\<lparr>q_of := (q_of q)(h := q_of q h @ [n]), link := (link q)(n := Some h)\<rparr>)"

text \<open>\<^verbatim>\<open>sys_dlist_insert_at\<close>: before the first node that satisfies the condition, else at the tail.\<close>

definition q_insert_at :: "'h \<Rightarrow> 'n \<Rightarrow> ('n \<Rightarrow> bool) \<Rightarrow> ('h, 'n) qstore \<Rightarrow> ('h, 'n) qstore" where
  "q_insert_at h n cond q = q_insert h (length (takeWhile (\<lambda>x. \<not> cond x) (q_of q h))) n q"

definition q_remove :: "'n \<Rightarrow> ('h, 'n) qstore \<Rightarrow> ('h, 'n) qstore" where
  "q_remove n q =
     (case link q n of
        None \<Rightarrow> q
      | Some h \<Rightarrow> q\<lparr>q_of := (q_of q)(h := remove1 n (q_of q h)), link := (link q)(n := None)\<rparr>)"

definition q_get :: "'h \<Rightarrow> ('h, 'n) qstore \<Rightarrow> 'n option \<times> ('h, 'n) qstore" where
  "q_get h q = (case q_of q h of [] \<Rightarrow> (None, q) | n # _ \<Rightarrow> (Some n, q_remove n q))"

definition q_wf :: "('h, 'n) qstore \<Rightarrow> bool" where
  "q_wf q \<longleftrightarrow> (\<forall>h. distinct (q_of q h)) \<and> (\<forall>h n. n \<in> set (q_of q h) \<longleftrightarrow> link q n = Some h)"

lemma q_wf_distinct: "q_wf q \<Longrightarrow> distinct (q_of q h)"
  by (simp add: q_wf_def)

lemma q_wf_mem: "q_wf q \<Longrightarrow> n \<in> set (q_of q h) \<longleftrightarrow> link q n = Some h"
  by (simp add: q_wf_def)

lemma q_append_insert: "q_append h n q = q_insert h (length (q_of q h)) n q"
  by (simp add: q_append_def q_insert_def)

lemma q_wf_insert: "q_wf q \<Longrightarrow> q_wf (q_insert h k n q)"
proof -
  assume wf: "q_wf q"
  have "set (take k (q_of q h)) \<union> set (drop k (q_of q h)) = set (q_of q h)"
    by (metis append_take_drop_id set_append)
  moreover have "link q n = None \<Longrightarrow> n \<notin> set (take k (q_of q h))"
    using wf by (auto simp: q_wf_def dest: in_set_takeD)
  ultimately show ?thesis using wf
    using q_wf_distinct [OF wf, of h] set_take_disj_set_drop_if_distinct [of "q_of q h" k k]
    by (auto simp: q_insert_def q_wf_def split: if_splits)
qed

lemma q_wf_append: "q_wf q \<Longrightarrow> q_wf (q_append h n q)"
  by (simp add: q_append_insert q_wf_insert)

lemma q_wf_insert_at: "q_wf q \<Longrightarrow> q_wf (q_insert_at h n c q)"
  by (simp add: q_insert_at_def q_wf_insert)

lemma q_wf_remove: "q_wf q \<Longrightarrow> q_wf (q_remove n q)"
  by (auto simp: q_remove_def q_wf_def set_remove1_eq split: option.splits)

lemma q_wf_get: "q_wf q \<Longrightarrow> q_wf (snd (q_get h q))"
  by (auto simp: q_get_def q_wf_remove split: list.splits)

lemma q_wf_init: "q_wf q \<Longrightarrow> q_wf (q_init h q)" "q_wf q \<Longrightarrow> q_wf (q_node_init n q)"
  by (auto simp: q_init_def q_node_init_def q_wf_def)

lemmas q_wf_ops [simp, intro] =
  q_wf_append q_wf_insert_at q_wf_remove q_wf_get q_wf_init

section \<open>The pointers represent the queues\<close>

text \<open>\<open>I\<close> holds the sentinels and nodes whose fields are meaningful: a sentinel enters it by
  \<^verbatim>\<open>sys_dlist_init\<close>, a node by \<^verbatim>\<open>sys_dnode_init\<close> or by being inserted, and a node leaves it when it is
  removed (its fields still point into the list) until it is initialised or inserted again.\<close>

definition dl_rep :: "('h, 'n) ptr set \<Rightarrow> ('h, 'n) dstore \<Rightarrow> ('h, 'n) qstore \<Rightarrow> bool" where
  "dl_rep I st q \<longleftrightarrow>
     \<not> dl_ub q \<and> q_wf q \<and>
     (\<forall>h. Inl h \<in> I \<longrightarrow> chain st (Inl h) (map Inr (q_of q h)) (Inl h)) \<and>
     (\<forall>h. Inl h \<notin> I \<longrightarrow> q_empty h q) \<and>
     (\<forall>n. Inr n \<in> I \<and> \<not> q_linked n q \<longrightarrow> dnext st (Inr n) = Inr n \<and> dprev st (Inr n) = Inr n) \<and>
     (\<forall>n. Inr n \<notin> I \<longrightarrow> \<not> q_linked n q)"

lemma dl_repD:
  assumes "dl_rep I st q"
  shows "\<not> dl_ub q" "q_wf q"
    "Inl h \<in> I \<Longrightarrow> chain st (Inl h) (map Inr (q_of q h)) (Inl h)"
    "Inl h \<notin> I \<Longrightarrow> q_empty h q"
    "Inr n \<in> I \<Longrightarrow> link q n = None \<Longrightarrow> dnext st (Inr n) = Inr n"
    "Inr n \<in> I \<Longrightarrow> link q n = None \<Longrightarrow> dprev st (Inr n) = Inr n"
    "Inr n \<notin> I \<Longrightarrow> link q n = None"
    "link q n = Some h \<Longrightarrow> Inl h \<in> I"
  using assms unfolding dl_rep_def q_wf_def
  by (auto) (metis empty_iff empty_set)

lemma dl_rep_distinct:
  assumes "dl_rep I st q"
  shows "distinct (Inl h # map Inr (q_of q h))"
  using q_wf_distinct [OF dl_repD(2) [OF assms], of h] by (auto simp: distinct_map)

text \<open>The lists that an operation on \<open>h\<close> does not touch keep their chains.\<close>

lemma chain_frame:
  assumes "chain st (Inl h') (map Inr (q_of q h')) (Inl h')" and "q_wf q" and "h' \<noteq> h"
    and "\<And>p. p \<notin> insert (Inl h) (insert (Inr n) (Inr ` set (q_of q h))) \<Longrightarrow>
            dnext st' p = dnext st p \<and> dprev st' p = dprev st p"
    and "n \<notin> set (q_of q h')"
  shows "chain st' (Inl h') (map Inr (q_of q h')) (Inl h')"
proof -
  have "p \<notin> insert (Inl h) (insert (Inr n) (Inr ` set (q_of q h)))"
    if "p \<in> insert (Inl h') (Inr ` set (q_of q h'))" for p
    using that assms(2,3,5) by (auto simp: q_wf_mem)
  then have "dnext st' p = dnext st p \<and> dprev st' p = dprev st p"
    if "p \<in> insert (Inl h') (Inr ` set (q_of q h'))" for p
    using that assms(4) by blast
  then have "chain st' (Inl h') (map Inr (q_of q h')) (Inl h')
      \<longleftrightarrow> chain st (Inl h') (map Inr (q_of q h')) (Inl h')"
    by (intro chain_cong) auto
  with assms(1) show ?thesis by simp
qed

lemma hd_map_snoc: "hd (map Inr xs @ [Inl h]) \<in> insert (Inl h) (Inr ` set xs)"
  by (cases xs) auto

lemma last_map_Cons: "last (Inl h # map Inr xs) \<in> insert (Inl h) (Inr ` set xs)"
  by (cases xs rule: rev_cases) auto

lemma dl_rep_insert:
  assumes rep: "dl_rep I st q" and h: "Inl h \<in> I" and n: "link q n = None"
    and eq: "q_of q h = ys @ zs"
    and p: "p = last (Inl h # map Inr ys)" and x: "x = hd (map Inr zs @ [Inl h])"
    and nx: "dnext st' = (dnext st)(p := Inr n, Inr n := x)"
    and pv: "dprev st' = (dprev st)(Inr n := p, x := Inr n)"
  shows "dl_rep (insert (Inr n) I) st' (q_insert h (length ys) n q)" (is "dl_rep _ _ ?q")
proof -
  note r = dl_repD [OF rep]
  have nn: "n \<notin> set (q_of q h')" for h' using n r(2) by (simp add: q_wf_mem)
  have ch: "chain st' (Inl h) (map Inr ys @ Inr n # map Inr zs) (Inl h)"
    by (rule chain_insert [OF _ _ _ _ p x nx pv])
      (use r(3) [OF h] dl_rep_distinct [OF rep, of h] nn [of h] in \<open>auto simp: eq\<close>)
  have pin: "p \<in> insert (Inl h) (Inr ` set (q_of q h))" "x \<in> insert (Inl h) (Inr ` set (q_of q h))"
    using last_map_Cons [of h ys] hd_map_snoc [of zs h] by (auto simp: eq p x)
  have frame: "dnext st' r = dnext st r \<and> dprev st' r = dprev st r"
    if "r \<notin> insert (Inl h) (insert (Inr n) (Inr ` set (q_of q h)))" for r
    using that pin by (auto simp: nx pv)
  have other: "chain st' (Inl h') (map Inr (q_of q h')) (Inl h')" if "Inl h' \<in> I" "h' \<noteq> h" for h'
    by (rule chain_frame [OF r(3) [OF that(1)] r(2) that(2) frame nn])
  have self: "dnext st' (Inr m) = Inr m \<and> dprev st' (Inr m) = Inr m"
    if "Inr m \<in> I" "link q m = None" "m \<noteq> n" for m
  proof -
    have "Inr m \<notin> insert (Inl h) (insert (Inr n) (Inr ` set (q_of q h)))"
      using that r(2) by (auto simp: q_wf_mem)
    from frame [OF this] r(5,6) [OF that(1,2)] show ?thesis by simp
  qed
  have q': "q_of ?q = (q_of q)(h := ys @ n # zs)" "link ?q = (link q)(n := Some h)"
      "dl_ub ?q = dl_ub q"
    using n by (simp_all add: q_insert_def eq)
  show ?thesis
    unfolding dl_rep_def q'
    using q_wf_insert [OF r(2)] r(1,4,7) ch other self h
    by simp
qed

lemma dl_rep_delete:
  assumes rep: "dl_rep I st q" and n: "link q n = Some h"
    and nx: "dnext st' = (dnext st)(dprev st (Inr n) := dnext st (Inr n))"
    and pv: "dprev st' = (dprev st)(dnext st (Inr n) := dprev st (Inr n))"
  shows "dl_rep (I - {Inr n}) st' (q_remove n q)"
proof -
  note r = dl_repD [OF rep]
  have h: "Inl h \<in> I" using r(8) [OF n] .
  have "n \<in> set (q_of q h)" using n r(2) by (simp add: q_wf_mem)
  then obtain ys zs where eq: "q_of q h = ys @ n # zs" and nys: "n \<notin> set ys"
    by (metis split_list_first)
  let ?p = "last (Inl h # map Inr ys)" and ?x = "hd (map Inr zs @ [Inl h])"
  have c: "chain st (Inl h) (map Inr ys @ Inr n # map Inr zs) (Inl h)" using r(3) [OF h] by (simp add: eq)
  have px: "dprev st (Inr n) = ?p" "dnext st (Inr n) = ?x" using chain_mid [OF c] by simp_all
  have d: "distinct (Inl h # map Inr ys @ Inr n # map Inr zs)"
    using dl_rep_distinct [OF rep, of h] by (simp add: eq)
  have ch: "chain st' (Inl h) (map Inr ys @ map Inr zs) (Inl h)"
    by (rule chain_delete [OF c d _ refl refl]) (auto simp: nx pv px)
  have pin: "?p \<in> insert (Inl h) (Inr ` set (q_of q h))" "?x \<in> insert (Inl h) (Inr ` set (q_of q h))"
    using last_map_Cons [of h ys] hd_map_snoc [of zs h] by (auto simp: eq)
  have frame: "dnext st' r = dnext st r \<and> dprev st' r = dprev st r"
    if "r \<notin> insert (Inl h) (insert (Inr n) (Inr ` set (q_of q h)))" for r
  proof -
    have "r \<noteq> ?p" "r \<noteq> ?x" using that pin by auto
    then show ?thesis by (simp add: nx pv px)
  qed
  have other: "chain st' (Inl h') (map Inr (q_of q h')) (Inl h')" if "Inl h' \<in> I" "h' \<noteq> h" for h'
    by (rule chain_frame [where n = n, OF r(3) [OF that(1)] r(2) that(2) frame])
      (use that n r(2) in \<open>auto simp: q_wf_mem\<close>)
  have self: "dnext st' (Inr m) = Inr m \<and> dprev st' (Inr m) = Inr m"
    if "Inr m \<in> I" "link q m = None" for m
  proof -
    have "Inr m \<notin> insert (Inl h) (insert (Inr n) (Inr ` set (q_of q h)))"
      using that n r(2) by (auto simp: q_wf_mem)
    from frame [OF this] r(5,6) [OF that] show ?thesis by simp
  qed
  have q': "q_of (q_remove n q) = (q_of q)(h := ys @ zs)" "link (q_remove n q) = (link q)(n := None)"
      "dl_ub (q_remove n q) = dl_ub q"
    using n nys by (simp_all add: q_remove_def eq remove1_append)
  show ?thesis
    unfolding dl_rep_def q'
    using q_wf_remove [OF r(2), of n] r(1,4,7) ch other self h
    by simp
qed

text \<open>Following \<^verbatim>\<open>sys_dlist_peek_next\<close> visits the members in order and stops.\<close>

lemma peek_next_chain:
  assumes "chain st (Inl h) (ys @ z # zs) (Inl h)" and "distinct (z # zs)"
  shows "sys_dlist_peek_next h (Some z) st = (case zs of [] \<Rightarrow> None | x # _ \<Rightarrow> Some x)"
  using chain_last [OF assms(1)] chain_mid [OF assms(1)] assms(2)
  by (auto simp: sys_dlist_peek_next_def sys_dlist_peek_next_no_check_def split: list.splits)

lemma insert_at_scan_chain:
  assumes "chain st (Inl h) (ys @ zs) (Inl h)" and "distinct (ys @ zs)"
  shows "insert_at_scan h cond (case zs of [] \<Rightarrow> None | x # _ \<Rightarrow> Some x) st = Some (find cond zs)"
  using assms
proof (induction zs arbitrary: ys)
  case Nil
  then show ?case by (simp add: insert_at_scan.simps)
next
  case (Cons z zs)
  have "insert_at_scan h cond (case zs of [] \<Rightarrow> None | x # _ \<Rightarrow> Some x) st = Some (find cond zs)"
    by (rule Cons.IH [of "ys @ [z]"]) (use Cons.prems in auto)
  with peek_next_chain [OF Cons.prems(1)] Cons.prems(2) show ?case
    by (simp add: insert_at_scan.simps [of _ _ "Some z"])
qed

text \<open>\<^verbatim>\<open>SYS_DLIST_FOR_EACH_NODE\<close>: the nodes the loop body sees, \<open>None\<close> for a loop that does not end.\<close>

partial_function (option) sys_dlist_for_each ::
    "'h \<Rightarrow> ('h, 'n) ptr option \<Rightarrow> ('h, 'n) dstore \<Rightarrow> ('h, 'n) ptr list option" where
  "sys_dlist_for_each l pos st =
     (case pos of
        None \<Rightarrow> Some []
      | Some p \<Rightarrow>
          Option.bind (sys_dlist_for_each l (sys_dlist_peek_next l (Some p) st) st)
            (\<lambda>ps. Some (p # ps)))"

lemma for_each_chain:
  assumes "chain st (Inl h) (ys @ zs) (Inl h)" and "distinct (ys @ zs)"
  shows "sys_dlist_for_each h (case zs of [] \<Rightarrow> None | x # _ \<Rightarrow> Some x) st = Some zs"
  using assms
proof (induction zs arbitrary: ys)
  case Nil
  then show ?case by (simp add: sys_dlist_for_each.simps)
next
  case (Cons z zs)
  have "sys_dlist_for_each h (case zs of [] \<Rightarrow> None | x # _ \<Rightarrow> Some x) st = Some zs"
    by (rule Cons.IH [of "ys @ [z]"]) (use Cons.prems in auto)
  with peek_next_chain [OF Cons.prems(1)] Cons.prems(2) show ?case
    by (simp add: sys_dlist_for_each.simps [of _ "Some z"])
qed

lemma dl_rep_peek_head:
  assumes "dl_rep I st q" and "Inl h \<in> I"
  shows "sys_dlist_peek_head h st = map_option Inr (q_peek h q)"
    and "sys_dlist_is_empty h st \<longleftrightarrow> q_empty h q"
    and "sys_dlist_peek_head h st = (case map Inr (q_of q h) of [] \<Rightarrow> None | x # _ \<Rightarrow> Some x)"
  using dl_repD(3) [OF assms]
  by (cases "q_of q h"; simp add: sys_dlist_peek_head_def sys_dlist_is_empty_def q_peek_def)+

lemma dl_rep_is_linked:
  assumes "dl_rep I st q" and "Inr n \<in> I"
  shows "sys_dnode_is_linked (Inr n) st \<longleftrightarrow> q_linked n q"
proof (cases "link q n")
  case None
  with dl_repD(5) [OF assms] show ?thesis by (simp add: sys_dnode_is_linked_def)
next
  case (Some h)
  then have "n \<in> set (q_of q h)" and h: "Inl h \<in> I"
    using dl_repD(2,8) [OF assms(1)] by (auto simp: q_wf_mem)
  then obtain ys zs where eq: "q_of q h = ys @ n # zs" by (metis split_list)
  have "chain st (Inl h) (map Inr ys @ Inr n # map Inr zs) (Inl h)"
    using dl_repD(3) [OF assms(1) h] by (simp add: eq)
  then have "dnext st (Inr n) = hd (map Inr zs @ [Inl h])" by (auto dest: chain_mid)
  moreover have "n \<notin> set zs" using q_wf_distinct [OF dl_repD(2) [OF assms(1)], of h] by (simp add: eq)
  ultimately show ?thesis using Some by (cases zs) (auto simp: sys_dnode_is_linked_def)
qed

section \<open>The contract of the header\<close>

datatype ('h, 'n) dl_op =
    DInit 'h
  | DNode 'n
  | DAppend 'h 'n
  | DPrepend 'h 'n
  | DInsertAt 'h 'n "'n \<Rightarrow> bool"
  | DRemove 'n
  | DGet 'h
  | DPeek 'h
  | DEmpty 'h
  | DLinked 'n

datatype 'n dl_res = RUnit | RBool bool | RNode "'n option"

text \<open>The effect of a call on the queues, and on the store of pointers.\<close>

fun q_step :: "('h, 'n) dl_op \<Rightarrow> ('h, 'n) qstore \<Rightarrow> 'n dl_res \<times> ('h, 'n) qstore" where
  "q_step (DInit h) q = (RUnit, q_init h q)"
| "q_step (DNode n) q = (RUnit, q_node_init n q)"
| "q_step (DAppend h n) q = (RUnit, q_append h n q)"
| "q_step (DPrepend h n) q = (RUnit, q_insert h 0 n q)"
| "q_step (DInsertAt h n c) q = (RUnit, q_insert_at h n c q)"
| "q_step (DRemove n) q = (RUnit, q_remove n q)"
| "q_step (DGet h) q = (case q_get h q of (r, q') \<Rightarrow> (RNode r, q'))"
| "q_step (DPeek h) q = (RNode (q_peek h q), q)"
| "q_step (DEmpty h) q = (RBool (q_empty h q), q)"
| "q_step (DLinked n) q = (RBool (q_linked n q), q)"

fun ptr_step :: "('h, 'n) dl_op \<Rightarrow> ('h, 'n) dstore \<Rightarrow> ('n dl_res \<times> ('h, 'n) dstore) option" where
  "ptr_step (DInit h) st = Some (RUnit, sys_dlist_init h st)"
| "ptr_step (DNode n) st = Some (RUnit, sys_dnode_init (Inr n) st)"
| "ptr_step (DAppend h n) st = Some (RUnit, sys_dlist_append h (Inr n) st)"
| "ptr_step (DPrepend h n) st = Some (RUnit, sys_dlist_prepend h (Inr n) st)"
| "ptr_step (DInsertAt h n c) st =
     map_option (Pair RUnit) (sys_dlist_insert_at h (Inr n) (\<lambda>p. c (projr p)) st)"
| "ptr_step (DRemove n) st = Some (RUnit, sys_dlist_remove (Inr n) st)"
| "ptr_step (DGet h) st =
     (case sys_dlist_get h st of (r, st') \<Rightarrow> Some (RNode (map_option projr r), st'))"
| "ptr_step (DPeek h) st = Some (RNode (map_option projr (sys_dlist_peek_head h st)), st)"
| "ptr_step (DEmpty h) st = Some (RBool (sys_dlist_is_empty h st), st)"
| "ptr_step (DLinked n) st = Some (RBool (sys_dnode_is_linked (Inr n) st), st)"

text \<open>What a caller owes the header before each call, and the initialised objects after it.\<close>

fun dl_pre :: "('h, 'n) ptr set \<Rightarrow> ('h, 'n) qstore \<Rightarrow> ('h, 'n) dl_op \<Rightarrow> bool" where
  "dl_pre I q (DInit h) \<longleftrightarrow> q_empty h q"
| "dl_pre I q (DNode n) \<longleftrightarrow> \<not> q_linked n q"
| "dl_pre I q (DAppend h n) \<longleftrightarrow> Inl h \<in> I \<and> \<not> q_linked n q"
| "dl_pre I q (DPrepend h n) \<longleftrightarrow> Inl h \<in> I \<and> \<not> q_linked n q"
| "dl_pre I q (DInsertAt h n c) \<longleftrightarrow> Inl h \<in> I \<and> \<not> q_linked n q"
| "dl_pre I q (DRemove n) \<longleftrightarrow> Inr n \<in> I"
| "dl_pre I q (DGet h) \<longleftrightarrow> Inl h \<in> I"
| "dl_pre I q (DPeek h) \<longleftrightarrow> Inl h \<in> I"
| "dl_pre I q (DEmpty h) \<longleftrightarrow> Inl h \<in> I"
| "dl_pre I q (DLinked n) \<longleftrightarrow> Inr n \<in> I"

fun dl_live :: "('h, 'n) ptr set \<Rightarrow> ('h, 'n) qstore \<Rightarrow> ('h, 'n) dl_op \<Rightarrow> ('h, 'n) ptr set" where
  "dl_live I q (DInit h) = insert (Inl h) I"
| "dl_live I q (DNode n) = insert (Inr n) I"
| "dl_live I q (DAppend h n) = insert (Inr n) I"
| "dl_live I q (DPrepend h n) = insert (Inr n) I"
| "dl_live I q (DInsertAt h n c) = insert (Inr n) I"
| "dl_live I q (DRemove n) = I - {Inr n}"
| "dl_live I q (DGet h) = (case q_peek h q of None \<Rightarrow> I | Some n \<Rightarrow> I - {Inr n})"
| "dl_live I q _ = I"

fun q_run :: "('h, 'n) dl_op list \<Rightarrow> ('h, 'n) qstore \<Rightarrow> 'n dl_res list \<times> ('h, 'n) qstore" where
  "q_run [] q = ([], q)"
| "q_run (c # cs) q =
     (let (r, q') = q_step c q; (rs, q'') = q_run cs q' in (r # rs, q''))"

fun dl_run :: "('c \<Rightarrow> 's \<Rightarrow> ('r \<times> 's) option) \<Rightarrow> 'c list \<Rightarrow> 's \<Rightarrow> ('r list \<times> 's) option" where
  "dl_run step [] s = Some ([], s)"
| "dl_run step (c # cs) s =
     (case step c s of
        None \<Rightarrow> None
      | Some (r, s') \<Rightarrow> map_option (\<lambda>(rs, s''). (r # rs, s'')) (dl_run step cs s'))"

fun dl_pre_run :: "('h, 'n) ptr set \<Rightarrow> ('h, 'n) qstore \<Rightarrow> ('h, 'n) dl_op list \<Rightarrow> bool" where
  "dl_pre_run I q [] \<longleftrightarrow> True"
| "dl_pre_run I q (c # cs) \<longleftrightarrow>
     dl_pre I q c \<and> dl_pre_run (dl_live I q c) (snd (q_step c q)) cs"

fun dl_live_run :: "('h, 'n) ptr set \<Rightarrow> ('h, 'n) qstore \<Rightarrow> ('h, 'n) dl_op list \<Rightarrow> ('h, 'n) ptr set" where
  "dl_live_run I q [] = I"
| "dl_live_run I q (c # cs) = dl_live_run (dl_live I q c) (snd (q_step c q)) cs"

text \<open>An implementation of intrusive lists keeps a representation of the queues and, for every
  call whose precondition holds, returns what the queue model returns.\<close>

locale intrusive_list =
  fixes rep :: "('h, 'n) ptr set \<Rightarrow> 's \<Rightarrow> ('h, 'n) qstore \<Rightarrow> bool"
    and step :: "('h, 'n) dl_op \<Rightarrow> 's \<Rightarrow> ('n dl_res \<times> 's) option"
  assumes step_ok: "rep I s q \<Longrightarrow> dl_pre I q c \<Longrightarrow>
      \<exists>s'. step c s = Some (fst (q_step c q), s') \<and> rep (dl_live I q c) s' (snd (q_step c q))"
begin

lemma run_ok:
  assumes "rep I s q" and "dl_pre_run I q cs"
  shows "\<exists>s'. dl_run step cs s = Some (fst (q_run cs q), s') \<and>
    rep (dl_live_run I q cs) s' (snd (q_run cs q))"
  using assms
proof (induction cs arbitrary: I s q)
  case Nil
  then show ?case by auto
next
  case (Cons c cs)
  obtain s' where s': "step c s = Some (fst (q_step c q), s')"
    and rep': "rep (dl_live I q c) s' (snd (q_step c q))"
    using step_ok [OF Cons.prems(1)] Cons.prems(2) by auto
  obtain s'' where "dl_run step cs s' = Some (fst (q_run cs (snd (q_step c q))), s'')"
    and "rep (dl_live_run (dl_live I q c) (snd (q_step c q)) cs) s'' (snd (q_run cs (snd (q_step c q))))"
    using Cons.IH [OF rep'] Cons.prems(2) by auto
  with s' show ?case by (auto simp: split_beta Let_def)
qed

end

lemma insert_before_sim:
  assumes rep: "dl_rep I st q" and h: "Inl h \<in> I" and n: "link q n = None"
    and eq: "q_of q h = ys @ zs"
    and pos: "pos = (case map Inr zs of [] \<Rightarrow> None | x # _ \<Rightarrow> Some x)"
  shows "dl_rep (insert (Inr n) I) (sys_dlist_insert_before h pos (Inr n) st)
           (q_insert h (length ys) n q)"
proof -
  let ?x = "hd (map Inr zs @ [Inl h])" and ?p = "last (Inl h # map Inr ys)"
  let ?st = "sys_dlist_insert_before h pos (Inr n) st"
  have n': "n \<notin> set ys" "n \<notin> set zs"
    using n q_wf_mem [OF dl_repD(2) [OF rep], of n h] by (auto simp: eq)
  have c: "chain st (Inl h) (map Inr ys @ map Inr zs) (Inl h)"
    using dl_repD(3) [OF rep h] by (simp add: eq)
  have px: "dprev st ?x = ?p"
  proof (cases zs)
    case Nil
    with chain_last [OF c] show ?thesis by simp
  next
    case (Cons z zs')
    with chain_mid [of st "Inl h" "map Inr ys" "Inr z" "map Inr zs'"] c show ?thesis by simp
  qed
  have "?x \<noteq> Inr n" "?p \<noteq> Inr n" using n' last_map_Cons [of h ys] hd_map_snoc [of zs h] by auto
  then have "dnext ?st = (dnext st)(?p := Inr n, Inr n := ?x)"
    and "dprev ?st = (dprev st)(Inr n := ?p, ?x := Inr n)"
    using px unfolding pos
    by (cases zs; auto simp: sys_dlist_insert_before_def sys_dlist_append_def set_next_def
        set_prev_def Let_def)+
  from dl_rep_insert [OF rep h n eq refl refl this] show ?thesis .
qed

lemma append_sim:
  assumes "dl_rep I st q" and "Inl h \<in> I" and "link q n = None"
  shows "dl_rep (insert (Inr n) I) (sys_dlist_append h (Inr n) st) (q_append h n q)"
  using insert_before_sim [OF assms, of "q_of q h" "[]" None]
  by (simp add: sys_dlist_insert_before_def q_append_insert)

lemma prepend_sim:
  assumes rep: "dl_rep I st q" and h: "Inl h \<in> I" and n: "link q n = None"
  shows "dl_rep (insert (Inr n) I) (sys_dlist_prepend h (Inr n) st) (q_insert h 0 n q)"
proof -
  let ?x = "hd (map Inr (q_of q h) @ [Inl h])"
  have x: "dnext st (Inl h) = ?x" using chain_first [OF dl_repD(3) [OF rep h]] .
  have "n \<notin> set (q_of q h)" using n dl_repD(2) [OF rep] by (simp add: q_wf_mem)
  then have "?x \<noteq> Inr n" using hd_map_snoc [of "q_of q h" h] by auto
  with x have "dnext (sys_dlist_prepend h (Inr n) st) = (dnext st)(Inl h := Inr n, Inr n := ?x)"
    and "dprev (sys_dlist_prepend h (Inr n) st) = (dprev st)(Inr n := Inl h, ?x := Inr n)"
    by (auto simp: sys_dlist_prepend_def set_next_def set_prev_def Let_def)
  with dl_rep_insert [OF rep h n, of "[]" "q_of q h"] show ?thesis by simp
qed

lemma find_takeWhile:
  "find P xs = (case dropWhile (\<lambda>x. \<not> P x) xs of [] \<Rightarrow> None | x # _ \<Rightarrow> Some x)"
  by (induction xs) auto

lemma insert_at_sim:
  assumes rep: "dl_rep I st q" and h: "Inl h \<in> I" and n: "link q n = None"
  shows "\<exists>st'. sys_dlist_insert_at h (Inr n) (\<lambda>p. c (projr p)) st = Some st' \<and>
    dl_rep (insert (Inr n) I) st' (q_insert_at h n c q)"
proof -
  let ?xs = "q_of q h" and ?c = "\<lambda>p. c (projr p)"
  let ?ys = "takeWhile (\<lambda>x. \<not> c x) ?xs" and ?zs = "dropWhile (\<lambda>x. \<not> c x) ?xs"
  let ?pos = "case map Inr ?zs of [] \<Rightarrow> None | x # _ \<Rightarrow> Some x"
  note d = dl_rep_distinct [OF rep, of h]
  have "insert_at_scan h ?c (sys_dlist_peek_head h st) st = Some (find ?c (map Inr ?xs))"
    using insert_at_scan_chain [of st h "[]" "map Inr ?xs" ?c] dl_repD(3) [OF rep h] d
    by (simp add: dl_rep_peek_head(3) [OF rep h])
  also have "find ?c (map Inr ?xs) = ?pos"
    by (simp add: find_takeWhile dropWhile_map comp_def)
  finally have scan: "insert_at_scan h ?c (sys_dlist_peek_head h st) st = Some ?pos" .
  have "?pos = None" if "?xs = []" using that by simp
  with scan have "sys_dlist_insert_at h (Inr n) ?c st
      = Some (sys_dlist_insert_before h ?pos (Inr n) st)"
    by (simp add: sys_dlist_insert_at_def dl_rep_peek_head(2) [OF rep h] sys_dlist_insert_before_def)
  with insert_before_sim [OF rep h n, of ?ys ?zs ?pos] show ?thesis
    by (simp add: q_insert_at_def)
qed

lemma remove_sim:
  assumes rep: "dl_rep I st q" and n: "Inr n \<in> I"
  shows "dl_rep (I - {Inr n}) (sys_dlist_remove (Inr n) st) (q_remove n q)"
proof (cases "link q n")
  case None
  then have "dnext st (Inr n) = Inr n" "dprev st (Inr n) = Inr n"
    using dl_repD(5,6) [OF rep n] by simp_all
  then have "sys_dlist_remove (Inr n) st = st"
    by (simp add: sys_dlist_remove_def set_next_def set_prev_def fun_upd_idem)
  with None rep show ?thesis by (auto simp: dl_rep_def q_remove_def)
next
  case (Some h)
  let ?st = "sys_dlist_remove (Inr n) st"
  have "dprev st (Inr n) \<noteq> Inr n"
  proof -
    have "n \<in> set (q_of q h)" using Some dl_repD(2) [OF rep] by (simp add: q_wf_mem)
    then obtain ys zs where eq: "q_of q h = ys @ n # zs" by (metis split_list)
    then have "n \<notin> set ys" using q_wf_distinct [OF dl_repD(2) [OF rep], of h] by simp
    moreover have "dprev st (Inr n) = last (Inl h # map Inr ys)"
      using chain_mid [of st "Inl h" "map Inr ys" "Inr n" "map Inr zs" "Inl h"]
        dl_repD(3) [OF rep dl_repD(8) [OF rep Some]] by (simp add: eq)
    ultimately show ?thesis using last_map_Cons [of h ys] by auto
  qed
  then have "dnext ?st = (dnext st)(dprev st (Inr n) := dnext st (Inr n))"
    and "dprev ?st = (dprev st)(dnext st (Inr n) := dprev st (Inr n))"
    by (auto simp: sys_dlist_remove_def set_next_def set_prev_def Let_def)
  from dl_rep_delete [OF rep Some this] show ?thesis .
qed

lemma init_sim:
  assumes rep: "dl_rep I st q" and "q_empty h q"
  shows "dl_rep (insert (Inl h) I) (sys_dlist_init h st) (q_init h q)"
proof -
  let ?st = "sys_dlist_init h st"
  have eqs: "dnext ?st p = (if p = Inl h then Inl h else dnext st p)"
    "dprev ?st p = (if p = Inl h then Inl h else dprev st p)" for p
    by (simp_all add: sys_dlist_init_def set_next_def set_prev_def)
  have "chain ?st (Inl h') (map Inr (q_of q h')) (Inl h')" if "Inl h' \<in> I" "h' \<noteq> h" for h'
  proof -
    have "chain ?st (Inl h') (map Inr (q_of q h')) (Inl h')
        \<longleftrightarrow> chain st (Inl h') (map Inr (q_of q h')) (Inl h')"
      using that(2) by (intro chain_cong) (auto simp: eqs)
    with dl_repD(3) [OF rep that(1)] show ?thesis by simp
  qed
  moreover have "chain ?st (Inl h) (map Inr (q_of q h)) (Inl h)" using assms(2) by (simp add: eqs)
  ultimately have "\<forall>h'. Inl h' \<in> insert (Inl h) I \<longrightarrow>
      chain ?st (Inl h') (map Inr (q_of q h')) (Inl h')" by blast
  with rep assms(2) show ?thesis by (simp add: dl_rep_def q_init_def eqs)
qed

lemma node_init_sim:
  assumes rep: "dl_rep I st q" and n: "link q n = None"
  shows "dl_rep (insert (Inr n) I) (sys_dnode_init (Inr n) st) (q_node_init n q)"
proof -
  let ?st = "sys_dnode_init (Inr n) st"
  have eqs: "dnext ?st p = (if p = Inr n then Inr n else dnext st p)"
    "dprev ?st p = (if p = Inr n then Inr n else dprev st p)" for p
    by (simp_all add: sys_dnode_init_def set_next_def set_prev_def)
  have "chain ?st (Inl h') (map Inr (q_of q h')) (Inl h')" if "Inl h' \<in> I" for h'
  proof -
    have "n \<notin> set (q_of q h')" using n dl_repD(2) [OF rep] by (simp add: q_wf_mem)
    then have "chain ?st (Inl h') (map Inr (q_of q h')) (Inl h')
        \<longleftrightarrow> chain st (Inl h') (map Inr (q_of q h')) (Inl h')"
      by (intro chain_cong) (auto simp: eqs)
    with dl_repD(3) [OF rep that] show ?thesis by simp
  qed
  with rep n show ?thesis by (auto simp: dl_rep_def q_node_init_def eqs)
qed

lemma get_sim:
  assumes rep: "dl_rep I st q" and h: "Inl h \<in> I"
  shows "map_option projr (fst (sys_dlist_get h st)) = fst (q_get h q)"
    and "dl_rep (dl_live I q (DGet h)) (snd (sys_dlist_get h st)) (snd (q_get h q))"
proof -
  note c = dl_repD(3) [OF rep h] and e = dl_rep_peek_head(2) [OF rep h]
  have "map_option projr (fst (sys_dlist_get h st)) = fst (q_get h q) \<and>
    dl_rep (dl_live I q (DGet h)) (snd (sys_dlist_get h st)) (snd (q_get h q))"
  proof (cases "q_of q h")
    case Nil
    with e rep show ?thesis by (simp add: sys_dlist_get_def q_get_def q_peek_def)
  next
    case (Cons n xs)
    then have "link q n = Some h" using dl_repD(2) [OF rep] by (simp add: q_wf_def) (metis list.set_intros(1))
    then have "Inr n \<in> I" using dl_repD(7) [OF rep, of n] by auto
    with remove_sim [OF rep this] Cons e c show ?thesis
      by (simp add: sys_dlist_get_def q_get_def q_peek_def Let_def)
  qed
  then show "map_option projr (fst (sys_dlist_get h st)) = fst (q_get h q)"
    and "dl_rep (dl_live I q (DGet h)) (snd (sys_dlist_get h st)) (snd (q_get h q))" by blast+
qed

interpretation ptr: intrusive_list dl_rep ptr_step
proof
  fix I :: "('h, 'n) ptr set" and s q and c :: "('h, 'n) dl_op"
  assume rep: "dl_rep I s q" and pre: "dl_pre I q c"
  show "\<exists>s'. ptr_step c s = Some (fst (q_step c q), s') \<and>
      dl_rep (dl_live I q c) s' (snd (q_step c q))"
  proof (cases c)
    case (DInsertAt h n P)
    with insert_at_sim [OF rep, of h n P] pre show ?thesis by auto
  next
    case (DGet h)
    with get_sim [OF rep, of h] pre show ?thesis by (auto simp: split_beta)
  next
    case (DPeek h)
    with dl_rep_peek_head(1) [OF rep, of h] pre rep show ?thesis
      by (simp add: option.map_comp comp_def option.map_ident)
  qed (use rep pre in \<open>simp_all add: init_sim node_init_sim append_sim prepend_sim remove_sim
        dl_rep_peek_head(2) dl_rep_is_linked\<close>)
qed

text \<open>A list is FIFO: what is appended to an empty list comes out in the same order.\<close>

lemma q_run_append: "q_run (cs @ ds) q =
    (let (rs, q') = q_run cs q; (rs', q'') = q_run ds q' in (rs @ rs', q''))"
  by (induction cs arbitrary: q) (auto simp: split_beta Let_def)

lemma q_run_appends:
  assumes "distinct ns" and "\<forall>n\<in>set ns. link q n = None"
  shows "q_run (map (DAppend h) ns) q = (replicate (length ns) RUnit,
     q\<lparr>q_of := (q_of q)(h := q_of q h @ ns),
       link := (\<lambda>n. if n \<in> set ns then Some h else link q n)\<rparr>)"
  using assms
proof (induction ns arbitrary: q)
  case (Cons n ns)
  have "q_run (map (DAppend h) ns) (q_append h n q) = (replicate (length ns) RUnit,
     (q_append h n q)\<lparr>q_of := (q_of (q_append h n q))(h := q_of (q_append h n q) h @ ns),
       link := (\<lambda>m. if m \<in> set ns then Some h else link (q_append h n q) m)\<rparr>)"
    by (rule Cons.IH) (use Cons.prems in \<open>auto simp: q_append_def\<close>)
  with Cons.prems show ?case by (auto simp: q_append_def Let_def split_beta fun_eq_iff)
qed simp

lemma q_run_gets:
  assumes "q_wf q" and "q_of q h = ns"
  shows "fst (q_run (replicate (length ns) (DGet h) @ [DGet h]) q) = map (RNode \<circ> Some) ns @ [RNode None]"
  using assms
proof (induction ns arbitrary: q)
  case Nil
  then show ?case by (simp add: q_get_def)
next
  case (Cons n ns)
  have "link q n = Some h" using Cons.prems by (metis list.set_intros(1) q_wf_mem)
  then have "q_of (snd (q_get h q)) h = ns" using Cons.prems(2) by (simp add: q_get_def q_remove_def)
  from Cons.IH [OF _ this] Cons.prems show ?case
    by (simp add: split_beta Let_def) (simp add: q_get_def)
qed

definition q_nil :: "('h, 'n) qstore" where
  "q_nil = \<lparr>q_of = (\<lambda>_. []), link = (\<lambda>_. None), dl_ub = False\<rparr>"

lemma q_wf_nil [simp, intro]: "q_wf q_nil"
  by (simp add: q_wf_def q_nil_def)

lemma dl_rep_nil: "dl_rep {} st q_nil"
  by (simp add: dl_rep_def) (simp add: q_nil_def)

lemma dl_rep_for_each:
  assumes "dl_rep I st q" and "Inl h \<in> I"
  shows "sys_dlist_for_each h (sys_dlist_peek_head h st) st = Some (map Inr (q_of q h))"
  using for_each_chain [of st h "[]" "map Inr (q_of q h)"] dl_repD(3) [OF assms]
    dl_rep_distinct [OF assms(1), of h]
  by (simp add: dl_rep_peek_head(3) [OF assms])

text \<open>C18. From memory with arbitrary contents, every sequence of list calls that respects the
  preconditions of the header returns, and returns exactly what the queue model returns; afterwards
  the iteration macro visits, on every initialised list, exactly the queue's members in order.\<close>

theorem list_h_implements_queues:
  assumes "dl_pre_run {} q_nil cs"
  shows "\<exists>st'. dl_run ptr_step cs st = Some (fst (q_run cs q_nil), st') \<and>
    (\<forall>h. Inl h \<in> dl_live_run {} q_nil cs \<longrightarrow>
       sys_dlist_for_each h (sys_dlist_peek_head h st') st' = Some (map Inr (q_of (snd (q_run cs q_nil)) h)))"
proof -
  obtain st' where run: "dl_run ptr_step cs st = Some (fst (q_run cs q_nil), st')"
    and rep: "dl_rep (dl_live_run {} q_nil cs) st' (snd (q_run cs q_nil))"
    using ptr.run_ok [OF dl_rep_nil assms] by metis
  from run dl_rep_for_each [OF rep] show ?thesis by (intro exI [of _ st']) simp
qed

text \<open>C30. A list is first-in first-out: after \<^verbatim>\<open>sys_dlist_init\<close>, any distinct nodes appended one
  after the other are returned by \<^verbatim>\<open>sys_dlist_get\<close> in the same order, and then \<^verbatim>\<open>NULL\<close>.\<close>

theorem list_h_fifo:
  assumes "distinct ns"
  shows "\<exists>st'. dl_run ptr_step
      (DInit h # map (DAppend h) ns @ replicate (length ns) (DGet h) @ [DGet h]) st
    = Some (RUnit # replicate (length ns) RUnit @ map (RNode \<circ> Some) ns @ [RNode None], st')"
proof -
  let ?cs = "DInit h # map (DAppend h) ns @ replicate (length ns) (DGet h) @ [DGet h]"
  have gets: "dl_pre_run I q (replicate k (DGet h))" if "Inl h \<in> I" for k I q
    using that by (induction k arbitrary: I q) (auto split: option.splits)
  have pre: "dl_pre_run I q (map (DAppend h) ns @ replicate k (DGet h))"
    if "Inl h \<in> I" "distinct ns" "\<forall>n\<in>set ns. link q n = None" for k I q ns
    using that
  proof (induction ns arbitrary: I q)
    case (Cons n ns)
    have "dl_pre_run (insert (Inr n) I) (q_append h n q) (map (DAppend h) ns @ replicate k (DGet h))"
      by (rule Cons.IH) (use Cons.prems in \<open>auto simp: q_append_def\<close>)
    with Cons.prems show ?case by simp
  qed (simp add: gets)
  have "dl_pre_run {} q_nil ?cs"
    using pre [of "{Inl h}" ns q_nil "Suc (length ns)"] assms
    by (simp add: replicate_append_same) (simp add: q_init_def q_nil_def)
  moreover have "fst (q_run ?cs q_nil)
      = RUnit # replicate (length ns) RUnit @ map (RNode \<circ> Some) ns @ [RNode None]"
  proof -
    have q0: "q_init h q_nil = q_nil" for h :: 'h by (simp add: q_init_def q_nil_def)
    have nil: "\<forall>n\<in>set ns. link q_nil n = None" "q_of q_nil h = []" by (simp_all add: q_nil_def)
    obtain q where run: "q_run (map (DAppend h) ns) q_nil = (replicate (length ns) RUnit, q)"
      and qh: "q_of q h = ns"
      by (rule that [OF q_run_appends [OF assms nil(1), of h]]) (simp add: nil)
    have "q_wf (snd (q_run (map (DAppend h) ms) q))" if "q_wf q" for ms q
      using that by (induction ms arbitrary: q) (auto simp: split_beta Let_def)
    from this [OF q_wf_nil, of ns] have "q_wf q" by (simp add: run)
    from q_run_gets [OF this qh] show ?thesis
      by (simp add: q0 q_run_append [of "map (DAppend h) ns"] run split_beta Let_def)
  qed
  ultimately show ?thesis using ptr.run_ok [OF dl_rep_nil, of ?cs st] by (auto simp del: dl_run.simps q_run.simps)
qed

theorem list_h_fifo_witness:
  "\<forall>st. \<exists>st'. dl_run ptr_step [DInit (), DAppend () (3::nat), DAppend () 1, DAppend () 2,
      DGet (), DGet (), DGet (), DGet ()] st
    = Some ([RUnit, RUnit, RUnit, RUnit, RNode (Some 3), RNode (Some 1), RNode (Some 2), RNode None], st')"
  using list_h_fifo [of "[3, 1, 2 :: nat]" "()"] by (simp del: dl_run.simps)

theorem list_h_implements_queues_witness:
  "\<forall>st. \<exists>st'. dl_run ptr_step
     [DInit (0::nat), DAppend 0 (7::nat), DAppend 0 8, DInsertAt 0 9 (\<lambda>n. n = 8), DRemove 8, DGet 0] st
     = Some ([RUnit, RUnit, RUnit, RUnit, RUnit, RNode (Some 7)], st') \<and>
     sys_dlist_for_each 0 (sys_dlist_peek_head 0 st') st' = Some [Inr 9]"
    (is "\<forall>st. ?P st")
proof
  let ?cs = "[DInit (0::nat), DAppend 0 (7::nat), DAppend 0 8, DInsertAt 0 9 (\<lambda>n. n = 8), DRemove 8, DGet 0]"
  note ev = q_nil_def q_init_def q_append_def q_insert_def q_insert_at_def q_remove_def q_get_def q_peek_def
  have pre: "dl_pre_run {} q_nil ?cs" and live: "Inl 0 \<in> dl_live_run {} q_nil ?cs"
    by (simp_all add: ev cong: eval_cong)
  have run: "fst (q_run ?cs q_nil) = [RUnit, RUnit, RUnit, RUnit, RUnit, RNode (Some 7)]"
    "q_of (snd (q_run ?cs q_nil)) 0 = [9]"
    by (simp_all add: ev Let_def cong: eval_cong)
  fix st
  obtain st' where 1: "dl_run ptr_step ?cs st = Some (fst (q_run ?cs q_nil), st')"
    and 2: "\<forall>h. Inl h \<in> dl_live_run {} q_nil ?cs \<longrightarrow>
      sys_dlist_for_each h (sys_dlist_peek_head h st') st' = Some (map Inr (q_of (snd (q_run ?cs q_nil)) h))"
    using list_h_implements_queues [OF pre, of st] by (elim exE conjE) (rule that)
  show "?P st"
    using 1 2 [rule_format, OF live] unfolding run list.map by (intro exI conjI)
qed

end
