(* ===== verification/Kernel_Types.thy ===== *)
theory Kernel_Types
  imports Dnode_List Tlsf
begin

text \<open>
  The data of the kernel: the structures of \<^verbatim>\<open>kernel/include/*_internal.h\<close>,
  \<^verbatim>\<open>ulmk_percpu.h\<close>, \<^verbatim>\<open>ulmk_timer.h\<close> and \<^verbatim>\<open>include/ulmk/microkernel.h\<close> as records, and \<open>kstate\<close>,
  the state every operation of the kernel transforms.

  \<^item> Objects are reached by 32-bit pointers (\<^verbatim>\<open>NULL\<close> is 0) through one store per type (\<open>tcb\<close>, \<open>eps\<close>,
    \<open>notifs\<close>, \<open>ars\<close>). Objects of different types do not overlap in memory.
  \<^item> Each kind of list node (\<^verbatim>\<open>sched_node\<close>, \<^verbatim>\<open>ipc_node\<close>, \<^verbatim>\<open>reg_node\<close>, \<^verbatim>\<open>timeout.node\<close>) only ever joins
    lists of one kind, so the kernel keeps one queue store per kind, whose nodes are the threads:
    \<open>rqs\<close>, \<open>ipcq\<close>, \<open>regq\<close>, \<open>tmq\<close> (see theory Dnode\_List).
  \<^item> Memory of the calling process is a store per type the kernel reads or writes there.
  \<^item> Calls into the arch layer that return nothing are recorded in \<open>trace\<close>; those that return a value
    are parameters in the configuration \<open>kconfig\<close>, with the build-time options.
  \<^item> \<open>lk\<close> records the kernel spinlocks held and whether the documented lock order was ever broken;
    \<open>hang\<close> records that a loop of the kernel did not end within the bound of the model.
\<close>

section \<open>Constants\<close>

datatype thread_state = DEAD | READY | RUNNING | BLOCKED | SUSPENDED

datatype blocked_reason_t =
    BLOCKED_NONE | BLOCKED_IPC_CALL | BLOCKED_IPC_RECV | BLOCKED_NOTIF | BLOCKED_IPC_OR_NOTIF | BLOCKED_SLEEP

type_synonym ulmk_privilege = u32
abbreviation ULMK_PRIV_USER :: ulmk_privilege where "ULMK_PRIV_USER \<equiv> 0"
abbreviation ULMK_PRIV_DRIVER :: ulmk_privilege where "ULMK_PRIV_DRIVER \<equiv> 1"
abbreviation ULMK_PRIV_KERNEL :: ulmk_privilege where "ULMK_PRIV_KERNEL \<equiv> 2"

abbreviation ULMK_CAP_SPAWN :: u32 where "ULMK_CAP_SPAWN \<equiv> 1"
abbreviation ULMK_CAP_KILL :: u32 where "ULMK_CAP_KILL \<equiv> 2"
abbreviation ULMK_CAP_IRQ :: u32 where "ULMK_CAP_IRQ \<equiv> 4"
abbreviation ULMK_CAP_MAP_PERIPH :: u32 where "ULMK_CAP_MAP_PERIPH \<equiv> 8"
abbreviation ULMK_CAP_GRANT_CAP :: u32 where "ULMK_CAP_GRANT_CAP \<equiv> 16"
abbreviation ULMK_CAP_MAP_SHARED :: u32 where "ULMK_CAP_MAP_SHARED \<equiv> 32"
abbreviation ULMK_CAP_HEAP :: u32 where "ULMK_CAP_HEAP \<equiv> 64"
abbreviation ULMK_CAP_ALL :: u8 where "ULMK_CAP_ALL \<equiv> 0xFF"
abbreviation ULMK_CAP_INHERIT :: u32 where "ULMK_CAP_INHERIT \<equiv> 0"

abbreviation ULMK_PERM_READ :: u32 where "ULMK_PERM_READ \<equiv> 1"
abbreviation ULMK_PERM_WRITE :: u32 where "ULMK_PERM_WRITE \<equiv> 2"
abbreviation ULMK_PERM_EXEC :: u32 where "ULMK_PERM_EXEC \<equiv> 4"

abbreviation ULMK_REGION_STACK :: u8 where "ULMK_REGION_STACK \<equiv> 2"
abbreviation ULMK_REGION_HEAP :: u8 where "ULMK_REGION_HEAP \<equiv> 3"
abbreviation ULMK_REGION_PERIPH :: u8 where "ULMK_REGION_PERIPH \<equiv> 4"
abbreviation ULMK_REGION_SHARED :: u8 where "ULMK_REGION_SHARED \<equiv> 5"
abbreviation ULMK_REGION_GRANT :: u8 where "ULMK_REGION_GRANT \<equiv> 6"

section \<open>Kernel objects\<close>

record ulmk_msg =
  label :: u32
  words :: "u32 list"

record recv_or_notif_result =
  rn_msg :: ulmk_msg
  rn_sender :: addr
  rn_notif_bits :: u32
  rn_is_notif :: int

record reply_recv_args =
  ra_reply :: addr
  ra_next :: addr
  ra_next_sender :: addr

record ulmk_thread_attr =
  at_entry :: addr
  at_arg :: addr
  at_priority :: u8
  at_stack_size :: u32
  at_privilege :: ulmk_privilege
  at_caps :: u32
  at_cpu :: u8

text \<open>The function pointer \<^verbatim>\<open>ulmk_timeout.cb\<close>: the callbacks the kernel installs.\<close>

datatype timeout_cb = CB_NULL | sleep_timeout_CB | ep_call_timeout_CB | notif_wait_timeout_CB

record ulmk_timeout =
  expires :: u64
  cb :: timeout_cb

record arch_region =
  r_base :: addr
  r_size :: u32
  r_perms :: u32
  r_type :: u8

text \<open>The \<^verbatim>\<open>child\<close>/\<^verbatim>\<open>sibling\<close> chain of an area is the list \<open>ar_children\<close>, the \<^verbatim>\<open>head\<close>/\<^verbatim>\<open>next\<close> chain of a set is
  \<open>as_list\<close>, and the chain of retired areas of a CPU is \<open>area_retired\<close>.\<close>

record ulmk_area =
  ar_parent :: addr
  ar_children :: "addr list"
  ar_set :: addr       \<comment> \<open>the thread whose \<^verbatim>\<open>areas\<close> it is; the C pointer is \<^verbatim>\<open>&th->areas\<close>\<close>
  ar_base :: addr
  ar_size :: u32
  ar_perms :: u32
  ar_type :: u8
  ar_flags :: u8

record area_set =
  as_list :: "addr list"
  as_count :: u16

record ulmk_thread =
  stack_base :: addr
  stack_size :: u32
  stack_alloc :: addr
  priority :: u8
  cpu :: u8
  saved_prio :: u8
  state :: thread_state
  blocked_reason :: blocked_reason_t
  privilege :: ulmk_privilege
  start_entry :: addr
  start_arg :: addr
  ctx_ready :: bool
  tid :: addr
  blocked_ep :: addr
  blocked_notif :: addr
  timeout :: ulmk_timeout
  ipc_msg :: ulmk_msg
  ipc_sender :: addr
  ipc_msg_outptr :: addr
  ipc_sender_outptr :: addr
  notif_bits_outptr :: addr
  rn_result_outptr :: addr
  notif_wait_mask :: u32
  notif_received :: u32
  block_status :: int
  syscall_wake_ret :: int
  syscall_wake_ret_valid :: bool
  stack_region :: arch_region
  areas :: area_set
  cap_flags :: u8

record ulmk_endpoint =
  ep_id :: addr
  ep_active :: bool

record ulmk_notif_obj =
  n_id :: addr
  n_active :: bool
  n_bits :: u32
  waiter :: addr
  wait_mask :: u32

record irq_binding =
  b_srpn :: u8
  b_notif :: addr
  b_bit :: u32
  b_enabled :: bool
  b_attach_fn :: addr
  b_attach_data :: addr
  b_owner :: addr
  b_owned_notif :: bool

record ulmk_percpu =
  current :: addr
  idle :: addr
  dead_for_cleanup :: addr
  needs_resched :: bool
  online :: bool
  in_irq_attach :: bool
  irq_attach_owner :: addr
  irq_attach_srpn :: u8
  area_retired :: "addr list"
  ipi_pending :: u32
  mpu_shootdown :: u32

record timer_wheel =
  clk :: u64
  pending :: "nat \<Rightarrow> u64"

section \<open>Lists\<close>

datatype rq_head = RqLevel nat nat | FifoRq
datatype ipc_head = SendQ addr | RecvQ addr
datatype tm_head = Bucket nat nat nat | PendingQ

datatype sched_class_t = bitmap_rt_class | fifo_rt_class

section \<open>Locks and arch events\<close>

datatype klock = LThread | LIpc | LRq | LIrq | LTimer | LArea | LMem

text \<open>\<^verbatim>\<open>ulmk_klock.h\<close>: thread, ipc, rq, irq, timer, area, mem, in this order; and the timer lock is
  not taken while the ipc lock is held.\<close>

fun lock_rank :: "klock \<Rightarrow> nat" where
  "lock_rank LThread = 0" | "lock_rank LIpc = 1" | "lock_rank LRq = 2" | "lock_rank LIrq = 3"
| "lock_rank LTimer = 4" | "lock_rank LArea = 5" | "lock_rank LMem = 6"

record lock_state =
  held :: "klock list"
  order_ok :: bool

datatype arch_ev =
    EvSendIpi nat
  | EvCtxSwitch addr addr           \<comment> \<open>threads; \<^verbatim>\<open>NULL\<close> for the startup context\<close>
  | EvSchedSwitch addr addr
  | EvCtxInit addr addr addr addr ulmk_privilege
  | EvCtxFree addr
  | EvMpuSwitch "arch_region option" bool
  | EvMpuFlush nat
  | EvMpuLoad arch_region
  | EvIrqConfigure u8
  | EvIrqRegister u8 u32
  | EvIrqEnable u8
  | EvIrqDisable u8
  | EvIrqAck u8
  | EvBoardIrqConnect u8
  | EvBoardIrqDisconnect u8
  | EvAttachCall addr addr
  | EvSecondaryReady
  | EvTickInit u32
  | EvTickAck
  | EvIpiNote
  | EvMpuInit
  | EvMpuEnable
  | EvCpuIrqEnable
  | EvSmpReady
  | EvSecondaryInit
  | EvStartSecondary nat
  | EvDcacheClean addr u32
  | EvDcacheInvalidate addr u32
  | EvDcacheCleanInv addr u32

section \<open>The kernel state\<close>

record kconfig =
  smp :: bool
  nr_cpus :: nat
  tick_hz :: u32
  wheel_cpu :: "nat \<Rightarrow> nat"          \<comment> \<open>\<^verbatim>\<open>ulmk_arch_timer_wheel_cpu\<close>, from the CPU id\<close>
  mpu_win_pow2 :: bool
  mpu_win_min :: u32
  mpu_win_max :: "u32 option"
  region_align :: u32
  kstack_size :: u32
  ctx_on_affinity_cpu :: bool
  isr_preempt_deferred :: bool
  irq_attach_enabled :: bool
  board_irq_ctrl :: bool
  has_cache :: bool
  sizeof_thread :: u32
  sizeof_endpoint :: u32
  sizeof_notif :: u32
  sizeof_area :: u32
  arch_mpu_load :: "arch_region \<Rightarrow> bool"
  attach_call :: "addr \<Rightarrow> addr \<Rightarrow> bool"

record kstate =
  cfg :: kconfig
  cpu_id :: nat
  tcb :: "addr \<Rightarrow> ulmk_thread"
  rqs :: "(rq_head, addr) qstore"
  rq_bitmap :: "nat \<Rightarrow> nat \<Rightarrow> u32"
  ipcq :: "(ipc_head, addr) qstore"
  regq :: "(unit, addr) qstore"
  reg_inited :: bool
  tmq :: "(tm_head, addr) qstore"
  wheels :: "nat \<Rightarrow> timer_wheel"
  percpu :: "nat \<Rightarrow> ulmk_percpu"
  sched_class :: "sched_class_t option"
  eps :: "addr \<Rightarrow> ulmk_endpoint"
  notifs :: "addr \<Rightarrow> ulmk_notif_obj"
  irq_table :: "irq_binding list"
  ars :: "addr \<Rightarrow> ulmk_area"
  heap :: tlsf
  umsg :: "addr \<Rightarrow> ulmk_msg"
  uword :: "addr \<Rightarrow> u32"
  urn :: "addr \<Rightarrow> recv_or_notif_result"
  uargs :: "addr \<Rightarrow> reply_recv_args"
  uattr :: "addr \<Rightarrow> ulmk_thread_attr"
  tick_started :: bool
  lk :: lock_state
  trace :: "arch_ev list"
  hang :: bool

end
