(* ===== verification/Kernel_State.thy ===== *)
theory Kernel_State
  imports Kernel_Types
begin

text \<open>
  Access to the kernel state: point-wise update of an object, the per-CPU block of the running CPU
  (\<^verbatim>\<open>kernel/include/ulmk_percpu.h\<close>, \<^verbatim>\<open>kernel/percpu/percpu.c\<close>), the kernel spinlocks and the
  recorded arch calls, with the frame facts that say which part of the state each of them changes.
\<close>

section \<open>Updating objects\<close>

definition upd_tcb :: "addr \<Rightarrow> (ulmk_thread \<Rightarrow> ulmk_thread) \<Rightarrow> kstate \<Rightarrow> kstate" where
  "upd_tcb t f s = s\<lparr>tcb := (tcb s)(t := f (tcb s t))\<rparr>"

definition upd_ep :: "addr \<Rightarrow> (ulmk_endpoint \<Rightarrow> ulmk_endpoint) \<Rightarrow> kstate \<Rightarrow> kstate" where
  "upd_ep e f s = s\<lparr>eps := (eps s)(e := f (eps s e))\<rparr>"

definition upd_notif :: "addr \<Rightarrow> (ulmk_notif_obj \<Rightarrow> ulmk_notif_obj) \<Rightarrow> kstate \<Rightarrow> kstate" where
  "upd_notif n f s = s\<lparr>notifs := (notifs s)(n := f (notifs s n))\<rparr>"

definition upd_percpu :: "nat \<Rightarrow> (ulmk_percpu \<Rightarrow> ulmk_percpu) \<Rightarrow> kstate \<Rightarrow> kstate" where
  "upd_percpu c f s = s\<lparr>percpu := (percpu s)(c := f (percpu s c))\<rparr>"

definition upd_rqs :: "((rq_head, addr) qstore \<Rightarrow> (rq_head, addr) qstore) \<Rightarrow> kstate \<Rightarrow> kstate" where
  "upd_rqs f s = s\<lparr>rqs := f (rqs s)\<rparr>"

definition upd_ipcq :: "((ipc_head, addr) qstore \<Rightarrow> (ipc_head, addr) qstore) \<Rightarrow> kstate \<Rightarrow> kstate" where
  "upd_ipcq f s = s\<lparr>ipcq := f (ipcq s)\<rparr>"

definition upd_tmq :: "((tm_head, addr) qstore \<Rightarrow> (tm_head, addr) qstore) \<Rightarrow> kstate \<Rightarrow> kstate" where
  "upd_tmq f s = s\<lparr>tmq := f (tmq s)\<rparr>"

definition upd_umsg :: "addr \<Rightarrow> ulmk_msg \<Rightarrow> kstate \<Rightarrow> kstate" where
  "upd_umsg p m s = s\<lparr>umsg := (umsg s)(p := m)\<rparr>"

definition upd_uword :: "addr \<Rightarrow> u32 \<Rightarrow> kstate \<Rightarrow> kstate" where
  "upd_uword p w s = s\<lparr>uword := (uword s)(p := w)\<rparr>"

definition upd_urn :: "addr \<Rightarrow> (recv_or_notif_result \<Rightarrow> recv_or_notif_result) \<Rightarrow> kstate \<Rightarrow> kstate" where
  "upd_urn p f s = s\<lparr>urn := (urn s)(p := f (urn s p))\<rparr>"

section \<open>Spinlocks and arch calls\<close>

definition may_take :: "klock \<Rightarrow> klock list \<Rightarrow> bool" where
  "may_take l ls \<longleftrightarrow> (\<forall>l'\<in>set ls. lock_rank l' < lock_rank l) \<and> \<not> (l = LTimer \<and> LIpc \<in> set ls)"

definition acquire :: "klock \<Rightarrow> lock_state \<Rightarrow> lock_state" where
  "acquire l ls = \<lparr>held = l # held ls, order_ok = order_ok ls \<and> may_take l (held ls)\<rparr>"

definition release :: "klock \<Rightarrow> lock_state \<Rightarrow> lock_state" where
  "release l ls = ls\<lparr>held := remove1 l (held ls)\<rparr>"

definition lock :: "klock \<Rightarrow> kstate \<Rightarrow> kstate" where
  "lock l s = s\<lparr>lk := acquire l (lk s)\<rparr>"

definition unlock :: "klock \<Rightarrow> kstate \<Rightarrow> kstate" where
  "unlock l s = s\<lparr>lk := release l (lk s)\<rparr>"

definition emit :: "arch_ev \<Rightarrow> kstate \<Rightarrow> kstate" where
  "emit e s = s\<lparr>trace := e # trace s\<rparr>"

section \<open>Per-CPU state\<close>

definition percpu_ix :: "nat \<Rightarrow> kstate \<Rightarrow> nat" where
  "percpu_ix c s = (if c \<ge> nr_cpus (cfg s) then 0 else c)"

definition ulmk_percpu :: "kstate \<Rightarrow> ulmk_percpu" where
  "ulmk_percpu s = percpu s (percpu_ix (cpu_id s) s)"

definition ulmk_percpu_of :: "nat \<Rightarrow> kstate \<Rightarrow> ulmk_percpu" where
  "ulmk_percpu_of c s = percpu s (percpu_ix c s)"

definition upd_this_cpu :: "(ulmk_percpu \<Rightarrow> ulmk_percpu) \<Rightarrow> kstate \<Rightarrow> kstate" where
  "upd_this_cpu f s = upd_percpu (percpu_ix (cpu_id s) s) f s"

definition percpu_zero :: ulmk_percpu where
  "percpu_zero = \<lparr>current = NULL, idle = NULL, dead_for_cleanup = NULL, needs_resched = False,
     online = False, in_irq_attach = False, irq_attach_owner = NULL, irq_attach_srpn = 0,
     area_retired = [], ipi_pending = 0, mpu_shootdown = 0\<rparr>"

definition ulmk_percpu_init :: "kstate \<Rightarrow> kstate" where
  "ulmk_percpu_init s = s\<lparr>percpu := (\<lambda>i. if i < nr_cpus (cfg s)
     then percpu_zero\<lparr>online := (i = 0)\<rparr> else percpu s i)\<rparr>"

section \<open>Frames\<close>

text \<open>Each update changes one field of the state.\<close>

lemma upd_tcb_frame [simp]:
  "cfg (upd_tcb t f s) = cfg s" "cpu_id (upd_tcb t f s) = cpu_id s" "rqs (upd_tcb t f s) = rqs s"
  "rq_bitmap (upd_tcb t f s) = rq_bitmap s" "ipcq (upd_tcb t f s) = ipcq s"
  "regq (upd_tcb t f s) = regq s" "reg_inited (upd_tcb t f s) = reg_inited s"
  "tmq (upd_tcb t f s) = tmq s" "wheels (upd_tcb t f s) = wheels s"
  "percpu (upd_tcb t f s) = percpu s" "sched_class (upd_tcb t f s) = sched_class s"
  "eps (upd_tcb t f s) = eps s" "notifs (upd_tcb t f s) = notifs s"
  "irq_table (upd_tcb t f s) = irq_table s" "ars (upd_tcb t f s) = ars s"
  "heap (upd_tcb t f s) = heap s" "umsg (upd_tcb t f s) = umsg s"
  "uword (upd_tcb t f s) = uword s" "urn (upd_tcb t f s) = urn s"
  "uargs (upd_tcb t f s) = uargs s" "uattr (upd_tcb t f s) = uattr s"
  "tick_started (upd_tcb t f s) = tick_started s" "lk (upd_tcb t f s) = lk s"
  "trace (upd_tcb t f s) = trace s" "hang (upd_tcb t f s) = hang s"
  by (simp_all add: upd_tcb_def)

lemma upd_ep_frame [simp]:
  "cfg (upd_ep e f s) = cfg s" "cpu_id (upd_ep e f s) = cpu_id s" "tcb (upd_ep e f s) = tcb s"
  "rqs (upd_ep e f s) = rqs s" "rq_bitmap (upd_ep e f s) = rq_bitmap s"
  "ipcq (upd_ep e f s) = ipcq s" "regq (upd_ep e f s) = regq s"
  "reg_inited (upd_ep e f s) = reg_inited s" "tmq (upd_ep e f s) = tmq s"
  "wheels (upd_ep e f s) = wheels s" "percpu (upd_ep e f s) = percpu s"
  "sched_class (upd_ep e f s) = sched_class s" "notifs (upd_ep e f s) = notifs s"
  "irq_table (upd_ep e f s) = irq_table s" "ars (upd_ep e f s) = ars s"
  "heap (upd_ep e f s) = heap s" "umsg (upd_ep e f s) = umsg s" "uword (upd_ep e f s) = uword s"
  "urn (upd_ep e f s) = urn s" "uargs (upd_ep e f s) = uargs s" "uattr (upd_ep e f s) = uattr s"
  "tick_started (upd_ep e f s) = tick_started s" "lk (upd_ep e f s) = lk s"
  "trace (upd_ep e f s) = trace s" "hang (upd_ep e f s) = hang s"
  by (simp_all add: upd_ep_def)

lemma upd_notif_frame [simp]:
  "cfg (upd_notif n f s) = cfg s" "cpu_id (upd_notif n f s) = cpu_id s"
  "tcb (upd_notif n f s) = tcb s" "rqs (upd_notif n f s) = rqs s"
  "rq_bitmap (upd_notif n f s) = rq_bitmap s" "ipcq (upd_notif n f s) = ipcq s"
  "regq (upd_notif n f s) = regq s" "reg_inited (upd_notif n f s) = reg_inited s"
  "tmq (upd_notif n f s) = tmq s" "wheels (upd_notif n f s) = wheels s"
  "percpu (upd_notif n f s) = percpu s" "sched_class (upd_notif n f s) = sched_class s"
  "eps (upd_notif n f s) = eps s" "irq_table (upd_notif n f s) = irq_table s"
  "ars (upd_notif n f s) = ars s" "heap (upd_notif n f s) = heap s"
  "umsg (upd_notif n f s) = umsg s" "uword (upd_notif n f s) = uword s"
  "urn (upd_notif n f s) = urn s" "uargs (upd_notif n f s) = uargs s"
  "uattr (upd_notif n f s) = uattr s" "tick_started (upd_notif n f s) = tick_started s"
  "lk (upd_notif n f s) = lk s" "trace (upd_notif n f s) = trace s"
  "hang (upd_notif n f s) = hang s"
  by (simp_all add: upd_notif_def)

lemma upd_percpu_frame [simp]:
  "cfg (upd_percpu c f s) = cfg s" "cpu_id (upd_percpu c f s) = cpu_id s"
  "tcb (upd_percpu c f s) = tcb s" "rqs (upd_percpu c f s) = rqs s"
  "rq_bitmap (upd_percpu c f s) = rq_bitmap s" "ipcq (upd_percpu c f s) = ipcq s"
  "regq (upd_percpu c f s) = regq s" "reg_inited (upd_percpu c f s) = reg_inited s"
  "tmq (upd_percpu c f s) = tmq s" "wheels (upd_percpu c f s) = wheels s"
  "sched_class (upd_percpu c f s) = sched_class s" "eps (upd_percpu c f s) = eps s"
  "notifs (upd_percpu c f s) = notifs s" "irq_table (upd_percpu c f s) = irq_table s"
  "ars (upd_percpu c f s) = ars s" "heap (upd_percpu c f s) = heap s"
  "umsg (upd_percpu c f s) = umsg s" "uword (upd_percpu c f s) = uword s"
  "urn (upd_percpu c f s) = urn s" "uargs (upd_percpu c f s) = uargs s"
  "uattr (upd_percpu c f s) = uattr s" "tick_started (upd_percpu c f s) = tick_started s"
  "lk (upd_percpu c f s) = lk s" "trace (upd_percpu c f s) = trace s"
  "hang (upd_percpu c f s) = hang s"
  by (simp_all add: upd_percpu_def)

lemma upd_rqs_frame [simp]:
  "cfg (upd_rqs f s) = cfg s" "cpu_id (upd_rqs f s) = cpu_id s" "tcb (upd_rqs f s) = tcb s"
  "rq_bitmap (upd_rqs f s) = rq_bitmap s" "ipcq (upd_rqs f s) = ipcq s"
  "regq (upd_rqs f s) = regq s" "reg_inited (upd_rqs f s) = reg_inited s"
  "tmq (upd_rqs f s) = tmq s" "wheels (upd_rqs f s) = wheels s" "percpu (upd_rqs f s) = percpu s"
  "sched_class (upd_rqs f s) = sched_class s" "eps (upd_rqs f s) = eps s"
  "notifs (upd_rqs f s) = notifs s" "irq_table (upd_rqs f s) = irq_table s"
  "ars (upd_rqs f s) = ars s" "heap (upd_rqs f s) = heap s" "umsg (upd_rqs f s) = umsg s"
  "uword (upd_rqs f s) = uword s" "urn (upd_rqs f s) = urn s" "uargs (upd_rqs f s) = uargs s"
  "uattr (upd_rqs f s) = uattr s" "tick_started (upd_rqs f s) = tick_started s"
  "lk (upd_rqs f s) = lk s" "trace (upd_rqs f s) = trace s" "hang (upd_rqs f s) = hang s"
  by (simp_all add: upd_rqs_def)

lemma upd_ipcq_frame [simp]:
  "cfg (upd_ipcq f s) = cfg s" "cpu_id (upd_ipcq f s) = cpu_id s" "tcb (upd_ipcq f s) = tcb s"
  "rqs (upd_ipcq f s) = rqs s" "rq_bitmap (upd_ipcq f s) = rq_bitmap s"
  "regq (upd_ipcq f s) = regq s" "reg_inited (upd_ipcq f s) = reg_inited s"
  "tmq (upd_ipcq f s) = tmq s" "wheels (upd_ipcq f s) = wheels s"
  "percpu (upd_ipcq f s) = percpu s" "sched_class (upd_ipcq f s) = sched_class s"
  "eps (upd_ipcq f s) = eps s" "notifs (upd_ipcq f s) = notifs s"
  "irq_table (upd_ipcq f s) = irq_table s" "ars (upd_ipcq f s) = ars s"
  "heap (upd_ipcq f s) = heap s" "umsg (upd_ipcq f s) = umsg s" "uword (upd_ipcq f s) = uword s"
  "urn (upd_ipcq f s) = urn s" "uargs (upd_ipcq f s) = uargs s" "uattr (upd_ipcq f s) = uattr s"
  "tick_started (upd_ipcq f s) = tick_started s" "lk (upd_ipcq f s) = lk s"
  "trace (upd_ipcq f s) = trace s" "hang (upd_ipcq f s) = hang s"
  by (simp_all add: upd_ipcq_def)

lemma upd_tmq_frame [simp]:
  "cfg (upd_tmq f s) = cfg s" "cpu_id (upd_tmq f s) = cpu_id s" "tcb (upd_tmq f s) = tcb s"
  "rqs (upd_tmq f s) = rqs s" "rq_bitmap (upd_tmq f s) = rq_bitmap s"
  "ipcq (upd_tmq f s) = ipcq s" "regq (upd_tmq f s) = regq s"
  "reg_inited (upd_tmq f s) = reg_inited s" "wheels (upd_tmq f s) = wheels s"
  "percpu (upd_tmq f s) = percpu s" "sched_class (upd_tmq f s) = sched_class s"
  "eps (upd_tmq f s) = eps s" "notifs (upd_tmq f s) = notifs s"
  "irq_table (upd_tmq f s) = irq_table s" "ars (upd_tmq f s) = ars s"
  "heap (upd_tmq f s) = heap s" "umsg (upd_tmq f s) = umsg s" "uword (upd_tmq f s) = uword s"
  "urn (upd_tmq f s) = urn s" "uargs (upd_tmq f s) = uargs s" "uattr (upd_tmq f s) = uattr s"
  "tick_started (upd_tmq f s) = tick_started s" "lk (upd_tmq f s) = lk s"
  "trace (upd_tmq f s) = trace s" "hang (upd_tmq f s) = hang s"
  by (simp_all add: upd_tmq_def)

lemma upd_umsg_frame [simp]:
  "cfg (upd_umsg p m s) = cfg s" "cpu_id (upd_umsg p m s) = cpu_id s"
  "tcb (upd_umsg p m s) = tcb s" "rqs (upd_umsg p m s) = rqs s"
  "rq_bitmap (upd_umsg p m s) = rq_bitmap s" "ipcq (upd_umsg p m s) = ipcq s"
  "regq (upd_umsg p m s) = regq s" "reg_inited (upd_umsg p m s) = reg_inited s"
  "tmq (upd_umsg p m s) = tmq s" "wheels (upd_umsg p m s) = wheels s"
  "percpu (upd_umsg p m s) = percpu s" "sched_class (upd_umsg p m s) = sched_class s"
  "eps (upd_umsg p m s) = eps s" "notifs (upd_umsg p m s) = notifs s"
  "irq_table (upd_umsg p m s) = irq_table s" "ars (upd_umsg p m s) = ars s"
  "heap (upd_umsg p m s) = heap s" "uword (upd_umsg p m s) = uword s"
  "urn (upd_umsg p m s) = urn s" "uargs (upd_umsg p m s) = uargs s"
  "uattr (upd_umsg p m s) = uattr s" "tick_started (upd_umsg p m s) = tick_started s"
  "lk (upd_umsg p m s) = lk s" "trace (upd_umsg p m s) = trace s" "hang (upd_umsg p m s) = hang s"
  by (simp_all add: upd_umsg_def)

lemma upd_uword_frame [simp]:
  "cfg (upd_uword p w s) = cfg s" "cpu_id (upd_uword p w s) = cpu_id s"
  "tcb (upd_uword p w s) = tcb s" "rqs (upd_uword p w s) = rqs s"
  "rq_bitmap (upd_uword p w s) = rq_bitmap s" "ipcq (upd_uword p w s) = ipcq s"
  "regq (upd_uword p w s) = regq s" "reg_inited (upd_uword p w s) = reg_inited s"
  "tmq (upd_uword p w s) = tmq s" "wheels (upd_uword p w s) = wheels s"
  "percpu (upd_uword p w s) = percpu s" "sched_class (upd_uword p w s) = sched_class s"
  "eps (upd_uword p w s) = eps s" "notifs (upd_uword p w s) = notifs s"
  "irq_table (upd_uword p w s) = irq_table s" "ars (upd_uword p w s) = ars s"
  "heap (upd_uword p w s) = heap s" "umsg (upd_uword p w s) = umsg s"
  "urn (upd_uword p w s) = urn s" "uargs (upd_uword p w s) = uargs s"
  "uattr (upd_uword p w s) = uattr s" "tick_started (upd_uword p w s) = tick_started s"
  "lk (upd_uword p w s) = lk s" "trace (upd_uword p w s) = trace s"
  "hang (upd_uword p w s) = hang s"
  by (simp_all add: upd_uword_def)

lemma upd_urn_frame [simp]:
  "cfg (upd_urn p f s) = cfg s" "cpu_id (upd_urn p f s) = cpu_id s" "tcb (upd_urn p f s) = tcb s"
  "rqs (upd_urn p f s) = rqs s" "rq_bitmap (upd_urn p f s) = rq_bitmap s"
  "ipcq (upd_urn p f s) = ipcq s" "regq (upd_urn p f s) = regq s"
  "reg_inited (upd_urn p f s) = reg_inited s" "tmq (upd_urn p f s) = tmq s"
  "wheels (upd_urn p f s) = wheels s" "percpu (upd_urn p f s) = percpu s"
  "sched_class (upd_urn p f s) = sched_class s" "eps (upd_urn p f s) = eps s"
  "notifs (upd_urn p f s) = notifs s" "irq_table (upd_urn p f s) = irq_table s"
  "ars (upd_urn p f s) = ars s" "heap (upd_urn p f s) = heap s" "umsg (upd_urn p f s) = umsg s"
  "uword (upd_urn p f s) = uword s" "uargs (upd_urn p f s) = uargs s"
  "uattr (upd_urn p f s) = uattr s" "tick_started (upd_urn p f s) = tick_started s"
  "lk (upd_urn p f s) = lk s" "trace (upd_urn p f s) = trace s" "hang (upd_urn p f s) = hang s"
  by (simp_all add: upd_urn_def)

lemma lock_frame [simp]:
  "cfg (lock l s) = cfg s" "cpu_id (lock l s) = cpu_id s" "tcb (lock l s) = tcb s"
  "rqs (lock l s) = rqs s" "rq_bitmap (lock l s) = rq_bitmap s" "ipcq (lock l s) = ipcq s"
  "regq (lock l s) = regq s" "reg_inited (lock l s) = reg_inited s" "tmq (lock l s) = tmq s"
  "wheels (lock l s) = wheels s" "percpu (lock l s) = percpu s"
  "sched_class (lock l s) = sched_class s" "eps (lock l s) = eps s" "notifs (lock l s) = notifs s"
  "irq_table (lock l s) = irq_table s" "ars (lock l s) = ars s" "heap (lock l s) = heap s"
  "umsg (lock l s) = umsg s" "uword (lock l s) = uword s" "urn (lock l s) = urn s"
  "uargs (lock l s) = uargs s" "uattr (lock l s) = uattr s"
  "tick_started (lock l s) = tick_started s" "trace (lock l s) = trace s"
  "hang (lock l s) = hang s"
  by (simp_all add: lock_def)

lemma unlock_frame [simp]:
  "cfg (unlock l s) = cfg s" "cpu_id (unlock l s) = cpu_id s" "tcb (unlock l s) = tcb s"
  "rqs (unlock l s) = rqs s" "rq_bitmap (unlock l s) = rq_bitmap s" "ipcq (unlock l s) = ipcq s"
  "regq (unlock l s) = regq s" "reg_inited (unlock l s) = reg_inited s" "tmq (unlock l s) = tmq s"
  "wheels (unlock l s) = wheels s" "percpu (unlock l s) = percpu s"
  "sched_class (unlock l s) = sched_class s" "eps (unlock l s) = eps s"
  "notifs (unlock l s) = notifs s" "irq_table (unlock l s) = irq_table s"
  "ars (unlock l s) = ars s" "heap (unlock l s) = heap s" "umsg (unlock l s) = umsg s"
  "uword (unlock l s) = uword s" "urn (unlock l s) = urn s" "uargs (unlock l s) = uargs s"
  "uattr (unlock l s) = uattr s" "tick_started (unlock l s) = tick_started s"
  "trace (unlock l s) = trace s" "hang (unlock l s) = hang s"
  by (simp_all add: unlock_def)

lemma emit_frame [simp]:
  "cfg (emit e s) = cfg s" "cpu_id (emit e s) = cpu_id s" "tcb (emit e s) = tcb s"
  "rqs (emit e s) = rqs s" "rq_bitmap (emit e s) = rq_bitmap s" "ipcq (emit e s) = ipcq s"
  "regq (emit e s) = regq s" "reg_inited (emit e s) = reg_inited s" "tmq (emit e s) = tmq s"
  "wheels (emit e s) = wheels s" "percpu (emit e s) = percpu s"
  "sched_class (emit e s) = sched_class s" "eps (emit e s) = eps s" "notifs (emit e s) = notifs s"
  "irq_table (emit e s) = irq_table s" "ars (emit e s) = ars s" "heap (emit e s) = heap s"
  "umsg (emit e s) = umsg s" "uword (emit e s) = uword s" "urn (emit e s) = urn s"
  "uargs (emit e s) = uargs s" "uattr (emit e s) = uattr s"
  "tick_started (emit e s) = tick_started s" "lk (emit e s) = lk s" "hang (emit e s) = hang s"
  by (simp_all add: emit_def)

lemma ulmk_percpu_init_frame [simp]:
  "cfg (ulmk_percpu_init s) = cfg s" "cpu_id (ulmk_percpu_init s) = cpu_id s"
  "tcb (ulmk_percpu_init s) = tcb s" "rqs (ulmk_percpu_init s) = rqs s"
  "rq_bitmap (ulmk_percpu_init s) = rq_bitmap s" "ipcq (ulmk_percpu_init s) = ipcq s"
  "regq (ulmk_percpu_init s) = regq s" "reg_inited (ulmk_percpu_init s) = reg_inited s"
  "tmq (ulmk_percpu_init s) = tmq s" "wheels (ulmk_percpu_init s) = wheels s"
  "sched_class (ulmk_percpu_init s) = sched_class s" "eps (ulmk_percpu_init s) = eps s"
  "notifs (ulmk_percpu_init s) = notifs s" "irq_table (ulmk_percpu_init s) = irq_table s"
  "ars (ulmk_percpu_init s) = ars s" "heap (ulmk_percpu_init s) = heap s"
  "umsg (ulmk_percpu_init s) = umsg s" "uword (ulmk_percpu_init s) = uword s"
  "urn (ulmk_percpu_init s) = urn s" "uargs (ulmk_percpu_init s) = uargs s"
  "uattr (ulmk_percpu_init s) = uattr s" "tick_started (ulmk_percpu_init s) = tick_started s"
  "lk (ulmk_percpu_init s) = lk s" "trace (ulmk_percpu_init s) = trace s"
  "hang (ulmk_percpu_init s) = hang s"
  by (simp_all add: ulmk_percpu_init_def)

lemma upd_this_cpu_frame [simp]:
  "cfg (upd_this_cpu f s) = cfg s" "cpu_id (upd_this_cpu f s) = cpu_id s"
  "tcb (upd_this_cpu f s) = tcb s" "rqs (upd_this_cpu f s) = rqs s"
  "rq_bitmap (upd_this_cpu f s) = rq_bitmap s" "ipcq (upd_this_cpu f s) = ipcq s"
  "regq (upd_this_cpu f s) = regq s" "reg_inited (upd_this_cpu f s) = reg_inited s"
  "tmq (upd_this_cpu f s) = tmq s" "wheels (upd_this_cpu f s) = wheels s"
  "sched_class (upd_this_cpu f s) = sched_class s" "eps (upd_this_cpu f s) = eps s"
  "notifs (upd_this_cpu f s) = notifs s" "irq_table (upd_this_cpu f s) = irq_table s"
  "ars (upd_this_cpu f s) = ars s" "heap (upd_this_cpu f s) = heap s"
  "umsg (upd_this_cpu f s) = umsg s" "uword (upd_this_cpu f s) = uword s"
  "urn (upd_this_cpu f s) = urn s" "uargs (upd_this_cpu f s) = uargs s"
  "uattr (upd_this_cpu f s) = uattr s" "tick_started (upd_this_cpu f s) = tick_started s"
  "lk (upd_this_cpu f s) = lk s" "trace (upd_this_cpu f s) = trace s"
  "hang (upd_this_cpu f s) = hang s"
  by (simp_all add: upd_this_cpu_def)

lemma upd_apply [simp]:
  "tcb (upd_tcb t f s) = (tcb s)(t := f (tcb s t))"
  "eps (upd_ep e g s) = (eps s)(e := g (eps s e))"
  "notifs (upd_notif n k s) = (notifs s)(n := k (notifs s n))"
  "percpu (upd_percpu c j s) = (percpu s)(c := j (percpu s c))"
  "rqs (upd_rqs rf s) = rf (rqs s)"
  "ipcq (upd_ipcq qf s) = qf (ipcq s)"
  "tmq (upd_tmq tf s) = tf (tmq s)"
  "umsg (upd_umsg p m s) = (umsg s)(p := m)"
  "uword (upd_uword p w s) = (uword s)(p := w)"
  "urn (upd_urn p uf s) = (urn s)(p := uf (urn s p))"
  "trace (emit ev s) = ev # trace s"
  by (simp_all add: upd_tcb_def upd_ep_def upd_notif_def upd_percpu_def upd_rqs_def upd_ipcq_def
      upd_tmq_def upd_umsg_def upd_uword_def upd_urn_def emit_def)

lemma percpu_upd_this_cpu:
  "percpu (upd_this_cpu f s) = (percpu s)(percpu_ix (cpu_id s) s := f (percpu s (percpu_ix (cpu_id s) s)))"
  by (simp add: upd_this_cpu_def)

text \<open>\<open>percpu_ix\<close> depends on the configuration only.\<close>

lemma percpu_ix_cong: "cfg s' = cfg s \<Longrightarrow> percpu_ix c s' = percpu_ix c s"
  by (simp add: percpu_ix_def)

lemma percpu_ix_less [simp]: "c < nr_cpus (cfg s) \<Longrightarrow> percpu_ix c s = c"
  by (simp add: percpu_ix_def)

section \<open>Lock discipline\<close>

lemma lk_lock [simp]: "lk (lock l s) = acquire l (lk s)" "lk (unlock l s) = release l (lk s)"
  by (simp_all add: lock_def unlock_def)

text \<open>A critical section with one lock: nothing is left held, and the order is kept if the lock may
  be taken at this point.\<close>

definition touch :: "klock \<Rightarrow> lock_state \<Rightarrow> lock_state" where
  "touch l ls = ls\<lparr>order_ok := order_ok ls \<and> may_take l (held ls)\<rparr>"

lemma release_acquire [simp]: "release l (acquire l ls) = touch l ls"
  by (cases ls) (simp add: release_def acquire_def touch_def)

lemma held_lk [simp]:
  "held (acquire l ls) = l # held ls" "held (release l ls) = remove1 l (held ls)"
  "held (touch l ls) = held ls"
  "order_ok (acquire l ls) \<longleftrightarrow> order_ok ls \<and> may_take l (held ls)"
  "order_ok (release l ls) = order_ok ls"
  "order_ok (touch l ls) \<longleftrightarrow> order_ok ls \<and> may_take l (held ls)"
  by (simp_all add: acquire_def release_def touch_def)

lemma may_take_code [simp]:
  "may_take l []"
  "may_take l (l' # ls) \<longleftrightarrow>
     lock_rank l' < lock_rank l \<and> \<not> (l = LTimer \<and> l' = LIpc) \<and> may_take l ls"
  by (auto simp: may_take_def)

text \<open>Between system calls no lock is held and the order has been kept so far.\<close>

definition lk_clean :: "lock_state \<Rightarrow> bool" where
  "lk_clean ls \<longleftrightarrow> held ls = [] \<and> order_ok ls"

section \<open>Zeroed memory\<close>

text \<open>The state at kernel entry: \<^verbatim>\<open>.bss\<close> cleared by \<^verbatim>\<open>kernel/init/init.c\<close>, no lists, nothing locked.
  \<open>up_cfg\<close> is a single-CPU configuration (RISC-V with power-of-two protection regions, 1 kHz tick).\<close>

definition msg_zero :: ulmk_msg where
  "msg_zero = \<lparr>label = 0, words = replicate 6 0\<rparr>"

definition thread_zero :: ulmk_thread where
  "thread_zero = \<lparr>stack_base = NULL, stack_size = 0, stack_alloc = NULL, priority = 0, cpu = 0,
     saved_prio = 0, state = DEAD, blocked_reason = BLOCKED_NONE, privilege = 0, start_entry = NULL,
     start_arg = NULL, ctx_ready = False, tid = NULL, blocked_ep = NULL, blocked_notif = NULL,
     timeout = \<lparr>expires = 0, cb = CB_NULL\<rparr>, ipc_msg = msg_zero, ipc_sender = NULL,
     ipc_msg_outptr = NULL, ipc_sender_outptr = NULL, notif_bits_outptr = NULL,
     rn_result_outptr = NULL, notif_wait_mask = 0, notif_received = 0, block_status = 0,
     syscall_wake_ret = 0, syscall_wake_ret_valid = False,
     stack_region = \<lparr>r_base = NULL, r_size = 0, r_perms = 0, r_type = 0\<rparr>,
     areas = \<lparr>as_list = [], as_count = 0\<rparr>, cap_flags = 0\<rparr>"

definition binding_zero :: irq_binding where
  "binding_zero = \<lparr>b_srpn = 0, b_notif = NULL, b_bit = 0, b_enabled = False, b_attach_fn = NULL,
     b_attach_data = NULL, b_owner = NULL, b_owned_notif = False\<rparr>"

definition kzero :: "kconfig \<Rightarrow> kstate" where
  "kzero c = \<lparr>cfg = c, cpu_id = 0, tcb = (\<lambda>_. thread_zero), rqs = q_nil, rq_bitmap = (\<lambda>_ _. 0),
     ipcq = q_nil, regq = q_nil, reg_inited = False, tmq = q_nil,
     wheels = (\<lambda>_. \<lparr>clk = 0, pending = (\<lambda>_. 0)\<rparr>), percpu = (\<lambda>_. percpu_zero), sched_class = None,
     eps = (\<lambda>_. \<lparr>ep_id = NULL, ep_active = False\<rparr>),
     notifs = (\<lambda>_. \<lparr>n_id = NULL, n_active = False, n_bits = 0, waiter = NULL, wait_mask = 0\<rparr>),
     irq_table = replicate 16 binding_zero,
     ars = (\<lambda>_. \<lparr>ar_parent = NULL, ar_children = [], ar_set = NULL,
       ar_base = NULL, ar_size = 0, ar_perms = 0, ar_type = 0, ar_flags = 0\<rparr>),
     heap = \<lparr>fl_bitmap = 0, sl_bitmap = (\<lambda>_. 0), free_lists = (\<lambda>_ _. NULL), free_bytes = 0,
       blkmem = (\<lambda>_. \<lparr>prev_phys = NULL, bsize = 0, flags = 0, next_free = NULL, prev_free = NULL\<rparr>)\<rparr>,
     umsg = (\<lambda>_. msg_zero), uword = (\<lambda>_. 0),
     urn = (\<lambda>_. \<lparr>rn_msg = msg_zero, rn_sender = NULL, rn_notif_bits = 0, rn_is_notif = 0\<rparr>),
     uargs = (\<lambda>_. \<lparr>ra_reply = NULL, ra_next = NULL, ra_next_sender = NULL\<rparr>),
     uattr = (\<lambda>_. \<lparr>at_entry = NULL, at_arg = NULL, at_priority = 0, at_stack_size = 0,
       at_privilege = 0, at_caps = 0, at_cpu = 0\<rparr>),
     tick_started = False, lk = \<lparr>held = [], order_ok = True\<rparr>, trace = [], hang = False\<rparr>"

definition up_cfg :: kconfig where
  "up_cfg = \<lparr>smp = False, nr_cpus = 1, tick_hz = 1000, wheel_cpu = (\<lambda>_. 0), mpu_win_pow2 = True,
     mpu_win_min = 64, mpu_win_max = None, region_align = 64, kstack_size = 0,
     ctx_on_affinity_cpu = False, isr_preempt_deferred = False, irq_attach_enabled = False,
     board_irq_ctrl = False, has_cache = False, sizeof_thread = 320, sizeof_endpoint = 24,
     sizeof_notif = 20, sizeof_area = 40, arch_mpu_load = (\<lambda>_. True), attach_call = (\<lambda>_ _. True)\<rparr>"

lemma kzero_simps [simp]:
  "cfg (kzero c) = c"
  "cpu_id (kzero c) = 0"
  "tcb (kzero c) = (\<lambda>_. thread_zero)"
  "rqs (kzero c) = q_nil"
  "rq_bitmap (kzero c) = (\<lambda>_ _. 0)"
  "ipcq (kzero c) = q_nil"
  "regq (kzero c) = q_nil"
  "reg_inited (kzero c) = False"
  "tmq (kzero c) = q_nil"
  "wheels (kzero c) = (\<lambda>_. \<lparr>clk = 0, pending = (\<lambda>_. 0)\<rparr>)"
  "percpu (kzero c) = (\<lambda>_. percpu_zero)"
  "sched_class (kzero c) = None"
  "eps (kzero c) = (\<lambda>_. \<lparr>ep_id = NULL, ep_active = False\<rparr>)"
  "notifs (kzero c) = (\<lambda>_. \<lparr>n_id = NULL, n_active = False, n_bits = 0, waiter = NULL, wait_mask = 0\<rparr>)"
  "irq_table (kzero c) = replicate 16 binding_zero"
  "ars (kzero c) = (\<lambda>_. \<lparr>ar_parent = NULL, ar_children = [], ar_set = NULL, ar_base = NULL, ar_size = 0, ar_perms = 0, ar_type = 0, ar_flags = 0\<rparr>)"
  "heap (kzero c) = \<lparr>fl_bitmap = 0, sl_bitmap = (\<lambda>_. 0), free_lists = (\<lambda>_ _. NULL), free_bytes = 0, blkmem = (\<lambda>_. \<lparr>prev_phys = NULL, bsize = 0, flags = 0, next_free = NULL, prev_free = NULL\<rparr>)\<rparr>"
  "umsg (kzero c) = (\<lambda>_. msg_zero)"
  "uword (kzero c) = (\<lambda>_. 0)"
  "urn (kzero c) = (\<lambda>_. \<lparr>rn_msg = msg_zero, rn_sender = NULL, rn_notif_bits = 0, rn_is_notif = 0\<rparr>)"
  "uargs (kzero c) = (\<lambda>_. \<lparr>ra_reply = NULL, ra_next = NULL, ra_next_sender = NULL\<rparr>)"
  "uattr (kzero c) = (\<lambda>_. \<lparr>at_entry = NULL, at_arg = NULL, at_priority = 0, at_stack_size = 0, at_privilege = 0, at_caps = 0, at_cpu = 0\<rparr>)"
  "tick_started (kzero c) = False"
  "lk (kzero c) = \<lparr>held = [], order_ok = True\<rparr>"
  "trace (kzero c) = []"
  "hang (kzero c) = False"
  by (simp_all add: kzero_def)

end
