(* ===== verification/Sched_Policy.thy ===== *)
theory Sched_Policy
  imports Kernel_State
begin

text \<open>
  The contract of a scheduling class, \<^verbatim>\<open>ulmk_sched_class_t\<close> of \<^verbatim>\<open>kernel/include/ulmk_sched.h\<close>:
  strict priority (lower value first), first-in first-out within a priority. The locale
  \<open>sched_policy\<close> states it over the ready list of a CPU, \<open>popping_policy\<close> adds that picking a thread
  takes it out of the queue. The lemmas a scheduler needs are proved here once and hold for every
  class that meets the contract (theories Bitmap\_Rt and Fifo\_Rt).
\<close>

section \<open>Stable insertion by priority\<close>

definition prio_insert :: "('a \<Rightarrow> 'b::linorder) \<Rightarrow> 'a \<Rightarrow> 'a list \<Rightarrow> 'a list" where
  "prio_insert f x xs = takeWhile (\<lambda>y. f y \<le> f x) xs @ x # dropWhile (\<lambda>y. f y \<le> f x) xs"

abbreviation prio_sorted :: "('a \<Rightarrow> 'b::linorder) \<Rightarrow> 'a list \<Rightarrow> bool" where
  "prio_sorted f xs \<equiv> sorted (map f xs)"

lemma set_prio_insert [simp]: "set (prio_insert f x xs) = insert x (set xs)"
proof -
  have "set (takeWhile P xs) \<union> set (dropWhile P xs) = set xs" for P
    by (metis set_append takeWhile_dropWhile_id)
  then show ?thesis by (auto simp: prio_insert_def)
qed

lemma prio_insert_Cons:
  "prio_insert f x (y # ys) = (if f y \<le> f x then y # prio_insert f x ys else x # y # ys)"
  by (simp add: prio_insert_def)

lemma prio_insert_Nil [simp]: "prio_insert f x [] = [x]"
  by (simp add: prio_insert_def)

lemma prio_sorted_insert: "prio_sorted f xs \<Longrightarrow> prio_sorted f (prio_insert f x xs)"
  by (induction xs) (auto simp: prio_insert_Cons)

lemma prio_insert_append:
  assumes "\<forall>y\<in>set xs. f y \<le> f x" and "\<forall>y\<in>set ys. f x < f y"
  shows "prio_insert f x (xs @ ys) = xs @ x # ys"
  using assms by (cases ys) (auto simp: prio_insert_def takeWhile_append2 dropWhile_append2)

text \<open>Among equals the new element comes last.\<close>

lemma prio_insert_stable:
  "prio_sorted f xs \<Longrightarrow> [y \<leftarrow> prio_insert f x xs. f y = p] =
     (if f x = p then [y \<leftarrow> xs. f y = p] @ [x] else [y \<leftarrow> xs. f y = p])"
proof (induction xs)
  case (Cons y ys)
  have "[z \<leftarrow> ys. f z = f x] = []" if "f x < f y"
    using that Cons.prems by (auto simp: filter_empty_conv)
  with Cons show ?case by (auto simp: prio_insert_Cons)
qed simp

section \<open>The contract\<close>

definition th_prio :: "kstate \<Rightarrow> addr \<Rightarrow> nat" where
  "th_prio s t = unat (priority (tcb s t))"

definition rq_of_cpu :: "u8 \<Rightarrow> kstate \<Rightarrow> nat" where
  "rq_of_cpu c s = (if unat c \<ge> nr_cpus (cfg s) then 0 else unat c)"

definition th_rq :: "kstate \<Rightarrow> addr \<Rightarrow> nat" where
  "th_rq s t = rq_of_cpu (cpu (tcb s t)) s"

definition local_rq :: "kstate \<Rightarrow> nat" where
  "local_rq s = rq_of_cpu (word_of_nat (cpu_id s)) s"

definition head_or_null :: "addr list \<Rightarrow> addr" where
  "head_or_null xs = (case xs of [] \<Rightarrow> NULL | x # _ \<Rightarrow> x)"

locale sched_policy =
  fixes inv :: "kstate \<Rightarrow> bool"
    and ready :: "kstate \<Rightarrow> nat \<Rightarrow> addr list"
    and enqueue :: "addr \<Rightarrow> kstate \<Rightarrow> kstate"
    and dequeue :: "addr \<Rightarrow> kstate \<Rightarrow> kstate"
    and pick_next :: "kstate \<Rightarrow> addr \<times> kstate"
    and peek_next :: "kstate \<Rightarrow> addr \<times> kstate"
  assumes ready_sorted: "inv s \<Longrightarrow> prio_sorted (th_prio s) (ready s c)"
    and ready_distinct: "inv s \<Longrightarrow> distinct (ready s c)"
    and enqueue_ready: "inv s \<Longrightarrow> t \<noteq> NULL \<Longrightarrow> \<not> q_linked t (rqs s) \<Longrightarrow>
      ready (enqueue t s) = (ready s)(th_rq s t := prio_insert (th_prio s) t (ready s (th_rq s t)))"
    and enqueue_inv: "inv s \<Longrightarrow> t \<noteq> NULL \<Longrightarrow> \<not> q_linked t (rqs s) \<Longrightarrow> inv (enqueue t s)"
    and enqueue_tcb: "tcb (enqueue t s) = (tcb s)(t := (tcb s t)\<lparr>state := READY\<rparr>)"
    and dequeue_ready: "inv s \<Longrightarrow> ready (dequeue t s) c = remove1 t (ready s c)"
    and dequeue_inv: "inv s \<Longrightarrow> inv (dequeue t s)"
    and dequeue_tcb: "tcb (dequeue t s) = tcb s"
    and dequeue_unlinked: "inv s \<Longrightarrow> \<not> q_linked t (rqs (dequeue t s))"
    and keeps_cfg: "cfg (enqueue t s) = cfg s" "cfg (dequeue t s) = cfg s"
    and peek: "inv s \<Longrightarrow> fst (peek_next s) = head_or_null (ready s (local_rq s))"
    and pick: "inv s \<Longrightarrow> fst (pick_next s) = head_or_null (ready s (local_rq s))"
begin

text \<open>The thread that runs next has the highest priority of the ready threads.\<close>

lemma pick_highest:
  assumes "inv s" and "t \<in> set (ready s (local_rq s))"
  shows "fst (pick_next s) \<in> set (ready s (local_rq s)) \<and> th_prio s (fst (pick_next s)) \<le> th_prio s t"
  using pick [OF assms(1)] ready_sorted [OF assms(1), of "local_rq s"] assms(2)
  by (cases "ready s (local_rq s)") (auto simp: head_or_null_def)

text \<open>Yielding, dequeue then enqueue, moves a thread behind every other thread of its priority and
  keeps the order of the others.\<close>

lemma rotate:
  assumes "inv s" and "t \<in> set (ready s c)" and "c = th_rq s t" and "t \<noteq> NULL"
  shows "[u \<leftarrow> ready (enqueue t (dequeue t s)) c. th_prio s u = th_prio s t]
    = [u \<leftarrow> ready s c. th_prio s u = th_prio s t \<and> u \<noteq> t] @ [t]"
proof -
  let ?s = "dequeue t s"
  have prio: "th_prio ?s = th_prio s" "th_rq ?s t = c"
    using assms(3) by (auto simp: th_prio_def th_rq_def rq_of_cpu_def dequeue_tcb keeps_cfg fun_eq_iff)
  have inv': "inv ?s" and unl: "\<not> q_linked t (rqs ?s)"
    using dequeue_inv [OF assms(1)] dequeue_unlinked [OF assms(1)] by auto
  have r: "ready ?s c = [u \<leftarrow> ready s c. u \<noteq> t]"
    using dequeue_ready [OF assms(1), of t c] distinct_remove1_removeAll [OF ready_distinct [OF assms(1)]]
    by (simp add: removeAll_filter_not_eq) (metis (mono_tags, lifting) filter_cong)
  have "ready (enqueue t ?s) c = prio_insert (th_prio s) t (ready ?s c)"
    using enqueue_ready [OF inv' assms(4) unl] by (simp add: prio)
  then show ?thesis
    using prio_insert_stable [of "th_prio s" "ready ?s c" "th_prio s t" t] ready_sorted [OF inv', of c]
    by (simp add: prio r conj_commute)
qed

end

text \<open>A class whose \<^verbatim>\<open>pick_next\<close> takes the thread out of the queue.\<close>

locale popping_policy = sched_policy +
  assumes pick_ready: "inv s \<Longrightarrow>
      ready (snd (pick_next s)) = (ready s)(local_rq s := tl (ready s (local_rq s)))"
    and pick_inv: "inv s \<Longrightarrow> inv (snd (pick_next s))"
    and pick_tcb: "tcb (snd (pick_next s)) = tcb s"
begin

text \<open>A picked thread is not ready any more, and picking serves the whole queue in order.\<close>

lemma pick_drains:
  assumes "inv s"
  shows "fst (pick_next s) \<notin> set (ready (snd (pick_next s)) (local_rq s))
    \<or> ready s (local_rq s) = []"
  using pick [OF assms] pick_ready [OF assms] ready_distinct [OF assms, of "local_rq s"]
  by (cases "ready s (local_rq s)") (auto simp: head_or_null_def)

end

end
