(* ===== verification/Bitmap_Rt.thy ===== *)
theory Bitmap_Rt
  imports Sched_Policy
begin

text \<open>
  The default scheduling class, \<^verbatim>\<open>kernel/sched/bitmap_rt.c\<close>: per CPU, 256 FIFO lists and a 256-bit
  map of the non-empty ones, searched with count-leading-zeros. \<open>bm_inv\<close> is its invariant (a bit is
  set exactly for a non-empty level, a thread sits in the level of its CPU and priority);
  interpretation \<open>bitmap_rt\<close> shows that the O(1) structure implements the priority-ordered ready list
  of the contract.
\<close>

section \<open>The run queue\<close>

abbreviation BITMAP_WORDS :: nat where "BITMAP_WORDS \<equiv> 8"

definition bitmap_first_set :: "(nat \<Rightarrow> u32) \<Rightarrow> nat" where
  "bitmap_first_set bm =
     (case find (\<lambda>i. bm i \<noteq> 0) [0..<BITMAP_WORDS] of
        None \<Rightarrow> 255
      | Some i \<Rightarrow> i * 32 + (31 - ulmk_arch_cpu_clz (bm i AND - bm i)))"

definition bitmap_set :: "nat \<Rightarrow> u8 \<Rightarrow> kstate \<Rightarrow> kstate" where
  "bitmap_set c prio s =
     (let w = unat (drop_bit 5 prio)
      in s\<lparr>rq_bitmap := (rq_bitmap s)(c := (rq_bitmap s c)(w :=
           rq_bitmap s c w OR push_bit (unat (prio AND 31)) 1))\<rparr>)"

definition bitmap_clear :: "nat \<Rightarrow> u8 \<Rightarrow> kstate \<Rightarrow> kstate" where
  "bitmap_clear c prio s =
     (let w = unat (drop_bit 5 prio)
      in s\<lparr>rq_bitmap := (rq_bitmap s)(c := (rq_bitmap s c)(w :=
           rq_bitmap s c w AND NOT (push_bit (unat (prio AND 31)) 1)))\<rparr>)"

definition bitmap_rt_init :: "kstate \<Rightarrow> kstate" where
  "bitmap_rt_init s =
     fold (\<lambda>c s.
         let s = s\<lparr>rq_bitmap := (rq_bitmap s)(c := (\<lambda>i. if i < BITMAP_WORDS then 0 else rq_bitmap s c i))\<rparr>
         in upd_rqs (fold (\<lambda>i. q_init (RqLevel c i)) [0..<256]) s)
       [0..<nr_cpus (cfg s)] s"

definition bitmap_rt_enqueue :: "addr \<Rightarrow> kstate \<Rightarrow> kstate" where
  "bitmap_rt_enqueue t s =
     (let s = lock LRq s;
          c = rq_of_cpu (cpu (tcb s t)) s;
          p = priority (tcb s t);
          s = (if \<not> q_linked t (rqs s)
               then bitmap_set c p (upd_rqs (q_append (RqLevel c (unat p)) t) s)
               else s);
          s = upd_tcb t (\<lambda>x. x\<lparr>state := READY\<rparr>) s
      in unlock LRq s)"

definition bitmap_rt_dequeue :: "addr \<Rightarrow> kstate \<Rightarrow> kstate" where
  "bitmap_rt_dequeue t s =
     (let s = lock LRq s;
          c = rq_of_cpu (cpu (tcb s t)) s;
          p = priority (tcb s t);
          s = (if q_linked t (rqs s)
               then let s = upd_rqs (q_remove t) s
                    in (if q_empty (RqLevel c (unat p)) (rqs s) then bitmap_clear c p s else s)
               else s)
      in unlock LRq s)"

definition bitmap_rt_pick_next :: "kstate \<Rightarrow> addr \<times> kstate" where
  "bitmap_rt_pick_next s =
     (let s = lock LRq s;
          c = rq_of_cpu (word_of_nat (cpu_id s)) s;
          p = bitmap_first_set (rq_bitmap s c)
      in case q_get (RqLevel c p) (rqs s) of
           (None, _) \<Rightarrow> (NULL, unlock LRq s)
         | (Some t, q) \<Rightarrow>
             (let s = s\<lparr>rqs := q\<rparr>;
                  s = (if q_empty (RqLevel c p) (rqs s) then bitmap_clear c (word_of_nat p) s else s)
              in (t, unlock LRq s)))"

definition bitmap_rt_peek_next :: "kstate \<Rightarrow> addr \<times> kstate" where
  "bitmap_rt_peek_next s =
     (let s = lock LRq s;
          c = rq_of_cpu (word_of_nat (cpu_id s)) s;
          p = bitmap_first_set (rq_bitmap s c)
      in (case q_peek (RqLevel c p) (rqs s) of None \<Rightarrow> NULL | Some t \<Rightarrow> t, unlock LRq s))"

section \<open>The bitmap\<close>

definition rq_bit :: "(nat \<Rightarrow> u32) \<Rightarrow> nat \<Rightarrow> bool" where
  "rq_bit bm p \<longleftrightarrow> bit (bm (p div 32)) (p mod 32)"

lemma unat_prio_split: "unat (drop_bit 5 p) = unat p div 32" "unat (p AND 31) = unat p mod 32" for p :: u8
proof -
  show "unat (drop_bit 5 p) = unat p div 32" by (simp only: unat_drop_bit_eq) (simp add: drop_bit_eq_div)
  have "p AND 31 = take_bit 5 p" by (simp add: take_bit_eq_mask mask_eq_exp_minus_1)
  then show "unat (p AND 31) = unat p mod 32" by (simp add: take_bit_eq_mod unat_mod)
qed

lemma div_mod_32_eq: "p div 32 = q div 32 \<and> p mod 32 = q mod 32 \<longleftrightarrow> p = q" for p q :: nat
  by (metis div_mult_mod_eq)

lemma rq_bit_set:
  "rq_bit (rq_bitmap (bitmap_set c pr s) c') q \<longleftrightarrow> rq_bit (rq_bitmap s c') q \<or> (c' = c \<and> q = unat pr)"
  using div_mod_32_eq [of q "unat pr"]
  by (auto simp: bitmap_set_def rq_bit_def unat_prio_split bit_set_pow Let_def)

lemma rq_bit_clear:
  "rq_bit (rq_bitmap (bitmap_clear c pr s) c') q \<longleftrightarrow> rq_bit (rq_bitmap s c') q \<and> \<not> (c' = c \<and> q = unat pr)"
  using div_mod_32_eq [of q "unat pr"]
  by (auto simp: bitmap_clear_def rq_bit_def unat_prio_split bit_clear_pow Let_def)

lemma first_set_least:
  assumes "rq_bit bm q" and "q < 256"
  shows "bitmap_first_set bm < 256" "rq_bit bm (bitmap_first_set bm)" "bitmap_first_set bm \<le> q"
proof -
  have nz: "bm (q div 32) \<noteq> 0" and q8: "q div 32 < 8" using assms by (auto simp: rq_bit_def)
  obtain i where i: "find (\<lambda>i. bm i \<noteq> 0) [0..<8] = Some i"
  proof (cases "find (\<lambda>i. bm i \<noteq> 0) [0..<8]")
    case None
    with nz q8 show ?thesis by (auto simp: find_None_iff)
  qed (use that in blast)
  then have i8: "i < 8" and bi: "bm i \<noteq> 0" and before: "\<And>j. j < i \<Longrightarrow> bm j = 0"
    by (auto simp: find_Some_iff)
  let ?k = "ctz32 (bm i)"
  note k = ctz32_props [OF bi]
  have p: "bitmap_first_set bm = i * 32 + ?k"
    by (simp add: bitmap_first_set_def i clz_isolate_lowest [OF bi])
  have div: "(i * 32 + ?k) div 32 = i" "(i * 32 + ?k) mod 32 = ?k" using k(1) by simp_all
  show "bitmap_first_set bm < 256" using p k(1) i8 by simp
  show "rq_bit bm (bitmap_first_set bm)" using k(1,2) by (simp add: p rq_bit_def)
  have iq: "i \<le> q div 32" using before nz by (meson not_le)
  show "bitmap_first_set bm \<le> q"
  proof (cases "i = q div 32")
    case True
    then have "?k \<le> q mod 32" using assms(1) k(3) by (metis not_le rq_bit_def)
    then show ?thesis using True p by (metis add_le_cancel_left div_mult_mod_eq)
  next
    case False
    with iq have "Suc i \<le> q div 32" by simp
    then have "Suc i * 32 \<le> q" by (metis div_mult_mod_eq mult_le_mono1 trans_le_add1)
    then show ?thesis using p k(1) by simp
  qed
qed

lemma first_set_none:
  assumes "\<And>q. q < 256 \<Longrightarrow> \<not> rq_bit bm q"
  shows "bitmap_first_set bm = 255"
proof -
  have "bm i = 0" if "i < 8" for i
  proof (rule bit_word_eqI)
    fix n assume "n < LENGTH(32)"
    then have n: "n < 32" by simp
    then have d: "(i * 32 + n) div 32 = i" "(i * 32 + n) mod 32 = n" by simp_all
    have "i * 32 + n < 256" using that n by simp
    from assms [OF this] show "bit (bm i) n = bit (0::u32) n" using n by (simp add: rq_bit_def)
  qed
  then have "find (\<lambda>i. bm i \<noteq> 0) [0..<8] = None" by (auto simp: find_None_iff)
  then show ?thesis by (simp add: bitmap_first_set_def)
qed

section \<open>Levels as one ordered list\<close>

lemma set_levels: "x \<in> set (concat (map L [m..<n])) \<longleftrightarrow> (\<exists>q. m \<le> q \<and> q < n \<and> x \<in> set (L q))"
  by auto

lemma levels_sorted:
  assumes "\<And>p x. x \<in> set (L p) \<Longrightarrow> f x = p"
  shows "sorted (map f (concat (map L [0..<n])))"
proof (induction n)
  case (Suc n)
  have "map f (L n) = map (\<lambda>_. n) (L n)" by (rule map_cong) (simp_all add: assms)
  then have "sorted (map f (L n))" by (simp add: map_replicate_const)
  moreover have "f x \<le> n" if "x \<in> set (concat (map L [0..<n]))" for x
    using that assms by (auto simp: set_levels simp del: set_concat)
  ultimately show ?case using Suc assms by (simp add: sorted_append del: set_concat)
qed simp

lemma levels_distinct:
  assumes "\<And>p. distinct (L p)" and "\<And>p q x. x \<in> set (L p) \<Longrightarrow> x \<in> set (L q) \<Longrightarrow> p = q"
  shows "distinct (concat (map L [0..<n]))"
proof (induction n)
  case (Suc n)
  have "x \<notin> set (L n)" if "x \<in> set (concat (map L [0..<n]))" for x
    using that assms(2) [of x _ n] by (auto simp: set_levels simp del: set_concat)
  then have "set (concat (map L [0..<n])) \<inter> set (L n) = {}" by blast
  with Suc assms(1) [of n] show ?case by (simp del: set_concat)
qed simp

lemma upt_split: "p < n \<Longrightarrow> [0..<n] = [0..<p] @ p # [Suc p..<n]"
  by (metis less_imp_le_nat upt_add_eq_append le_add_diff_inverse upt_conv_Cons zero_le)

lemma map_upd_upt [simp]:
  "map (L(p := v)) [0..<p] = map L [0..<p]" "map (L(p := v)) [Suc p..<n] = map L [Suc p..<n]"
  by auto

lemma levels_insert:
  assumes "\<And>q x. x \<in> set (L q) \<Longrightarrow> f x = q" and "f t = p" and "p < n"
  shows "concat (map (L(p := L p @ [t])) [0..<n]) = prio_insert f t (concat (map L [0..<n]))"
proof -
  let ?A = "concat (map L [0..<p]) @ L p" and ?B = "concat (map L [Suc p..<n])"
  have "concat (map L [0..<n]) = ?A @ ?B" by (simp add: upt_split [OF assms(3)])
  moreover have "prio_insert f t (?A @ ?B) = ?A @ t # ?B"
  proof (rule prio_insert_append)
    show "\<forall>y\<in>set ?A. f y \<le> f t" using assms(1,2) by (auto simp: set_levels simp del: set_concat)
    show "\<forall>y\<in>set ?B. f t < f y" using assms(1,2) by (auto simp: set_levels simp del: set_concat)
  qed
  ultimately show ?thesis by (simp add: upt_split [OF assms(3)])
qed

lemma levels_remove:
  assumes "\<And>q. q \<noteq> p \<Longrightarrow> t \<notin> set (L q)" and "p < n"
  shows "concat (map (L(p := remove1 t (L p))) [0..<n]) = remove1 t (concat (map L [0..<n]))"
proof -
  have "t \<notin> set (concat (map L [0..<p]))" "t \<notin> set (concat (map L [Suc p..<n]))"
    using assms(1) by (auto simp: set_levels simp del: set_concat)
  then show ?thesis
    by (simp add: upt_split [OF assms(2)] remove1_append remove1_idem)
qed

lemma levels_first:
  assumes "\<And>q. q < p \<Longrightarrow> L q = []" and "p < n"
  shows "concat (map L [0..<n]) = L p @ concat (map L [Suc p..<n])"
  using assms by (simp add: upt_split [OF assms(2)])

section \<open>The invariant\<close>

definition bm_inv :: "kstate \<Rightarrow> bool" where
  "bm_inv s \<longleftrightarrow> 0 < nr_cpus (cfg s) \<and> q_wf (rqs s) \<and>
     (\<forall>c p. c < nr_cpus (cfg s) \<longrightarrow> p < 256 \<longrightarrow>
        (rq_bit (rq_bitmap s c) p \<longleftrightarrow> \<not> q_empty (RqLevel c p) (rqs s))) \<and>
     (\<forall>t h. link (rqs s) t = Some h \<longrightarrow> t \<noteq> NULL \<and> h = RqLevel (th_rq s t) (th_prio s t))"

definition rq_ready :: "kstate \<Rightarrow> nat \<Rightarrow> addr list" where
  "rq_ready s c = concat (map (\<lambda>p. q_of (rqs s) (RqLevel c p)) [0..<256])"

lemma bitmap_set_frame [simp]:
  "cfg (bitmap_set c p s) = cfg s" "cpu_id (bitmap_set c p s) = cpu_id s"
  "tcb (bitmap_set c p s) = tcb s" "rqs (bitmap_set c p s) = rqs s"
  "ipcq (bitmap_set c p s) = ipcq s" "regq (bitmap_set c p s) = regq s"
  "reg_inited (bitmap_set c p s) = reg_inited s" "tmq (bitmap_set c p s) = tmq s"
  "wheels (bitmap_set c p s) = wheels s" "percpu (bitmap_set c p s) = percpu s"
  "sched_class (bitmap_set c p s) = sched_class s" "eps (bitmap_set c p s) = eps s"
  "notifs (bitmap_set c p s) = notifs s" "irq_table (bitmap_set c p s) = irq_table s"
  "ars (bitmap_set c p s) = ars s" "heap (bitmap_set c p s) = heap s"
  "umsg (bitmap_set c p s) = umsg s" "uword (bitmap_set c p s) = uword s"
  "urn (bitmap_set c p s) = urn s" "uargs (bitmap_set c p s) = uargs s"
  "uattr (bitmap_set c p s) = uattr s" "tick_started (bitmap_set c p s) = tick_started s"
  "lk (bitmap_set c p s) = lk s" "trace (bitmap_set c p s) = trace s"
  "hang (bitmap_set c p s) = hang s"
  by (simp_all add: bitmap_set_def Let_def)

lemma bitmap_clear_frame [simp]:
  "cfg (bitmap_clear c p s) = cfg s" "cpu_id (bitmap_clear c p s) = cpu_id s"
  "tcb (bitmap_clear c p s) = tcb s" "rqs (bitmap_clear c p s) = rqs s"
  "ipcq (bitmap_clear c p s) = ipcq s" "regq (bitmap_clear c p s) = regq s"
  "reg_inited (bitmap_clear c p s) = reg_inited s" "tmq (bitmap_clear c p s) = tmq s"
  "wheels (bitmap_clear c p s) = wheels s" "percpu (bitmap_clear c p s) = percpu s"
  "sched_class (bitmap_clear c p s) = sched_class s" "eps (bitmap_clear c p s) = eps s"
  "notifs (bitmap_clear c p s) = notifs s" "irq_table (bitmap_clear c p s) = irq_table s"
  "ars (bitmap_clear c p s) = ars s" "heap (bitmap_clear c p s) = heap s"
  "umsg (bitmap_clear c p s) = umsg s" "uword (bitmap_clear c p s) = uword s"
  "urn (bitmap_clear c p s) = urn s" "uargs (bitmap_clear c p s) = uargs s"
  "uattr (bitmap_clear c p s) = uattr s" "tick_started (bitmap_clear c p s) = tick_started s"
  "lk (bitmap_clear c p s) = lk s" "trace (bitmap_clear c p s) = trace s"
  "hang (bitmap_clear c p s) = hang s"
  by (simp_all add: bitmap_clear_def Let_def)

lemma bitmap_rt_enqueue_frame [simp]:
  "cfg (bitmap_rt_enqueue t s) = cfg s" "cpu_id (bitmap_rt_enqueue t s) = cpu_id s"
  "ipcq (bitmap_rt_enqueue t s) = ipcq s" "regq (bitmap_rt_enqueue t s) = regq s"
  "reg_inited (bitmap_rt_enqueue t s) = reg_inited s" "tmq (bitmap_rt_enqueue t s) = tmq s"
  "wheels (bitmap_rt_enqueue t s) = wheels s" "percpu (bitmap_rt_enqueue t s) = percpu s"
  "sched_class (bitmap_rt_enqueue t s) = sched_class s" "eps (bitmap_rt_enqueue t s) = eps s"
  "notifs (bitmap_rt_enqueue t s) = notifs s" "irq_table (bitmap_rt_enqueue t s) = irq_table s"
  "ars (bitmap_rt_enqueue t s) = ars s" "heap (bitmap_rt_enqueue t s) = heap s"
  "umsg (bitmap_rt_enqueue t s) = umsg s" "uword (bitmap_rt_enqueue t s) = uword s"
  "urn (bitmap_rt_enqueue t s) = urn s" "uargs (bitmap_rt_enqueue t s) = uargs s"
  "uattr (bitmap_rt_enqueue t s) = uattr s"
  "tick_started (bitmap_rt_enqueue t s) = tick_started s"
  "trace (bitmap_rt_enqueue t s) = trace s" "hang (bitmap_rt_enqueue t s) = hang s"
  by (simp_all add: bitmap_rt_enqueue_def Let_def)

lemma bitmap_rt_dequeue_frame [simp]:
  "cfg (bitmap_rt_dequeue t s) = cfg s" "cpu_id (bitmap_rt_dequeue t s) = cpu_id s"
  "tcb (bitmap_rt_dequeue t s) = tcb s" "ipcq (bitmap_rt_dequeue t s) = ipcq s"
  "regq (bitmap_rt_dequeue t s) = regq s" "reg_inited (bitmap_rt_dequeue t s) = reg_inited s"
  "tmq (bitmap_rt_dequeue t s) = tmq s" "wheels (bitmap_rt_dequeue t s) = wheels s"
  "percpu (bitmap_rt_dequeue t s) = percpu s"
  "sched_class (bitmap_rt_dequeue t s) = sched_class s" "eps (bitmap_rt_dequeue t s) = eps s"
  "notifs (bitmap_rt_dequeue t s) = notifs s" "irq_table (bitmap_rt_dequeue t s) = irq_table s"
  "ars (bitmap_rt_dequeue t s) = ars s" "heap (bitmap_rt_dequeue t s) = heap s"
  "umsg (bitmap_rt_dequeue t s) = umsg s" "uword (bitmap_rt_dequeue t s) = uword s"
  "urn (bitmap_rt_dequeue t s) = urn s" "uargs (bitmap_rt_dequeue t s) = uargs s"
  "uattr (bitmap_rt_dequeue t s) = uattr s"
  "tick_started (bitmap_rt_dequeue t s) = tick_started s"
  "trace (bitmap_rt_dequeue t s) = trace s" "hang (bitmap_rt_dequeue t s) = hang s"
  by (simp_all add: bitmap_rt_dequeue_def Let_def)

lemma bitmap_rt_pick_frame [simp]:
  "cfg (snd (bitmap_rt_pick_next s)) = cfg s" "cpu_id (snd (bitmap_rt_pick_next s)) = cpu_id s"
  "tcb (snd (bitmap_rt_pick_next s)) = tcb s" "ipcq (snd (bitmap_rt_pick_next s)) = ipcq s"
  "regq (snd (bitmap_rt_pick_next s)) = regq s"
  "reg_inited (snd (bitmap_rt_pick_next s)) = reg_inited s"
  "tmq (snd (bitmap_rt_pick_next s)) = tmq s" "wheels (snd (bitmap_rt_pick_next s)) = wheels s"
  "percpu (snd (bitmap_rt_pick_next s)) = percpu s"
  "sched_class (snd (bitmap_rt_pick_next s)) = sched_class s"
  "eps (snd (bitmap_rt_pick_next s)) = eps s" "notifs (snd (bitmap_rt_pick_next s)) = notifs s"
  "irq_table (snd (bitmap_rt_pick_next s)) = irq_table s"
  "ars (snd (bitmap_rt_pick_next s)) = ars s" "heap (snd (bitmap_rt_pick_next s)) = heap s"
  "umsg (snd (bitmap_rt_pick_next s)) = umsg s" "uword (snd (bitmap_rt_pick_next s)) = uword s"
  "urn (snd (bitmap_rt_pick_next s)) = urn s" "uargs (snd (bitmap_rt_pick_next s)) = uargs s"
  "uattr (snd (bitmap_rt_pick_next s)) = uattr s"
  "tick_started (snd (bitmap_rt_pick_next s)) = tick_started s"
  "trace (snd (bitmap_rt_pick_next s)) = trace s" "hang (snd (bitmap_rt_pick_next s)) = hang s"
  by (simp_all add: bitmap_rt_pick_next_def q_get_def Let_def split: list.splits)

lemma bitmap_rt_peek_frame [simp]:
  "cfg (snd (bitmap_rt_peek_next s)) = cfg s" "cpu_id (snd (bitmap_rt_peek_next s)) = cpu_id s"
  "tcb (snd (bitmap_rt_peek_next s)) = tcb s" "rqs (snd (bitmap_rt_peek_next s)) = rqs s"
  "rq_bitmap (snd (bitmap_rt_peek_next s)) = rq_bitmap s"
  "ipcq (snd (bitmap_rt_peek_next s)) = ipcq s" "regq (snd (bitmap_rt_peek_next s)) = regq s"
  "reg_inited (snd (bitmap_rt_peek_next s)) = reg_inited s"
  "tmq (snd (bitmap_rt_peek_next s)) = tmq s" "wheels (snd (bitmap_rt_peek_next s)) = wheels s"
  "percpu (snd (bitmap_rt_peek_next s)) = percpu s"
  "sched_class (snd (bitmap_rt_peek_next s)) = sched_class s"
  "eps (snd (bitmap_rt_peek_next s)) = eps s" "notifs (snd (bitmap_rt_peek_next s)) = notifs s"
  "irq_table (snd (bitmap_rt_peek_next s)) = irq_table s"
  "ars (snd (bitmap_rt_peek_next s)) = ars s" "heap (snd (bitmap_rt_peek_next s)) = heap s"
  "umsg (snd (bitmap_rt_peek_next s)) = umsg s" "uword (snd (bitmap_rt_peek_next s)) = uword s"
  "urn (snd (bitmap_rt_peek_next s)) = urn s" "uargs (snd (bitmap_rt_peek_next s)) = uargs s"
  "uattr (snd (bitmap_rt_peek_next s)) = uattr s"
  "tick_started (snd (bitmap_rt_peek_next s)) = tick_started s"
  "trace (snd (bitmap_rt_peek_next s)) = trace s" "hang (snd (bitmap_rt_peek_next s)) = hang s"
  by (simp_all add: bitmap_rt_peek_next_def Let_def)

lemma rq_of_cpu_frame:
  "cfg s' = cfg s \<Longrightarrow> rq_of_cpu c s' = rq_of_cpu c s"
  by (simp add: rq_of_cpu_def)

lemma bitmap_rt_enqueue_tcb [simp]:
  "tcb (bitmap_rt_enqueue t s) = (tcb s)(t := (tcb s t)\<lparr>state := READY\<rparr>)"
  by (simp add: bitmap_rt_enqueue_def Let_def)

lemma bitmap_rt_enqueue_rqs:
  "rqs (bitmap_rt_enqueue t s) =
     (if q_linked t (rqs s) then rqs s else q_append (RqLevel (th_rq s t) (th_prio s t)) t (rqs s))"
  by (simp add: bitmap_rt_enqueue_def Let_def th_rq_def th_prio_def rq_of_cpu_def)

lemma bitmap_rt_dequeue_rqs: "rqs (bitmap_rt_dequeue t s) = q_remove t (rqs s)"
  by (simp add: bitmap_rt_dequeue_def Let_def) (simp add: q_remove_def)

lemma bitmap_rt_lk [simp]:
  "lk (bitmap_rt_enqueue t s) = touch LRq (lk s)"
  "lk (bitmap_rt_dequeue t s) = touch LRq (lk s)"
  "lk (snd (bitmap_rt_pick_next s)) = touch LRq (lk s)"
  "lk (snd (bitmap_rt_peek_next s)) = touch LRq (lk s)"
  by (simp_all add: bitmap_rt_enqueue_def bitmap_rt_dequeue_def bitmap_rt_pick_next_def
      bitmap_rt_peek_next_def q_get_def Let_def split: list.splits)

lemma th_prio_upd:
  "tcb s' = (tcb s)(t := (tcb s t)\<lparr>state := x\<rparr>) \<Longrightarrow> th_prio s' = th_prio s"
  by (auto simp: th_prio_def fun_eq_iff)

lemma th_rq_upd:
  "cfg s' = cfg s \<Longrightarrow> tcb s' = (tcb s)(t := (tcb s t)\<lparr>state := x\<rparr>) \<Longrightarrow> th_rq s' = th_rq s"
  by (auto simp: th_rq_def rq_of_cpu_def fun_eq_iff)

lemma bm_invD:
  assumes "bm_inv s"
  shows "0 < nr_cpus (cfg s)" "q_wf (rqs s)"
    "\<And>c p. c < nr_cpus (cfg s) \<Longrightarrow> p < 256 \<Longrightarrow>
        rq_bit (rq_bitmap s c) p \<longleftrightarrow> \<not> q_empty (RqLevel c p) (rqs s)"
    "\<And>t h. link (rqs s) t = Some h \<Longrightarrow> t \<noteq> NULL \<and> h = RqLevel (th_rq s t) (th_prio s t)"
    "\<And>c p x. x \<in> set (q_of (rqs s) (RqLevel c p)) \<Longrightarrow> x \<noteq> NULL \<and> th_rq s x = c \<and> th_prio s x = p"
  using assms by (auto simp: bm_inv_def q_wf_def)

lemma th_rq_less: "0 < nr_cpus (cfg s) \<Longrightarrow> th_rq s t < nr_cpus (cfg s)"
  and local_rq_less: "0 < nr_cpus (cfg s) \<Longrightarrow> local_rq s < nr_cpus (cfg s)"
  and th_prio_less: "th_prio s t < 256"
  using unsigned_less [of "priority (tcb s t)", where ?'a = nat]
  by (simp_all add: th_rq_def local_rq_def rq_of_cpu_def th_prio_def)

lemma bm_inv_enqueue:
  assumes inv: "bm_inv s" and t: "t \<noteq> NULL" "\<not> q_linked t (rqs s)"
  shows "bm_inv (bitmap_rt_enqueue t s)"
proof -
  note d = bm_invD [OF inv]
  let ?s = "bitmap_rt_enqueue t s"
  have q: "rqs ?s = q_append (RqLevel (th_rq s t) (th_prio s t)) t (rqs s)"
    using t by (simp add: bitmap_rt_enqueue_rqs)
  have th: "th_prio ?s = th_prio s" "th_rq ?s = th_rq s"
    by (auto intro: th_prio_upd th_rq_upd)
  have bits: "rq_bit (rq_bitmap ?s c) p \<longleftrightarrow>
      rq_bit (rq_bitmap s c) p \<or> (c = th_rq s t \<and> p = th_prio s t)" for c p
    using t by (simp add: bitmap_rt_enqueue_def Let_def rq_bit_set th_rq_def th_prio_def rq_of_cpu_def)
  let ?h = "RqLevel (th_rq s t) (th_prio s t)"
  have qof: "q_of (rqs ?s) h' = (if h' = ?h then q_of (rqs s) ?h @ [t] else q_of (rqs s) h')"
    and lnk: "link (rqs ?s) x = (if x = t then Some ?h else link (rqs s) x)" for h' x
    using t by (simp_all add: q q_append_def)
  have "rq_bit (rq_bitmap ?s c) p \<longleftrightarrow> \<not> q_empty (RqLevel c p) (rqs ?s)"
    if "c < nr_cpus (cfg s)" "p < 256" for c p
    using d(3) [OF that] by (auto simp: bits qof)
  with d(1,2,4) t show ?thesis
    unfolding bm_inv_def th by (simp add: q_wf_append q lnk [unfolded q])
qed

lemma bm_inv_dequeue:
  assumes inv: "bm_inv s"
  shows "bm_inv (bitmap_rt_dequeue t s)"
proof (cases "link (rqs s) t")
  case None
  then have "rq_bitmap (bitmap_rt_dequeue t s) = rq_bitmap s" "rqs (bitmap_rt_dequeue t s) = rqs s"
    by (simp_all add: bitmap_rt_dequeue_def Let_def)
  with inv show ?thesis by (simp add: bm_inv_def th_rq_def th_prio_def rq_of_cpu_def)
next
  case (Some h)
  note d = bm_invD [OF inv]
  let ?s = "bitmap_rt_dequeue t s" and ?h = "RqLevel (th_rq s t) (th_prio s t)"
  have h: "h = ?h" using d(4) [OF Some] by simp
  have q: "rqs ?s = q_remove t (rqs s)" by (rule bitmap_rt_dequeue_rqs)
  have th: "th_prio ?s = th_prio s" "th_rq ?s = th_rq s"
    by (auto simp: th_prio_def th_rq_def rq_of_cpu_def fun_eq_iff)
  have bits: "rq_bit (rq_bitmap ?s c) p \<longleftrightarrow> rq_bit (rq_bitmap s c) p \<and>
      \<not> (RqLevel c p = ?h \<and> q_empty ?h (rqs ?s))" for c p
    using Some unfolding q
    by (auto simp: bitmap_rt_dequeue_def Let_def rq_bit_clear th_rq_def th_prio_def rq_of_cpu_def)
  have qof: "q_of (rqs ?s) h' = (if h' = ?h then remove1 t (q_of (rqs s) ?h) else q_of (rqs s) h')" for h'
    using Some h by (simp add: q q_remove_def)
  have tin: "t \<in> set (q_of (rqs s) ?h)" using Some h d(2) by (simp add: q_wf_mem)
  have "rq_bit (rq_bitmap ?s c) p \<longleftrightarrow> \<not> q_empty (RqLevel c p) (rqs ?s)"
    if "c < nr_cpus (cfg s)" "p < 256" for c p
    using d(3) [OF that] tin by (auto simp: bits qof)
  moreover have "link (rqs ?s) x = (if x = t then None else link (rqs s) x)" for x
    using Some by (simp add: q q_remove_def)
  ultimately show ?thesis
    unfolding bm_inv_def th using d(1,2,4) by (simp add: q)
qed

lemma rq_of_cpu_lock [simp]: "rq_of_cpu c (lock l s) = rq_of_cpu c s"
  by (simp add: rq_of_cpu_def)

lemma local_rq_lock [simp]: "local_rq (lock l s) = local_rq s"
  by (simp add: local_rq_def)

section \<open>The class meets the contract\<close>

lemma rq_ready_upd:
  assumes "\<And>c p. q_of (rqs s') (RqLevel c p) =
      (if c = c0 \<and> p = p0 then v else q_of (rqs s) (RqLevel c p))"
  shows "rq_ready s' = (rq_ready s)(c0 :=
      concat (map ((\<lambda>p. q_of (rqs s) (RqLevel c0 p))(p0 := v)) [0..<256]))"
proof
  fix c
  have "(\<lambda>p. q_of (rqs s') (RqLevel c p)) = (if c = c0 then (\<lambda>p. q_of (rqs s) (RqLevel c0 p))(p0 := v)
      else (\<lambda>p. q_of (rqs s) (RqLevel c p)))" for c
    using assms by (auto simp: fun_eq_iff)
  then show "rq_ready s' c = ((rq_ready s)(c0 :=
      concat (map ((\<lambda>p. q_of (rqs s) (RqLevel c0 p))(p0 := v)) [0..<256]))) c"
    by (simp add: rq_ready_def)
qed

lemma bitmap_enqueue_ready:
  assumes inv: "bm_inv s" and t: "t \<noteq> NULL" "\<not> q_linked t (rqs s)"
  shows "rq_ready (bitmap_rt_enqueue t s) =
    (rq_ready s)(th_rq s t := prio_insert (th_prio s) t (rq_ready s (th_rq s t)))"
proof -
  let ?c = "th_rq s t" and ?L = "\<lambda>p. q_of (rqs s) (RqLevel (th_rq s t) p)"
  have "rq_ready (bitmap_rt_enqueue t s) = (rq_ready s)(?c :=
      concat (map (?L(th_prio s t := ?L (th_prio s t) @ [t])) [0..<256]))"
    by (rule rq_ready_upd) (use t in \<open>auto simp: bitmap_rt_enqueue_rqs q_append_def\<close>)
  also have "concat (map (?L(th_prio s t := ?L (th_prio s t) @ [t])) [0..<256])
      = prio_insert (th_prio s) t (rq_ready s ?c)"
    unfolding rq_ready_def by (rule levels_insert) (use bm_invD(5) [OF inv] th_prio_less in auto)
  finally show ?thesis .
qed

lemma bitmap_dequeue_ready:
  assumes inv: "bm_inv s"
  shows "rq_ready (bitmap_rt_dequeue t s) c = remove1 t (rq_ready s c)"
proof (cases "link (rqs s) t = Some (RqLevel c (th_prio s t))")
  case True
  let ?L = "\<lambda>p. q_of (rqs s) (RqLevel c p)" and ?p = "th_prio s t"
  have "rq_ready (bitmap_rt_dequeue t s) = (rq_ready s)(c :=
      concat (map (?L(?p := remove1 t (?L ?p))) [0..<256]))"
    by (rule rq_ready_upd) (use True in \<open>auto simp: bitmap_rt_dequeue_rqs q_remove_def\<close>)
  also have "concat (map (?L(?p := remove1 t (?L ?p))) [0..<256]) = remove1 t (rq_ready s c)"
    unfolding rq_ready_def by (rule levels_remove) (use bm_invD(5) [OF inv] th_prio_less in auto)
  finally show ?thesis by simp
next
  case False
  have "t \<notin> set (q_of (rqs s) (RqLevel c p))" for p
    using False bm_invD(2,5) [OF inv] by (auto simp: q_wf_mem)
  then have notin: "t \<notin> set (rq_ready s c)" by (auto simp: rq_ready_def)
  have "q_of (rqs (bitmap_rt_dequeue t s)) (RqLevel c p) = q_of (rqs s) (RqLevel c p)" for p
    using False bm_invD(4) [OF inv, of t]
    by (auto simp: bitmap_rt_dequeue_rqs q_remove_def split: option.splits)
  then have "rq_ready (bitmap_rt_dequeue t s) c = rq_ready s c" by (simp add: rq_ready_def)
  with notin show ?thesis by (simp add: remove1_idem)
qed

text \<open>The level the bitmap search finds holds the head of the ready list.\<close>

lemma first_level:
  assumes inv: "bm_inv s" and c: "c < nr_cpus (cfg s)"
  defines "p \<equiv> bitmap_first_set (rq_bitmap s c)"
  shows "rq_ready s c = q_of (rqs s) (RqLevel c p) @
      concat (map (\<lambda>p. q_of (rqs s) (RqLevel c p)) [Suc p..<256])"
    and "q_empty (RqLevel c p) (rqs s) \<Longrightarrow> rq_ready s c = []"
    and "p < 256"
proof -
  note bits = bm_invD(3) [OF inv c]
  have *: "p < 256 \<and> (\<forall>q<p. q_empty (RqLevel c q) (rqs s)) \<and>
      (q_empty (RqLevel c p) (rqs s) \<longrightarrow> (\<forall>q<256. q_empty (RqLevel c q) (rqs s)))"
  proof (cases "\<exists>q<256. rq_bit (rq_bitmap s c) q")
    case True
    then obtain q where q: "q < 256" "rq_bit (rq_bitmap s c) q" by blast
    note f = first_set_least [OF q(2,1), folded p_def]
    have "q_empty (RqLevel c r) (rqs s)" if "r < p" for r
    proof -
      have "r < 256" using that f(1) by simp
      moreover have "\<not> rq_bit (rq_bitmap s c) r"
        using first_set_least(3) [of "rq_bitmap s c" r] \<open>r < 256\<close> that by (auto simp: p_def)
      ultimately show ?thesis using bits by auto
    qed
    then show ?thesis using f(1,2) bits by auto
  next
    case False
    then have "p = 255" unfolding p_def by (intro first_set_none) auto
    with False bits show ?thesis by auto
  qed
  then show "p < 256" by simp
  show "rq_ready s c = q_of (rqs s) (RqLevel c p) @
      concat (map (\<lambda>p. q_of (rqs s) (RqLevel c p)) [Suc p..<256])"
    unfolding rq_ready_def by (rule levels_first) (use * in auto)
  show "rq_ready s c = []" if "q_empty (RqLevel c p) (rqs s)"
    using * that by (auto simp: rq_ready_def)
qed

lemma bitmap_peek: "bm_inv s \<Longrightarrow> fst (bitmap_rt_peek_next s) = head_or_null (rq_ready s (local_rq s))"
proof -
  assume inv: "bm_inv s"
  note f = first_level [OF inv local_rq_less [OF bm_invD(1) [OF inv]]]
  show ?thesis
  proof (cases "q_of (rqs s) (RqLevel (local_rq s) (bitmap_first_set (rq_bitmap s (local_rq s))))")
    case Nil
    with f(2) show ?thesis
      by (simp add: bitmap_rt_peek_next_def Let_def q_peek_def head_or_null_def local_rq_def [symmetric])
  next
    case (Cons t ts)
    with f(1) show ?thesis
      by (simp add: bitmap_rt_peek_next_def Let_def q_peek_def head_or_null_def local_rq_def [symmetric])
  qed
qed

text \<open>The invariant only depends on the queues, the bitmap and the CPU and priority of the queued
  threads.\<close>

lemma bm_inv_frame:
  assumes "bm_inv s" and "cfg s' = cfg s" "rqs s' = rqs s" "rq_bitmap s' = rq_bitmap s"
    and "\<And>t. q_linked t (rqs s) \<Longrightarrow>
          cpu (tcb s' t) = cpu (tcb s t) \<and> priority (tcb s' t) = priority (tcb s t)"
  shows "bm_inv s'"
  using assms(1,5) unfolding bm_inv_def assms(2-4)
  by (auto simp: th_rq_def th_prio_def rq_of_cpu_def assms(2))

lemma mem_ready: "bm_inv s \<Longrightarrow> x \<in> set (rq_ready s c) \<Longrightarrow> x \<noteq> NULL \<and> th_rq s x = c"
  using bm_invD(5) by (auto simp: rq_ready_def)

lemma bitmap_pick:
  assumes inv: "bm_inv s"
  shows "fst (bitmap_rt_pick_next s) = head_or_null (rq_ready s (local_rq s))" (is ?fst)
    and "snd (bitmap_rt_pick_next s) = (let t = head_or_null (rq_ready s (local_rq s))
        in if t = NULL then s\<lparr>lk := touch LRq (lk s)\<rparr> else bitmap_rt_dequeue t s)" (is ?snd)
proof -
  let ?c = "local_rq s" and ?p = "bitmap_first_set (rq_bitmap s (local_rq s))"
  note f = first_level [OF inv local_rq_less [OF bm_invD(1) [OF inv]]]
  have "?fst \<and> ?snd"
  proof (cases "q_of (rqs s) (RqLevel ?c ?p)")
    case Nil
    with f(2) show ?thesis
      by (simp add: bitmap_rt_pick_next_def Let_def q_get_def head_or_null_def local_rq_def [symmetric])
  next
    case (Cons t ts)
    then have t: "t \<noteq> NULL" "th_rq s t = ?c" "th_prio s t = ?p" "link (rqs s) t = Some (RqLevel ?c ?p)"
      using bm_invD(5) [OF inv, of t ?c ?p] q_wf_mem [OF bm_invD(2) [OF inv], of t "RqLevel ?c ?p"] by auto
    have p: "word_of_nat ?p = priority (tcb s t)" using t(3) by (simp add: th_prio_def flip: t(3))
    have "head_or_null (rq_ready s ?c) = t" using f(1) Cons by (simp add: head_or_null_def)
    then show ?thesis
      using Cons t(1,2,4) p t(3)
      by (simp add: bitmap_rt_pick_next_def bitmap_rt_dequeue_def Let_def q_get_def
          local_rq_def [symmetric] th_rq_def [symmetric] th_prio_def [symmetric] upd_rqs_def)
        (simp add: th_prio_def th_rq_def lock_def unlock_def bitmap_clear_def Let_def rq_of_cpu_def)
  qed
  then show ?fst ?snd by blast+
qed

interpretation bitmap_rt: popping_policy bm_inv rq_ready bitmap_rt_enqueue bitmap_rt_dequeue
  bitmap_rt_pick_next bitmap_rt_peek_next
proof
  fix s t c
  show "prio_sorted (th_prio s) (rq_ready s c)" if "bm_inv s"
    unfolding rq_ready_def by (rule levels_sorted) (use bm_invD(5) [OF that] in blast)
  show "distinct (rq_ready s c)" if "bm_inv s"
    unfolding rq_ready_def
    by (rule levels_distinct) (use bm_invD(2,5) [OF that] in \<open>simp_all add: q_wf_distinct, metis\<close>)
  show "\<not> q_linked t (rqs (bitmap_rt_dequeue t s))" if "bm_inv s"
    by (auto simp: bitmap_rt_dequeue_rqs q_remove_def split: option.splits)
  show "rq_ready (snd (bitmap_rt_pick_next s)) = (rq_ready s)(local_rq s := tl (rq_ready s (local_rq s)))"
    if inv: "bm_inv s"
  proof (cases "rq_ready s (local_rq s)")
    case Nil
    then show ?thesis
      using bitmap_pick(2) [OF inv] by (simp add: head_or_null_def Let_def fun_eq_iff) (simp add: rq_ready_def)
  next
    case (Cons t ts)
    then have t: "t \<noteq> NULL" "th_rq s t = local_rq s"
      using mem_ready [OF inv, of t "local_rq s"] by simp_all
    have "remove1 t (rq_ready s c) = rq_ready s c" if "c \<noteq> local_rq s" for c
      by (rule remove1_idem) (use mem_ready [OF inv, of t c] t(2) that in auto)
    with Cons t(1) show ?thesis
      using bitmap_pick(2) [OF inv] bitmap_dequeue_ready [OF inv, of t]
      by (auto simp: head_or_null_def Let_def fun_eq_iff)
  qed
  show "bm_inv (snd (bitmap_rt_pick_next s))" if inv: "bm_inv s"
    using bitmap_pick(2) [OF inv] bm_inv_dequeue [OF inv] bm_inv_frame [OF inv]
    by (simp add: Let_def)
qed (simp_all add: bitmap_enqueue_ready bm_inv_enqueue bitmap_dequeue_ready bm_inv_dequeue
    bitmap_peek bitmap_pick(1))

end
