(* ===== verification/Fifo_Rt.thy ===== *)
theory Fifo_Rt
  imports Sched_Policy
begin

text \<open>
  The reference scheduling class, \<^verbatim>\<open>kernel/sched/fifo_rt.c\<close>: one list kept in priority order by
  \<^verbatim>\<open>sys_dlist_insert_at\<close>. It meets the same contract as the bitmap class (interpretation \<open>fifo_rt\<close>), for
  the single-CPU configuration it is written for, except that \<^verbatim>\<open>pick_next\<close> leaves the thread queued.
\<close>

definition fifo_prio_cond :: "kstate \<Rightarrow> addr \<Rightarrow> addr \<Rightarrow> bool" where
  "fifo_prio_cond s t n \<longleftrightarrow> priority (tcb s n) > priority (tcb s t)"

definition fifo_rt_init :: "kstate \<Rightarrow> kstate" where
  "fifo_rt_init s = upd_rqs (q_init FifoRq) s"

definition fifo_rt_enqueue :: "addr \<Rightarrow> kstate \<Rightarrow> kstate" where
  "fifo_rt_enqueue t s =
     (let s = upd_rqs (q_insert_at FifoRq t (fifo_prio_cond s t)) s
      in upd_tcb t (\<lambda>x. x\<lparr>state := READY\<rparr>) s)"

definition fifo_rt_dequeue :: "addr \<Rightarrow> kstate \<Rightarrow> kstate" where
  "fifo_rt_dequeue t s = (if \<not> q_linked t (rqs s) then s else upd_rqs (q_remove t) s)"

definition fifo_rt_pick_next :: "kstate \<Rightarrow> addr \<times> kstate" where
  "fifo_rt_pick_next s = (case q_peek FifoRq (rqs s) of None \<Rightarrow> NULL | Some t \<Rightarrow> t, s)"

definition fifo_rt_peek_next :: "kstate \<Rightarrow> addr \<times> kstate" where
  "fifo_rt_peek_next s = (case q_peek FifoRq (rqs s) of None \<Rightarrow> NULL | Some t \<Rightarrow> t, s)"

section \<open>The class meets the contract\<close>

definition fifo_ready :: "kstate \<Rightarrow> nat \<Rightarrow> addr list" where
  "fifo_ready s c = (if c = 0 then q_of (rqs s) FifoRq else [])"

definition fifo_inv :: "kstate \<Rightarrow> bool" where
  "fifo_inv s \<longleftrightarrow> nr_cpus (cfg s) = 1 \<and> q_wf (rqs s) \<and>
     (\<forall>t h. link (rqs s) t = Some h \<longrightarrow> t \<noteq> NULL \<and> h = FifoRq) \<and>
     prio_sorted (th_prio s) (q_of (rqs s) FifoRq)"

lemma fifo_rt_enqueue_frame [simp]:
  "cfg (fifo_rt_enqueue t s) = cfg s" "cpu_id (fifo_rt_enqueue t s) = cpu_id s"
  "rq_bitmap (fifo_rt_enqueue t s) = rq_bitmap s" "ipcq (fifo_rt_enqueue t s) = ipcq s"
  "regq (fifo_rt_enqueue t s) = regq s" "reg_inited (fifo_rt_enqueue t s) = reg_inited s"
  "tmq (fifo_rt_enqueue t s) = tmq s" "wheels (fifo_rt_enqueue t s) = wheels s"
  "percpu (fifo_rt_enqueue t s) = percpu s" "sched_class (fifo_rt_enqueue t s) = sched_class s"
  "eps (fifo_rt_enqueue t s) = eps s" "notifs (fifo_rt_enqueue t s) = notifs s"
  "irq_table (fifo_rt_enqueue t s) = irq_table s" "ars (fifo_rt_enqueue t s) = ars s"
  "heap (fifo_rt_enqueue t s) = heap s" "umsg (fifo_rt_enqueue t s) = umsg s"
  "uword (fifo_rt_enqueue t s) = uword s" "urn (fifo_rt_enqueue t s) = urn s"
  "uargs (fifo_rt_enqueue t s) = uargs s" "uattr (fifo_rt_enqueue t s) = uattr s"
  "tick_started (fifo_rt_enqueue t s) = tick_started s" "lk (fifo_rt_enqueue t s) = lk s"
  "trace (fifo_rt_enqueue t s) = trace s" "hang (fifo_rt_enqueue t s) = hang s"
  by (simp_all add: fifo_rt_enqueue_def Let_def)

lemma fifo_rt_dequeue_frame [simp]:
  "cfg (fifo_rt_dequeue t s) = cfg s" "cpu_id (fifo_rt_dequeue t s) = cpu_id s"
  "tcb (fifo_rt_dequeue t s) = tcb s" "rq_bitmap (fifo_rt_dequeue t s) = rq_bitmap s"
  "ipcq (fifo_rt_dequeue t s) = ipcq s" "regq (fifo_rt_dequeue t s) = regq s"
  "reg_inited (fifo_rt_dequeue t s) = reg_inited s" "tmq (fifo_rt_dequeue t s) = tmq s"
  "wheels (fifo_rt_dequeue t s) = wheels s" "percpu (fifo_rt_dequeue t s) = percpu s"
  "sched_class (fifo_rt_dequeue t s) = sched_class s" "eps (fifo_rt_dequeue t s) = eps s"
  "notifs (fifo_rt_dequeue t s) = notifs s" "irq_table (fifo_rt_dequeue t s) = irq_table s"
  "ars (fifo_rt_dequeue t s) = ars s" "heap (fifo_rt_dequeue t s) = heap s"
  "umsg (fifo_rt_dequeue t s) = umsg s" "uword (fifo_rt_dequeue t s) = uword s"
  "urn (fifo_rt_dequeue t s) = urn s" "uargs (fifo_rt_dequeue t s) = uargs s"
  "uattr (fifo_rt_dequeue t s) = uattr s" "tick_started (fifo_rt_dequeue t s) = tick_started s"
  "lk (fifo_rt_dequeue t s) = lk s" "trace (fifo_rt_dequeue t s) = trace s"
  "hang (fifo_rt_dequeue t s) = hang s"
  by (simp_all add: fifo_rt_dequeue_def)

lemma fifo_insert:
  assumes "\<not> q_linked t (rqs s)"
  shows "q_of (rqs (fifo_rt_enqueue t s)) FifoRq = prio_insert (th_prio s) t (q_of (rqs s) FifoRq)"
    and "link (rqs (fifo_rt_enqueue t s)) = (link (rqs s))(t := Some FifoRq)"
proof -
  have "(\<lambda>x. \<not> fifo_prio_cond s t x) = (\<lambda>x. th_prio s x \<le> th_prio s t)"
    by (auto simp: fifo_prio_cond_def th_prio_def word_less_nat_alt fun_eq_iff)
  then show "q_of (rqs (fifo_rt_enqueue t s)) FifoRq = prio_insert (th_prio s) t (q_of (rqs s) FifoRq)"
    and "link (rqs (fifo_rt_enqueue t s)) = (link (rqs s))(t := Some FifoRq)"
    using assms by (simp_all add: fifo_rt_enqueue_def Let_def q_insert_at_def q_insert_def prio_insert_def
        takeWhile_eq_take [symmetric] dropWhile_eq_drop [symmetric])
qed

lemma fifo_tcb:
  "tcb (fifo_rt_enqueue t s) = (tcb s)(t := (tcb s t)\<lparr>state := READY\<rparr>)" "tcb (fifo_rt_dequeue t s) = tcb s"
  by (simp_all add: fifo_rt_enqueue_def fifo_rt_dequeue_def Let_def)

lemma fifo_dequeue_rqs: "rqs (fifo_rt_dequeue t s) = q_remove t (rqs s)"
  by (simp add: fifo_rt_dequeue_def q_remove_def)

lemma fifo_th:
  "th_prio (fifo_rt_enqueue t s) = th_prio s" "th_prio (fifo_rt_dequeue t s) = th_prio s"
  by (auto simp: th_prio_def fifo_tcb fun_eq_iff)

lemma fifo_dequeue_q:
  assumes "fifo_inv s"
  shows "q_of (rqs (fifo_rt_dequeue t s)) FifoRq = remove1 t (q_of (rqs s) FifoRq)"
proof (cases "link (rqs s) t")
  case None
  with assms have "t \<notin> set (q_of (rqs s) FifoRq)" by (simp add: fifo_inv_def q_wf_mem)
  with None show ?thesis by (simp add: fifo_dequeue_rqs q_remove_def remove1_idem)
next
  case (Some h)
  with assms have "h = FifoRq" by (auto simp: fifo_inv_def)
  with Some show ?thesis by (simp add: fifo_dequeue_rqs q_remove_def)
qed

lemma sorted_map_remove1: "sorted (map f xs) \<Longrightarrow> sorted (map f (remove1 x xs))"
  by (induction xs) (auto dest!: subsetD [OF set_remove1_subset])

interpretation fifo_rt: sched_policy fifo_inv fifo_ready fifo_rt_enqueue fifo_rt_dequeue
  fifo_rt_pick_next fifo_rt_peek_next
proof
  fix s t c
  show "prio_sorted (th_prio s) (fifo_ready s c)" "distinct (fifo_ready s c)" if "fifo_inv s"
    using that by (auto simp: fifo_inv_def fifo_ready_def q_wf_distinct)
  have rq: "th_rq s t = 0" if "fifo_inv s"
    using that by (auto simp: th_rq_def rq_of_cpu_def fifo_inv_def)
  show "fifo_ready (fifo_rt_enqueue t s) =
      (fifo_ready s)(th_rq s t := prio_insert (th_prio s) t (fifo_ready s (th_rq s t)))"
    if "fifo_inv s" "t \<noteq> NULL" "\<not> q_linked t (rqs s)"
    using fifo_insert(1) [OF that(3)] rq [OF that(1)] by (simp add: fifo_ready_def fun_eq_iff)
  show "fifo_inv (fifo_rt_enqueue t s)" if "fifo_inv s" "t \<noteq> NULL" "\<not> q_linked t (rqs s)"
  proof -
    have "q_wf (rqs (fifo_rt_enqueue t s))"
      using that by (simp add: fifo_rt_enqueue_def Let_def fifo_inv_def q_wf_insert_at)
    then show ?thesis
      using that fifo_insert [OF that(3)]
      by (auto simp: fifo_inv_def fifo_th prio_sorted_insert split: if_splits)
  qed
  show "fifo_ready (fifo_rt_dequeue t s) c = remove1 t (fifo_ready s c)" if "fifo_inv s"
    using fifo_dequeue_q [OF that] by (simp add: fifo_ready_def)
  show "fifo_inv (fifo_rt_dequeue t s)" if "fifo_inv s"
  proof -
    have "q_wf (rqs (fifo_rt_dequeue t s))"
      using that by (simp add: fifo_dequeue_rqs q_wf_remove fifo_inv_def)
    moreover have "link (rqs (fifo_rt_dequeue t s)) x = Some h \<Longrightarrow> link (rqs s) x = Some h" for x h
      by (auto simp: fifo_dequeue_rqs q_remove_def split: option.splits if_splits)
    ultimately show ?thesis
      using that fifo_dequeue_q [OF that, of t]
      by (auto simp: fifo_inv_def fifo_th sorted_map_remove1)
  qed
  show "\<not> q_linked t (rqs (fifo_rt_dequeue t s))" if "fifo_inv s"
    by (auto simp: fifo_dequeue_rqs q_remove_def split: option.splits)
  have loc: "local_rq s = 0" if "fifo_inv s"
    using that by (simp add: local_rq_def rq_of_cpu_def fifo_inv_def)
  show "fst (fifo_rt_peek_next s) = head_or_null (fifo_ready s (local_rq s))"
    "fst (fifo_rt_pick_next s) = head_or_null (fifo_ready s (local_rq s))" if "fifo_inv s"
    using loc [OF that]
    by (auto simp: fifo_rt_peek_next_def fifo_rt_pick_next_def fifo_ready_def q_peek_def head_or_null_def
        split: list.splits)
qed (simp_all add: fifo_tcb)

end
