(* ===== verification/Sched.thy ===== *)
theory Sched
  imports Bitmap_Rt Fifo_Rt
begin

text \<open>
  The part of the scheduler core, \<^verbatim>\<open>kernel/sched/sched.c\<close>, that the other components call: dispatch
  through the installed class, the preemption mark left for trap exit, deferred inter-processor
  interrupts, and the running thread. The context switch is in theory Dispatch.
  \<^verbatim>\<open>ulmk_sched_enqueue_locked\<close> and \<^verbatim>\<open>ulmk_sched_dequeue_locked\<close> are aliases of the plain calls.

  A call through a \<^verbatim>\<open>NULL\<close> class pointer does not return (\<open>hang\<close>).
\<close>

section \<open>The class vtable\<close>

definition class_init :: "sched_class_t \<Rightarrow> kstate \<Rightarrow> kstate" where
  "class_init cls s = (case cls of bitmap_rt_class \<Rightarrow> bitmap_rt_init s | fifo_rt_class \<Rightarrow> fifo_rt_init s)"

definition class_enqueue :: "addr \<Rightarrow> kstate \<Rightarrow> kstate" where
  "class_enqueue t s = (case sched_class s of
       Some bitmap_rt_class \<Rightarrow> bitmap_rt_enqueue t s
     | Some fifo_rt_class \<Rightarrow> fifo_rt_enqueue t s
     | None \<Rightarrow> s\<lparr>hang := True\<rparr>)"

definition class_dequeue :: "addr \<Rightarrow> kstate \<Rightarrow> kstate" where
  "class_dequeue t s = (case sched_class s of
       Some bitmap_rt_class \<Rightarrow> bitmap_rt_dequeue t s
     | Some fifo_rt_class \<Rightarrow> fifo_rt_dequeue t s
     | None \<Rightarrow> s\<lparr>hang := True\<rparr>)"

definition class_pick_next :: "kstate \<Rightarrow> addr \<times> kstate" where
  "class_pick_next s = (case sched_class s of
       Some bitmap_rt_class \<Rightarrow> bitmap_rt_pick_next s
     | Some fifo_rt_class \<Rightarrow> fifo_rt_pick_next s
     | None \<Rightarrow> (NULL, s\<lparr>hang := True\<rparr>))"

definition class_peek_next :: "kstate \<Rightarrow> addr \<times> kstate" where
  "class_peek_next s = (case sched_class s of
       Some bitmap_rt_class \<Rightarrow> bitmap_rt_peek_next s
     | Some fifo_rt_class \<Rightarrow> fifo_rt_peek_next s
     | None \<Rightarrow> (NULL, s\<lparr>hang := True\<rparr>))"

section \<open>Operations\<close>

definition ulmk_sched_mpu_switch :: "addr \<Rightarrow> kstate \<Rightarrow> kstate" where
  "ulmk_sched_mpu_switch th s =
     (let r = stack_region (tcb s th)
      in emit (EvMpuSwitch (if r_size r \<noteq> 0 then Some r else None)
           (privilege (tcb s th) \<noteq> ULMK_PRIV_KERNEL)) s)"

definition sched_mark_preempt_if_higher :: "addr \<Rightarrow> kstate \<Rightarrow> kstate" where
  "sched_mark_preempt_if_higher t s =
     (let c = percpu_ix (unat (cpu (tcb s t))) s;
          cur = current (percpu s c);
          s = (if cur = NULL \<or> (t \<noteq> cur \<and> priority (tcb s t) < priority (tcb s cur))
               then upd_percpu c (\<lambda>pc. pc\<lparr>needs_resched := True\<rparr>) s else s)
      in if smp (cfg s) \<and> cpu (tcb s t) \<noteq> word_of_nat (cpu_id s) \<and>
            online (ulmk_percpu_of (unat (cpu (tcb s t))) s)
         then upd_this_cpu (\<lambda>pc. pc\<lparr>ipi_pending := ipi_pending pc OR push_bit (unat (cpu (tcb s t))) 1\<rparr>) s
         else s)"

definition ulmk_sched_init :: "kstate \<Rightarrow> kstate" where
  "ulmk_sched_init s = (ulmk_percpu_init s)\<lparr>sched_class := None\<rparr>"

definition ulmk_sched_set_class :: "sched_class_t \<Rightarrow> kstate \<Rightarrow> kstate" where
  "ulmk_sched_set_class cls s = class_init cls (s\<lparr>sched_class := Some cls\<rparr>)"

definition ulmk_sched_request_resched :: "kstate \<Rightarrow> kstate" where
  "ulmk_sched_request_resched s = upd_this_cpu (\<lambda>pc. pc\<lparr>needs_resched := True\<rparr>) s"

definition ulmk_sched_kick_pending :: "kstate \<Rightarrow> kstate" where
  "ulmk_sched_kick_pending s =
     (if \<not> smp (cfg s) then s
      else
        let pend = ipi_pending (ulmk_percpu s)
        in if pend = 0 then s
           else
             let s = upd_this_cpu (\<lambda>pc. pc\<lparr>ipi_pending := 0\<rparr>) s
             in fold (\<lambda>c s. if pend AND push_bit c 1 \<noteq> 0 then emit (EvSendIpi c) s else s)
                  [0..<nr_cpus (cfg s)] s)"

definition ulmk_sched_enqueue :: "addr \<Rightarrow> kstate \<Rightarrow> kstate" where
  "ulmk_sched_enqueue t s = sched_mark_preempt_if_higher t (class_enqueue t s)"

definition ulmk_sched_dequeue :: "addr \<Rightarrow> kstate \<Rightarrow> kstate" where
  "ulmk_sched_dequeue t s = class_dequeue t s"

definition ulmk_sched_current :: "kstate \<Rightarrow> addr" where
  "ulmk_sched_current s = current (ulmk_percpu s)"

definition ulmk_sched_peek_next :: "kstate \<Rightarrow> addr \<times> kstate" where
  "ulmk_sched_peek_next s = (if sched_class s \<noteq> None then class_peek_next s else (NULL, s))"

section \<open>Frames\<close>

lemma class_op_bitmap:
  assumes "sched_class s = Some bitmap_rt_class"
  shows "class_enqueue t s = bitmap_rt_enqueue t s" "class_dequeue t s = bitmap_rt_dequeue t s"
    "class_pick_next s = bitmap_rt_pick_next s" "class_peek_next s = bitmap_rt_peek_next s"
  using assms by (simp_all add: class_enqueue_def class_dequeue_def class_pick_next_def class_peek_next_def)

lemma sched_mark_preempt_frame [simp]:
  "cfg (sched_mark_preempt_if_higher t s) = cfg s"
  "cpu_id (sched_mark_preempt_if_higher t s) = cpu_id s"
  "tcb (sched_mark_preempt_if_higher t s) = tcb s"
  "rqs (sched_mark_preempt_if_higher t s) = rqs s"
  "rq_bitmap (sched_mark_preempt_if_higher t s) = rq_bitmap s"
  "ipcq (sched_mark_preempt_if_higher t s) = ipcq s"
  "regq (sched_mark_preempt_if_higher t s) = regq s"
  "reg_inited (sched_mark_preempt_if_higher t s) = reg_inited s"
  "tmq (sched_mark_preempt_if_higher t s) = tmq s"
  "wheels (sched_mark_preempt_if_higher t s) = wheels s"
  "sched_class (sched_mark_preempt_if_higher t s) = sched_class s"
  "eps (sched_mark_preempt_if_higher t s) = eps s"
  "notifs (sched_mark_preempt_if_higher t s) = notifs s"
  "irq_table (sched_mark_preempt_if_higher t s) = irq_table s"
  "ars (sched_mark_preempt_if_higher t s) = ars s"
  "heap (sched_mark_preempt_if_higher t s) = heap s"
  "umsg (sched_mark_preempt_if_higher t s) = umsg s"
  "uword (sched_mark_preempt_if_higher t s) = uword s"
  "urn (sched_mark_preempt_if_higher t s) = urn s"
  "uargs (sched_mark_preempt_if_higher t s) = uargs s"
  "uattr (sched_mark_preempt_if_higher t s) = uattr s"
  "tick_started (sched_mark_preempt_if_higher t s) = tick_started s"
  "lk (sched_mark_preempt_if_higher t s) = lk s"
  "trace (sched_mark_preempt_if_higher t s) = trace s"
  "hang (sched_mark_preempt_if_higher t s) = hang s"
  by (simp_all add: sched_mark_preempt_if_higher_def Let_def)

lemma request_resched_frame [simp]:
  "cfg (ulmk_sched_request_resched s) = cfg s" "cpu_id (ulmk_sched_request_resched s) = cpu_id s"
  "tcb (ulmk_sched_request_resched s) = tcb s" "rqs (ulmk_sched_request_resched s) = rqs s"
  "rq_bitmap (ulmk_sched_request_resched s) = rq_bitmap s"
  "ipcq (ulmk_sched_request_resched s) = ipcq s" "regq (ulmk_sched_request_resched s) = regq s"
  "reg_inited (ulmk_sched_request_resched s) = reg_inited s"
  "tmq (ulmk_sched_request_resched s) = tmq s" "wheels (ulmk_sched_request_resched s) = wheels s"
  "sched_class (ulmk_sched_request_resched s) = sched_class s"
  "eps (ulmk_sched_request_resched s) = eps s" "notifs (ulmk_sched_request_resched s) = notifs s"
  "irq_table (ulmk_sched_request_resched s) = irq_table s"
  "ars (ulmk_sched_request_resched s) = ars s" "heap (ulmk_sched_request_resched s) = heap s"
  "umsg (ulmk_sched_request_resched s) = umsg s" "uword (ulmk_sched_request_resched s) = uword s"
  "urn (ulmk_sched_request_resched s) = urn s" "uargs (ulmk_sched_request_resched s) = uargs s"
  "uattr (ulmk_sched_request_resched s) = uattr s"
  "tick_started (ulmk_sched_request_resched s) = tick_started s"
  "lk (ulmk_sched_request_resched s) = lk s" "trace (ulmk_sched_request_resched s) = trace s"
  "hang (ulmk_sched_request_resched s) = hang s"
  by (simp_all add: ulmk_sched_request_resched_def)

lemma fold_ipi_frame:
  "fold (\<lambda>c s. if P c then emit (EvSendIpi c) s else s) cs s
     = s\<lparr>trace := rev (map EvSendIpi (filter P cs)) @ trace s\<rparr>"
  by (induction cs arbitrary: s) (simp_all add: emit_def)

lemma kick_pending_frame [simp]:
  "cfg (ulmk_sched_kick_pending s) = cfg s" "cpu_id (ulmk_sched_kick_pending s) = cpu_id s"
  "tcb (ulmk_sched_kick_pending s) = tcb s" "rqs (ulmk_sched_kick_pending s) = rqs s"
  "rq_bitmap (ulmk_sched_kick_pending s) = rq_bitmap s"
  "ipcq (ulmk_sched_kick_pending s) = ipcq s" "regq (ulmk_sched_kick_pending s) = regq s"
  "reg_inited (ulmk_sched_kick_pending s) = reg_inited s"
  "tmq (ulmk_sched_kick_pending s) = tmq s" "wheels (ulmk_sched_kick_pending s) = wheels s"
  "sched_class (ulmk_sched_kick_pending s) = sched_class s"
  "eps (ulmk_sched_kick_pending s) = eps s" "notifs (ulmk_sched_kick_pending s) = notifs s"
  "irq_table (ulmk_sched_kick_pending s) = irq_table s" "ars (ulmk_sched_kick_pending s) = ars s"
  "heap (ulmk_sched_kick_pending s) = heap s" "umsg (ulmk_sched_kick_pending s) = umsg s"
  "uword (ulmk_sched_kick_pending s) = uword s" "urn (ulmk_sched_kick_pending s) = urn s"
  "uargs (ulmk_sched_kick_pending s) = uargs s" "uattr (ulmk_sched_kick_pending s) = uattr s"
  "tick_started (ulmk_sched_kick_pending s) = tick_started s"
  "lk (ulmk_sched_kick_pending s) = lk s" "hang (ulmk_sched_kick_pending s) = hang s"
  by (simp_all add: ulmk_sched_kick_pending_def Let_def fold_ipi_frame)

lemma class_enqueue_frame [simp]:
  "cfg (class_enqueue t s) = cfg s" "cpu_id (class_enqueue t s) = cpu_id s"
  "ipcq (class_enqueue t s) = ipcq s" "regq (class_enqueue t s) = regq s"
  "reg_inited (class_enqueue t s) = reg_inited s" "tmq (class_enqueue t s) = tmq s"
  "wheels (class_enqueue t s) = wheels s" "percpu (class_enqueue t s) = percpu s"
  "sched_class (class_enqueue t s) = sched_class s" "eps (class_enqueue t s) = eps s"
  "notifs (class_enqueue t s) = notifs s" "irq_table (class_enqueue t s) = irq_table s"
  "ars (class_enqueue t s) = ars s" "heap (class_enqueue t s) = heap s"
  "umsg (class_enqueue t s) = umsg s" "uword (class_enqueue t s) = uword s"
  "urn (class_enqueue t s) = urn s" "uargs (class_enqueue t s) = uargs s"
  "uattr (class_enqueue t s) = uattr s" "tick_started (class_enqueue t s) = tick_started s"
  "trace (class_enqueue t s) = trace s"
  by (simp_all add: class_enqueue_def split: option.split sched_class_t.split)

lemma class_dequeue_frame [simp]:
  "cfg (class_dequeue t s) = cfg s" "cpu_id (class_dequeue t s) = cpu_id s"
  "tcb (class_dequeue t s) = tcb s" "ipcq (class_dequeue t s) = ipcq s"
  "regq (class_dequeue t s) = regq s" "reg_inited (class_dequeue t s) = reg_inited s"
  "tmq (class_dequeue t s) = tmq s" "wheels (class_dequeue t s) = wheels s"
  "percpu (class_dequeue t s) = percpu s" "sched_class (class_dequeue t s) = sched_class s"
  "eps (class_dequeue t s) = eps s" "notifs (class_dequeue t s) = notifs s"
  "irq_table (class_dequeue t s) = irq_table s" "ars (class_dequeue t s) = ars s"
  "heap (class_dequeue t s) = heap s" "umsg (class_dequeue t s) = umsg s"
  "uword (class_dequeue t s) = uword s" "urn (class_dequeue t s) = urn s"
  "uargs (class_dequeue t s) = uargs s" "uattr (class_dequeue t s) = uattr s"
  "tick_started (class_dequeue t s) = tick_started s" "trace (class_dequeue t s) = trace s"
  by (simp_all add: class_dequeue_def fifo_tcb split: option.split sched_class_t.split)

lemma sched_enqueue_frame [simp]:
  "cfg (ulmk_sched_enqueue t s) = cfg s" "cpu_id (ulmk_sched_enqueue t s) = cpu_id s"
  "ipcq (ulmk_sched_enqueue t s) = ipcq s" "regq (ulmk_sched_enqueue t s) = regq s"
  "reg_inited (ulmk_sched_enqueue t s) = reg_inited s" "tmq (ulmk_sched_enqueue t s) = tmq s"
  "wheels (ulmk_sched_enqueue t s) = wheels s"
  "sched_class (ulmk_sched_enqueue t s) = sched_class s" "eps (ulmk_sched_enqueue t s) = eps s"
  "notifs (ulmk_sched_enqueue t s) = notifs s" "irq_table (ulmk_sched_enqueue t s) = irq_table s"
  "ars (ulmk_sched_enqueue t s) = ars s" "heap (ulmk_sched_enqueue t s) = heap s"
  "umsg (ulmk_sched_enqueue t s) = umsg s" "uword (ulmk_sched_enqueue t s) = uword s"
  "urn (ulmk_sched_enqueue t s) = urn s" "uargs (ulmk_sched_enqueue t s) = uargs s"
  "uattr (ulmk_sched_enqueue t s) = uattr s"
  "tick_started (ulmk_sched_enqueue t s) = tick_started s"
  "trace (ulmk_sched_enqueue t s) = trace s"
  by (simp_all add: ulmk_sched_enqueue_def)

lemma sched_dequeue_frame [simp]:
  "cfg (ulmk_sched_dequeue t s) = cfg s" "cpu_id (ulmk_sched_dequeue t s) = cpu_id s"
  "tcb (ulmk_sched_dequeue t s) = tcb s" "ipcq (ulmk_sched_dequeue t s) = ipcq s"
  "regq (ulmk_sched_dequeue t s) = regq s" "reg_inited (ulmk_sched_dequeue t s) = reg_inited s"
  "tmq (ulmk_sched_dequeue t s) = tmq s" "wheels (ulmk_sched_dequeue t s) = wheels s"
  "percpu (ulmk_sched_dequeue t s) = percpu s"
  "sched_class (ulmk_sched_dequeue t s) = sched_class s" "eps (ulmk_sched_dequeue t s) = eps s"
  "notifs (ulmk_sched_dequeue t s) = notifs s" "irq_table (ulmk_sched_dequeue t s) = irq_table s"
  "ars (ulmk_sched_dequeue t s) = ars s" "heap (ulmk_sched_dequeue t s) = heap s"
  "umsg (ulmk_sched_dequeue t s) = umsg s" "uword (ulmk_sched_dequeue t s) = uword s"
  "urn (ulmk_sched_dequeue t s) = urn s" "uargs (ulmk_sched_dequeue t s) = uargs s"
  "uattr (ulmk_sched_dequeue t s) = uattr s"
  "tick_started (ulmk_sched_dequeue t s) = tick_started s"
  "trace (ulmk_sched_dequeue t s) = trace s"
  by (simp_all add: ulmk_sched_dequeue_def)

text \<open>Of the per-CPU blocks these operations only change the preemption mark and the pending
  interrupts.\<close>

lemma mark_preempt_percpu [simp]:
  "current (percpu (sched_mark_preempt_if_higher t s) c) = current (percpu s c)"
  "idle (percpu (sched_mark_preempt_if_higher t s) c) = idle (percpu s c)"
  "dead_for_cleanup (percpu (sched_mark_preempt_if_higher t s) c) = dead_for_cleanup (percpu s c)"
  "online (percpu (sched_mark_preempt_if_higher t s) c) = online (percpu s c)"
  "in_irq_attach (percpu (sched_mark_preempt_if_higher t s) c) = in_irq_attach (percpu s c)"
  "irq_attach_owner (percpu (sched_mark_preempt_if_higher t s) c) = irq_attach_owner (percpu s c)"
  "irq_attach_srpn (percpu (sched_mark_preempt_if_higher t s) c) = irq_attach_srpn (percpu s c)"
  "area_retired (percpu (sched_mark_preempt_if_higher t s) c) = area_retired (percpu s c)"
  "mpu_shootdown (percpu (sched_mark_preempt_if_higher t s) c) = mpu_shootdown (percpu s c)"
  by (simp_all add: sched_mark_preempt_if_higher_def Let_def percpu_upd_this_cpu)

lemma request_resched_percpu [simp]:
  "current (percpu (ulmk_sched_request_resched s) c) = current (percpu s c)"
  "idle (percpu (ulmk_sched_request_resched s) c) = idle (percpu s c)"
  "dead_for_cleanup (percpu (ulmk_sched_request_resched s) c) = dead_for_cleanup (percpu s c)"
  "online (percpu (ulmk_sched_request_resched s) c) = online (percpu s c)"
  "in_irq_attach (percpu (ulmk_sched_request_resched s) c) = in_irq_attach (percpu s c)"
  "irq_attach_owner (percpu (ulmk_sched_request_resched s) c) = irq_attach_owner (percpu s c)"
  "irq_attach_srpn (percpu (ulmk_sched_request_resched s) c) = irq_attach_srpn (percpu s c)"
  "area_retired (percpu (ulmk_sched_request_resched s) c) = area_retired (percpu s c)"
  "mpu_shootdown (percpu (ulmk_sched_request_resched s) c) = mpu_shootdown (percpu s c)"
  by (simp_all add: ulmk_sched_request_resched_def percpu_upd_this_cpu)

lemma kick_pending_percpu [simp]:
  "current (percpu (ulmk_sched_kick_pending s) c) = current (percpu s c)"
  "idle (percpu (ulmk_sched_kick_pending s) c) = idle (percpu s c)"
  "dead_for_cleanup (percpu (ulmk_sched_kick_pending s) c) = dead_for_cleanup (percpu s c)"
  "online (percpu (ulmk_sched_kick_pending s) c) = online (percpu s c)"
  "in_irq_attach (percpu (ulmk_sched_kick_pending s) c) = in_irq_attach (percpu s c)"
  "irq_attach_owner (percpu (ulmk_sched_kick_pending s) c) = irq_attach_owner (percpu s c)"
  "irq_attach_srpn (percpu (ulmk_sched_kick_pending s) c) = irq_attach_srpn (percpu s c)"
  "area_retired (percpu (ulmk_sched_kick_pending s) c) = area_retired (percpu s c)"
  "mpu_shootdown (percpu (ulmk_sched_kick_pending s) c) = mpu_shootdown (percpu s c)"
  by (simp_all add: ulmk_sched_kick_pending_def Let_def fold_ipi_frame percpu_upd_this_cpu)

lemma sched_enqueue_percpu [simp]:
  "current (percpu (ulmk_sched_enqueue t s) c) = current (percpu s c)"
  "idle (percpu (ulmk_sched_enqueue t s) c) = idle (percpu s c)"
  "dead_for_cleanup (percpu (ulmk_sched_enqueue t s) c) = dead_for_cleanup (percpu s c)"
  "online (percpu (ulmk_sched_enqueue t s) c) = online (percpu s c)"
  "in_irq_attach (percpu (ulmk_sched_enqueue t s) c) = in_irq_attach (percpu s c)"
  "irq_attach_owner (percpu (ulmk_sched_enqueue t s) c) = irq_attach_owner (percpu s c)"
  "irq_attach_srpn (percpu (ulmk_sched_enqueue t s) c) = irq_attach_srpn (percpu s c)"
  "area_retired (percpu (ulmk_sched_enqueue t s) c) = area_retired (percpu s c)"
  "mpu_shootdown (percpu (ulmk_sched_enqueue t s) c) = mpu_shootdown (percpu s c)"
  by (simp_all add: ulmk_sched_enqueue_def)

lemma sched_current_cong:
  assumes "cfg s' = cfg s" "cpu_id s' = cpu_id s" "\<And>c. current (percpu s' c) = current (percpu s c)"
  shows "ulmk_sched_current s' = ulmk_sched_current s"
  using assms by (simp add: ulmk_sched_current_def ulmk_percpu_def percpu_ix_def)

lemma sched_current_frame [simp]:
  "ulmk_sched_current (upd_tcb t f s) = ulmk_sched_current s"
  "ulmk_sched_current (upd_ep t ef s) = ulmk_sched_current s"
  "ulmk_sched_current (upd_notif t nf s) = ulmk_sched_current s"
  "ulmk_sched_current (upd_rqs rf s) = ulmk_sched_current s"
  "ulmk_sched_current (upd_ipcq qf s) = ulmk_sched_current s"
  "ulmk_sched_current (upd_tmq tf s) = ulmk_sched_current s"
  "ulmk_sched_current (upd_umsg p m s) = ulmk_sched_current s"
  "ulmk_sched_current (upd_uword p w s) = ulmk_sched_current s"
  "ulmk_sched_current (upd_urn p uf s) = ulmk_sched_current s"
  "ulmk_sched_current (lock l s) = ulmk_sched_current s"
  "ulmk_sched_current (unlock l s) = ulmk_sched_current s"
  "ulmk_sched_current (emit ev s) = ulmk_sched_current s"
  "ulmk_sched_current (ulmk_sched_request_resched s) = ulmk_sched_current s"
  "ulmk_sched_current (ulmk_sched_kick_pending s) = ulmk_sched_current s"
  "ulmk_sched_current (ulmk_sched_enqueue t s) = ulmk_sched_current s"
  "ulmk_sched_current (ulmk_sched_dequeue t s) = ulmk_sched_current s"
  by (rule sched_current_cong; simp)+

section \<open>With the bitmap class\<close>

text \<open>The kernel installs the bitmap class at boot and never changes it.\<close>

abbreviation bclass :: "kstate \<Rightarrow> bool" where
  "bclass s \<equiv> sched_class s = Some bitmap_rt_class"

lemma sched_enqueue_bitmap:
  assumes "bclass s"
  shows "tcb (ulmk_sched_enqueue t s) = (tcb s)(t := (tcb s t)\<lparr>state := READY\<rparr>)"
    "rqs (ulmk_sched_enqueue t s) = (if q_linked t (rqs s) then rqs s
       else q_append (RqLevel (th_rq s t) (th_prio s t)) t (rqs s))"
    "rq_bitmap (ulmk_sched_enqueue t s) = rq_bitmap (bitmap_rt_enqueue t s)"
    "lk (ulmk_sched_enqueue t s) = touch LRq (lk s)"
    "hang (ulmk_sched_enqueue t s) = hang s"
  using assms by (simp_all add: ulmk_sched_enqueue_def class_op_bitmap bitmap_rt_enqueue_rqs)

lemma sched_dequeue_bitmap:
  assumes "bclass s"
  shows "ulmk_sched_dequeue t s = bitmap_rt_dequeue t s"
    "rqs (ulmk_sched_dequeue t s) = q_remove t (rqs s)"
    "rq_bitmap (ulmk_sched_dequeue t s) = rq_bitmap (bitmap_rt_dequeue t s)"
    "lk (ulmk_sched_dequeue t s) = touch LRq (lk s)"
    "hang (ulmk_sched_dequeue t s) = hang s"
  using assms by (simp_all add: ulmk_sched_dequeue_def class_op_bitmap bitmap_rt_dequeue_rqs)

lemma bm_inv_sched_enqueue:
  assumes "bclass s" "bm_inv s" "t \<noteq> NULL" "\<not> q_linked t (rqs s)"
  shows "bm_inv (ulmk_sched_enqueue t s)"
  by (rule bm_inv_frame [OF bm_inv_enqueue [OF assms(2-4)]])
    (use assms(1,4) in \<open>simp_all add: sched_enqueue_bitmap bitmap_rt_enqueue_rqs\<close>)

lemma bm_inv_sched_dequeue:
  assumes "bclass s" "bm_inv s"
  shows "bm_inv (ulmk_sched_dequeue t s)"
  by (rule bm_inv_frame [OF bm_inv_dequeue [OF assms(2), of t]])
    (use assms(1) in \<open>simp_all add: sched_dequeue_bitmap bitmap_rt_dequeue_rqs\<close>)

end
