(* ===== verification/Timer_Wheel.thy ===== *)
theory Timer_Wheel
  imports Sched
begin

text \<open>
  The non-cascading timing wheel, \<^verbatim>\<open>kernel/time/timer_wheel.c\<close>, and the tick conversion and arming
  helpers of \<^verbatim>\<open>kernel/time/sleep.c\<close>. A \<^verbatim>\<open>struct ulmk_timeout\<close> only occurs inside a TCB, so it is named by
  its thread. The callbacks run by \<^verbatim>\<open>expire_list\<close> are an argument (\<open>run\<close>), tied to the real ones in theory
  Syscall. The lemmas show when a timer leaves its bucket: for most requests at the requested tick
  rounded up to the granularity of its level, and early in one corner case.
\<close>

section \<open>Indices\<close>

abbreviation ULMK_TIMER_LVL_DEPTH :: nat where "ULMK_TIMER_LVL_DEPTH \<equiv> 5"
abbreviation ULMK_TIMER_LVL_SIZE :: nat where "ULMK_TIMER_LVL_SIZE \<equiv> 64"
abbreviation ULMK_TIMER_LVL_MASK :: u64 where "ULMK_TIMER_LVL_MASK \<equiv> 63"
abbreviation ULMK_TIMER_TIMEOUT_MAX :: u32 where "ULMK_TIMER_TIMEOUT_MAX \<equiv> 258048"

definition ULMK_TIMER_LVL_SHIFT :: "nat \<Rightarrow> nat" where
  "ULMK_TIMER_LVL_SHIFT n = n * 3"

definition ULMK_TIMER_LVL_GRAN :: "nat \<Rightarrow> u64" where
  "ULMK_TIMER_LVL_GRAN n = push_bit (ULMK_TIMER_LVL_SHIFT n) 1"

definition wheel_of :: "kstate \<Rightarrow> nat" where
  "wheel_of s = wheel_cpu (cfg s) (cpu_id s) mod nr_cpus (cfg s)"

definition calc_index :: "u64 \<Rightarrow> nat \<Rightarrow> nat" where
  "calc_index e lvl =
     (let e = (e + ULMK_TIMER_LVL_GRAN lvl - 1) AND NOT (ULMK_TIMER_LVL_GRAN lvl - 1)
      in unat (drop_bit (ULMK_TIMER_LVL_SHIFT lvl) e AND ULMK_TIMER_LVL_MASK))"

definition calc_wheel_index :: "u64 \<Rightarrow> u64 \<Rightarrow> nat \<times> nat" where
  "calc_wheel_index e c =
     (let delta = e - c
      in if sint delta < 0 then (0, unat (c AND ULMK_TIMER_LVL_MASK))
         else case find (\<lambda>lvl. delta < push_bit (ULMK_TIMER_LVL_SHIFT lvl) 64) [0..<ULMK_TIMER_LVL_DEPTH] of
                Some lvl \<Rightarrow> (lvl, calc_index e lvl)
              | None \<Rightarrow> (ULMK_TIMER_LVL_DEPTH - 1, calc_index e (ULMK_TIMER_LVL_DEPTH - 1)))"

section \<open>Operations\<close>

definition upd_wheel :: "nat \<Rightarrow> (timer_wheel \<Rightarrow> timer_wheel) \<Rightarrow> kstate \<Rightarrow> kstate" where
  "upd_wheel w f s = s\<lparr>wheels := (wheels s)(w := f (wheels s w))\<rparr>"

definition ulmk_timer_init :: "kstate \<Rightarrow> kstate" where
  "ulmk_timer_init s =
     fold (\<lambda>c s.
         let s = upd_wheel c (\<lambda>w. w\<lparr>clk := 0\<rparr>) s
         in fold (\<lambda>lvl s.
                let s = upd_wheel c (\<lambda>w. w\<lparr>pending := (pending w)(lvl := 0)\<rparr>) s
                in upd_tmq (fold (\<lambda>b. q_init (Bucket c lvl b)) [0..<ULMK_TIMER_LVL_SIZE]) s)
              [0..<ULMK_TIMER_LVL_DEPTH] s)
       [0..<nr_cpus (cfg s)] s"

definition ulmk_timer_add :: "addr \<Rightarrow> u32 \<Rightarrow> kstate \<Rightarrow> int \<times> kstate" where
  "ulmk_timer_add th delta_ticks s =
     (if cb (timeout (tcb s th)) = CB_NULL then (ULMK_EINVAL, s)
      else
        let delta_ticks = (if delta_ticks = 0 then 1 else delta_ticks)
        in if delta_ticks > ULMK_TIMER_TIMEOUT_MAX then (ULMK_EINVAL, s)
           else
             let s = lock LTimer s;
                 w = wheel_of s;
                 s = (if q_linked th (tmq s) then upd_tmq (q_remove th) s else s);
                 s = upd_tcb th (\<lambda>x. x\<lparr>timeout := (timeout x)\<lparr>expires := clk (wheels s w) + ucast delta_ticks\<rparr>\<rparr>) s;
                 (lvl, bucket) = calc_wheel_index (expires (timeout (tcb s th))) (clk (wheels s w));
                 s = upd_tmq (q_append (Bucket w lvl bucket) th) s;
                 s = upd_wheel w (\<lambda>x. x\<lparr>pending := (pending x)(lvl := pending x lvl OR push_bit bucket 1)\<rparr>) s
             in (ULMK_OK, unlock LTimer s))"

definition ulmk_timer_cancel :: "addr \<Rightarrow> kstate \<Rightarrow> bool \<times> kstate" where
  "ulmk_timer_cancel th s =
     (let s = lock LTimer s;
          removed = q_linked th (tmq s);
          s = (if removed then upd_tmq (q_remove th) s else s)
      in (removed, unlock LTimer s))"

definition ulmk_timer_jiffies :: "kstate \<Rightarrow> u64" where
  "ulmk_timer_jiffies s = clk (wheels s (wheel_of s))"

definition collect_bucket :: "nat \<Rightarrow> nat \<Rightarrow> nat \<Rightarrow> kstate \<Rightarrow> kstate" where
  "collect_bucket w lvl bucket s =
     (let s = fold (\<lambda>n. upd_tmq (\<lambda>q. q_append PendingQ n (q_remove n q)))
                (q_of (tmq s) (Bucket w lvl bucket)) s
      in upd_wheel w (\<lambda>x. x\<lparr>pending := (pending x)(lvl := pending x lvl AND NOT (push_bit bucket 1))\<rparr>) s)"

text \<open>One level of the loop in \<^verbatim>\<open>ulmk_timer_run\<close> and \<^verbatim>\<open>wheel_advance_collect\<close>.\<close>

definition wheel_scan_level :: "nat \<Rightarrow> nat \<Rightarrow> kstate \<Rightarrow> kstate" where
  "wheel_scan_level w lvl s =
     (let c = clk (wheels s w)
      in if lvl > 0 \<and> c AND (ULMK_TIMER_LVL_GRAN lvl - 1) \<noteq> 0 then s
         else
           let bucket = unat (drop_bit (ULMK_TIMER_LVL_SHIFT lvl) c AND ULMK_TIMER_LVL_MASK)
           in if pending (wheels s w) lvl AND push_bit bucket 1 = 0 then s
              else collect_bucket w lvl bucket s)"

text \<open>The drain loop of \<^verbatim>\<open>expire_list\<close> ends because every turn takes a node off the pending list and the
  callbacks put none on it; its bound is the length of the list.\<close>

fun expire_list :: "nat \<Rightarrow> (timeout_cb \<Rightarrow> addr \<Rightarrow> kstate \<Rightarrow> kstate) \<Rightarrow> kstate \<Rightarrow> kstate" where
  "expire_list 0 run s = (if q_empty PendingQ (tmq s) then s else s\<lparr>hang := True\<rparr>)"
| "expire_list (Suc n) run s =
     (case q_get PendingQ (tmq s) of
        (None, _) \<Rightarrow> s
      | (Some th, q) \<Rightarrow>
          (let c = cb (timeout (tcb s th));
               s = s\<lparr>tmq := q\<rparr>;
               s = (if c \<noteq> CB_NULL then run c th s else s)
           in expire_list n run s))"

definition ulmk_timer_run :: "(timeout_cb \<Rightarrow> addr \<Rightarrow> kstate \<Rightarrow> kstate) \<Rightarrow> kstate \<Rightarrow> kstate" where
  "ulmk_timer_run run s =
     (let s = upd_tmq (q_init PendingQ) s;
          s = lock LTimer s;
          s = fold (wheel_scan_level (wheel_of s)) [0..<ULMK_TIMER_LVL_DEPTH] s;
          s = unlock LTimer s
      in expire_list (length (q_of (tmq s) PendingQ)) run s)"

definition wheel_advance_collect :: "nat \<Rightarrow> kstate \<Rightarrow> kstate" where
  "wheel_advance_collect w s =
     fold (wheel_scan_level w) [0..<ULMK_TIMER_LVL_DEPTH] (upd_wheel w (\<lambda>x. x\<lparr>clk := clk x + 1\<rparr>) s)"

definition ulmk_timer_tick :: "(timeout_cb \<Rightarrow> addr \<Rightarrow> kstate \<Rightarrow> kstate) \<Rightarrow> kstate \<Rightarrow> kstate" where
  "ulmk_timer_tick run s =
     (let s = upd_tmq (q_init PendingQ) s;
          s = lock LTimer s;
          s = wheel_advance_collect (wheel_of s) s;
          s = unlock LTimer s
      in expire_list (length (q_of (tmq s) PendingQ)) run s)"

section \<open>Milliseconds, arming and disarming (\<^verbatim>\<open>sleep.c\<close>)\<close>

definition ulmk_ms_to_ticks :: "u32 \<Rightarrow> kstate \<Rightarrow> u32" where
  "ulmk_ms_to_ticks ms s =
     (let ticks = (ucast ms * ucast (tick_hz (cfg s)) + 999) div 1000 :: u64;
          ticks = (if ticks = 0 then 1 else ticks)
      in if ticks > ucast ULMK_TIMER_TIMEOUT_MAX then 0 else ucast ticks)"

definition ulmk_timeout_arm :: "addr \<Rightarrow> u32 \<Rightarrow> timeout_cb \<Rightarrow> kstate \<Rightarrow> int \<times> kstate" where
  "ulmk_timeout_arm th ms c s =
     (let ticks = ulmk_ms_to_ticks ms s
      in if th = NULL \<or> c = CB_NULL \<or> ticks = 0 then (ULMK_EINVAL, s)
         else
           let s = snd (ulmk_timer_cancel th s);
               s = upd_tcb th (\<lambda>x. x\<lparr>timeout := (timeout x)\<lparr>cb := c\<rparr>\<rparr>) s
           in ulmk_timer_add th ticks s)"

definition ulmk_timeout_disarm :: "addr \<Rightarrow> kstate \<Rightarrow> kstate" where
  "ulmk_timeout_disarm th s =
     (if th = NULL then s
      else
        let s = snd (ulmk_timer_cancel th s)
        in upd_tcb th (\<lambda>x. x\<lparr>timeout := (timeout x)\<lparr>cb := CB_NULL\<rparr>\<rparr>) s)"

section \<open>Frames\<close>

lemma upd_wheel_frame [simp]:
  "cfg (upd_wheel w f s) = cfg s" "cpu_id (upd_wheel w f s) = cpu_id s"
  "tcb (upd_wheel w f s) = tcb s" "rqs (upd_wheel w f s) = rqs s"
  "rq_bitmap (upd_wheel w f s) = rq_bitmap s" "ipcq (upd_wheel w f s) = ipcq s"
  "regq (upd_wheel w f s) = regq s" "reg_inited (upd_wheel w f s) = reg_inited s"
  "tmq (upd_wheel w f s) = tmq s" "percpu (upd_wheel w f s) = percpu s"
  "sched_class (upd_wheel w f s) = sched_class s" "eps (upd_wheel w f s) = eps s"
  "notifs (upd_wheel w f s) = notifs s" "irq_table (upd_wheel w f s) = irq_table s"
  "ars (upd_wheel w f s) = ars s" "heap (upd_wheel w f s) = heap s"
  "umsg (upd_wheel w f s) = umsg s" "uword (upd_wheel w f s) = uword s"
  "urn (upd_wheel w f s) = urn s" "uargs (upd_wheel w f s) = uargs s"
  "uattr (upd_wheel w f s) = uattr s" "tick_started (upd_wheel w f s) = tick_started s"
  "lk (upd_wheel w f s) = lk s" "trace (upd_wheel w f s) = trace s"
  "hang (upd_wheel w f s) = hang s"
  by (simp_all add: upd_wheel_def)

lemma upd_wheel_wheels [simp]: "wheels (upd_wheel w f s) = (wheels s)(w := f (wheels s w))"
  by (simp add: upd_wheel_def)

lemma timer_add_frame [simp]:
  "cfg (snd (ulmk_timer_add th d s)) = cfg s" "cpu_id (snd (ulmk_timer_add th d s)) = cpu_id s"
  "rqs (snd (ulmk_timer_add th d s)) = rqs s"
  "rq_bitmap (snd (ulmk_timer_add th d s)) = rq_bitmap s"
  "ipcq (snd (ulmk_timer_add th d s)) = ipcq s" "regq (snd (ulmk_timer_add th d s)) = regq s"
  "reg_inited (snd (ulmk_timer_add th d s)) = reg_inited s"
  "percpu (snd (ulmk_timer_add th d s)) = percpu s"
  "sched_class (snd (ulmk_timer_add th d s)) = sched_class s"
  "eps (snd (ulmk_timer_add th d s)) = eps s" "notifs (snd (ulmk_timer_add th d s)) = notifs s"
  "irq_table (snd (ulmk_timer_add th d s)) = irq_table s"
  "ars (snd (ulmk_timer_add th d s)) = ars s" "heap (snd (ulmk_timer_add th d s)) = heap s"
  "umsg (snd (ulmk_timer_add th d s)) = umsg s" "uword (snd (ulmk_timer_add th d s)) = uword s"
  "urn (snd (ulmk_timer_add th d s)) = urn s" "uargs (snd (ulmk_timer_add th d s)) = uargs s"
  "uattr (snd (ulmk_timer_add th d s)) = uattr s"
  "tick_started (snd (ulmk_timer_add th d s)) = tick_started s"
  "trace (snd (ulmk_timer_add th d s)) = trace s" "hang (snd (ulmk_timer_add th d s)) = hang s"
  by (simp_all add: ulmk_timer_add_def Let_def split_beta)

lemma timer_cancel_frame [simp]:
  "cfg (snd (ulmk_timer_cancel th s)) = cfg s" "cpu_id (snd (ulmk_timer_cancel th s)) = cpu_id s"
  "tcb (snd (ulmk_timer_cancel th s)) = tcb s" "rqs (snd (ulmk_timer_cancel th s)) = rqs s"
  "rq_bitmap (snd (ulmk_timer_cancel th s)) = rq_bitmap s"
  "ipcq (snd (ulmk_timer_cancel th s)) = ipcq s" "regq (snd (ulmk_timer_cancel th s)) = regq s"
  "reg_inited (snd (ulmk_timer_cancel th s)) = reg_inited s"
  "wheels (snd (ulmk_timer_cancel th s)) = wheels s"
  "percpu (snd (ulmk_timer_cancel th s)) = percpu s"
  "sched_class (snd (ulmk_timer_cancel th s)) = sched_class s"
  "eps (snd (ulmk_timer_cancel th s)) = eps s" "notifs (snd (ulmk_timer_cancel th s)) = notifs s"
  "irq_table (snd (ulmk_timer_cancel th s)) = irq_table s"
  "ars (snd (ulmk_timer_cancel th s)) = ars s" "heap (snd (ulmk_timer_cancel th s)) = heap s"
  "umsg (snd (ulmk_timer_cancel th s)) = umsg s" "uword (snd (ulmk_timer_cancel th s)) = uword s"
  "urn (snd (ulmk_timer_cancel th s)) = urn s" "uargs (snd (ulmk_timer_cancel th s)) = uargs s"
  "uattr (snd (ulmk_timer_cancel th s)) = uattr s"
  "tick_started (snd (ulmk_timer_cancel th s)) = tick_started s"
  "trace (snd (ulmk_timer_cancel th s)) = trace s" "hang (snd (ulmk_timer_cancel th s)) = hang s"
  by (simp_all add: ulmk_timer_cancel_def Let_def)

lemma timeout_arm_frame [simp]:
  "cfg (snd (ulmk_timeout_arm th ms c s)) = cfg s"
  "cpu_id (snd (ulmk_timeout_arm th ms c s)) = cpu_id s"
  "rqs (snd (ulmk_timeout_arm th ms c s)) = rqs s"
  "rq_bitmap (snd (ulmk_timeout_arm th ms c s)) = rq_bitmap s"
  "ipcq (snd (ulmk_timeout_arm th ms c s)) = ipcq s"
  "regq (snd (ulmk_timeout_arm th ms c s)) = regq s"
  "reg_inited (snd (ulmk_timeout_arm th ms c s)) = reg_inited s"
  "percpu (snd (ulmk_timeout_arm th ms c s)) = percpu s"
  "sched_class (snd (ulmk_timeout_arm th ms c s)) = sched_class s"
  "eps (snd (ulmk_timeout_arm th ms c s)) = eps s"
  "notifs (snd (ulmk_timeout_arm th ms c s)) = notifs s"
  "irq_table (snd (ulmk_timeout_arm th ms c s)) = irq_table s"
  "ars (snd (ulmk_timeout_arm th ms c s)) = ars s"
  "heap (snd (ulmk_timeout_arm th ms c s)) = heap s"
  "umsg (snd (ulmk_timeout_arm th ms c s)) = umsg s"
  "uword (snd (ulmk_timeout_arm th ms c s)) = uword s"
  "urn (snd (ulmk_timeout_arm th ms c s)) = urn s"
  "uargs (snd (ulmk_timeout_arm th ms c s)) = uargs s"
  "uattr (snd (ulmk_timeout_arm th ms c s)) = uattr s"
  "tick_started (snd (ulmk_timeout_arm th ms c s)) = tick_started s"
  "trace (snd (ulmk_timeout_arm th ms c s)) = trace s"
  "hang (snd (ulmk_timeout_arm th ms c s)) = hang s"
  by (simp_all add: ulmk_timeout_arm_def Let_def)

lemma timeout_disarm_frame [simp]:
  "cfg (ulmk_timeout_disarm th s) = cfg s" "cpu_id (ulmk_timeout_disarm th s) = cpu_id s"
  "rqs (ulmk_timeout_disarm th s) = rqs s" "rq_bitmap (ulmk_timeout_disarm th s) = rq_bitmap s"
  "ipcq (ulmk_timeout_disarm th s) = ipcq s" "regq (ulmk_timeout_disarm th s) = regq s"
  "reg_inited (ulmk_timeout_disarm th s) = reg_inited s"
  "wheels (ulmk_timeout_disarm th s) = wheels s" "percpu (ulmk_timeout_disarm th s) = percpu s"
  "sched_class (ulmk_timeout_disarm th s) = sched_class s"
  "eps (ulmk_timeout_disarm th s) = eps s" "notifs (ulmk_timeout_disarm th s) = notifs s"
  "irq_table (ulmk_timeout_disarm th s) = irq_table s" "ars (ulmk_timeout_disarm th s) = ars s"
  "heap (ulmk_timeout_disarm th s) = heap s" "umsg (ulmk_timeout_disarm th s) = umsg s"
  "uword (ulmk_timeout_disarm th s) = uword s" "urn (ulmk_timeout_disarm th s) = urn s"
  "uargs (ulmk_timeout_disarm th s) = uargs s" "uattr (ulmk_timeout_disarm th s) = uattr s"
  "tick_started (ulmk_timeout_disarm th s) = tick_started s"
  "trace (ulmk_timeout_disarm th s) = trace s" "hang (ulmk_timeout_disarm th s) = hang s"
  by (simp_all add: ulmk_timeout_disarm_def Let_def)

section \<open>Index arithmetic\<close>

lemma gran_pow: "ULMK_TIMER_LVL_GRAN l = 2 ^ (l * 3)" "(8::nat) ^ l = 2 ^ (l * 3)"
  by (simp_all add: ULMK_TIMER_LVL_GRAN_def ULMK_TIMER_LVL_SHIFT_def power_mult mult.commute [of l])

lemma gran_mask: "ULMK_TIMER_LVL_GRAN l - 1 = mask (l * 3)"
  by (simp add: gran_pow mask_eq_exp_minus_1)

lemma unat_and_63: "unat (x AND 63) = unat x mod 64" for x :: u64
proof -
  have "x AND 63 = take_bit 6 x" by (simp add: take_bit_eq_mask mask_eq_exp_minus_1)
  then show ?thesis by (simp add: take_bit_eq_mod unat_mod)
qed

lemma unat_drop_bit_u64: "unat (drop_bit k x) = unat x div 2 ^ k" for x :: u64
  by (simp only: unat_drop_bit_eq) (simp add: drop_bit_eq_div)

lemma and_mask_eq_0: "x AND mask k = 0 \<longleftrightarrow> unat x mod 2 ^ k = 0" for x :: u64
proof -
  have "x AND mask k = take_bit k x" by (simp add: take_bit_eq_mask)
  moreover have "unat (take_bit k x) = unat x mod 2 ^ k"
    by (metis take_bit_eq_mod unsigned_take_bit_eq)
  ultimately show ?thesis by (metis unat_eq_zero)
qed

lemma calc_index_nat:
  assumes "l < 5" and "unat e + 8 ^ l < 2 ^ 64"
  shows "calc_index e l = (unat e + 8 ^ l - 1) div 8 ^ l mod 64"
proof -
  let ?k = "l * 3" and ?y = "e + mask (l * 3) :: u64"
  have "drop_bit ?k (?y AND NOT (mask ?k)) = drop_bit ?k ?y"
    by (rule bit_word_eqI) (auto simp: bit_drop_bit_eq bit_and_iff bit_not_iff bit_mask_iff
        dest: bit_imp_le_length)
  moreover have "e + ULMK_TIMER_LVL_GRAN l - 1 = ?y"
    by (metis add_diff_eq gran_mask)
  ultimately have "calc_index e l = unat (drop_bit ?k ?y) mod 64"
    unfolding calc_index_def Let_def ULMK_TIMER_LVL_SHIFT_def gran_mask
    by (simp only: unat_and_63)
  moreover have "unat (mask ?k :: u64) = 8 ^ l - 1"
  proof -
    from assms(1) consider "l = 0" | "l = 1" | "l = 2" | "l = 3" | "l = 4" by linarith
    then show ?thesis by cases (simp_all add: mask_eq_exp_minus_1)
  qed
  then have "unat ?y = unat e + 8 ^ l - 1"
    using assms(2) by (simp add: unat_add_lem [THEN iffD1])
  ultimately show ?thesis by (simp add: unat_drop_bit_u64 gran_pow)
qed

text \<open>The level and the tick at which a timer armed at clock \<open>c\<close> for \<open>d\<close> ticks is collected.\<close>

definition timer_level :: "nat \<Rightarrow> nat" where
  "timer_level d = (if d < 64 then 0 else if d < 512 then 1 else if d < 4096 then 2
     else if d < 32768 then 3 else 4)"

definition timer_due :: "nat \<Rightarrow> nat \<Rightarrow> nat" where
  "timer_due c d =
     (let g = 8 ^ timer_level d
      in if c mod g + d \<le> 64 * g then (c + d + g - 1) div g * g else (c div g + 1) * g)"

lemma calc_wheel_index_level:
  fixes d :: u32
  assumes "unat d \<le> 258048" and "unat c + unat d < 2 ^ 63"
  shows "calc_wheel_index (c + ucast d) c = (timer_level (unat d),
     (unat c + unat d + 8 ^ timer_level (unat d) - 1) div 8 ^ timer_level (unat d) mod 64)"
proof -
  let ?d = "ucast d :: u64" and ?l = "timer_level (unat d)"
  have ud: "unat ?d = unat d" 
  proof -
    have "unat d < 2 ^ 64" using assms(1) by simp
    then show ?thesis by (simp add: unsigned_ucast_eq take_bit_nat_eq_self)
  qed
  have "\<not> bit ?d 63"
    using bit_imp_le_length [of d 63] by (auto simp: bit_ucast_iff)
  then have nn: "\<not> sint ?d < 0" using bit_last_iff [of ?d] by simp
  have find: "find (\<lambda>lvl. ?d < push_bit (ULMK_TIMER_LVL_SHIFT lvl) 64) [0..<5] = Some ?l"
    using assms(1)
    by (simp add: upt_rec [of _ 5] ULMK_TIMER_LVL_SHIFT_def push_bit_eq_mult timer_level_def
        word_less_nat_alt ud)
  have "unat (c + ?d) = unat c + unat d" using assms(2) by (simp add: ud unat_add_lem [THEN iffD1])
  moreover have "?l < 5" by (simp add: timer_level_def)
  moreover have "(8::nat) ^ ?l \<le> 8 ^ 4" by (rule power_increasing) (auto simp: timer_level_def)
  ultimately have "calc_index (c + ?d) ?l = (unat c + unat d + 8 ^ ?l - 1) div 8 ^ ?l mod 64"
    using assms(2) calc_index_nat [of ?l "c + ?d"] by simp
  then show ?thesis
    by (simp add: calc_wheel_index_def Let_def nn find)
qed

section \<open>Collecting a bucket\<close>

lemma link_move: "link (q_append h' n (q_remove n q)) x = (if x = n then Some h' else link q x)"
  by (auto simp: q_append_def q_remove_def split: option.splits)

lemma q_wf_move: "q_wf q \<Longrightarrow> q_wf (q_append h' n (q_remove n q))"
  by (intro q_wf_append q_wf_remove)

lemma dl_ub_move: "dl_ub (q_append h' n (q_remove n q)) = dl_ub q"
  by (auto simp: q_append_def q_remove_def split: option.splits)

lemma fold_move:
  "link (fold (\<lambda>n q. q_append h' n (q_remove n q)) xs q) x = (if x \<in> set xs then Some h' else link q x)"
  "q_wf q \<Longrightarrow> q_wf (fold (\<lambda>n q. q_append h' n (q_remove n q)) xs q)"
  "dl_ub (fold (\<lambda>n q. q_append h' n (q_remove n q)) xs q) = dl_ub q"
  by (induction xs arbitrary: q) (auto simp: link_move q_wf_move dl_ub_move)

lemma fold_upd_tmq: "fold (\<lambda>n. upd_tmq (f n)) xs s = s\<lparr>tmq := fold f xs (tmq s)\<rparr>"
  by (induction xs arbitrary: s) (simp_all add: upd_tmq_def)

lemma collect_bucket_eq:
  "collect_bucket w l b s = upd_wheel w (\<lambda>x. x\<lparr>pending := (pending x)(l := pending x l AND NOT (push_bit b 1))\<rparr>)
     (s\<lparr>tmq := fold (\<lambda>n q. q_append PendingQ n (q_remove n q)) (q_of (tmq s) (Bucket w l b)) (tmq s)\<rparr>)"
  by (simp add: collect_bucket_def fold_upd_tmq Let_def)

text \<open>The bucket of level \<open>l\<close> that is due when the clock reads \<open>c\<close>.\<close>

definition due_bucket :: "nat \<Rightarrow> nat \<Rightarrow> nat option" where
  "due_bucket c l = (if c mod 8 ^ l = 0 then Some (c div 8 ^ l mod 64) else None)"

definition tm_wf :: "kstate \<Rightarrow> bool" where
  "tm_wf s \<longleftrightarrow> q_wf (tmq s) \<and> \<not> dl_ub (tmq s) \<and>
     (\<forall>t w l b. link (tmq s) t = Some (Bucket w l b) \<longrightarrow> bit (pending (wheels s w) l) b)"

lemma and_pow_eq_0: "x AND 2 ^ b = 0 \<longleftrightarrow> \<not> (bit x b \<and> b < LENGTH('a))" for x :: "'a::len word"
  by (metis and_exp_eq_0_iff_not_bit bit_imp_le_length)

lemma scan_level:
  assumes "tm_wf s"
  shows "link (tmq (wheel_scan_level w l s)) t =
      (if \<exists>b. due_bucket (unat (clk (wheels s w))) l = Some b \<and> link (tmq s) t = Some (Bucket w l b)
       then Some PendingQ else link (tmq s) t)"
    and "tm_wf (wheel_scan_level w l s)"
    and "clk (wheels (wheel_scan_level w l s) v) = clk (wheels s v)"
proof -
  let ?c = "clk (wheels s w)" and ?b = "unat (drop_bit (l * 3) (clk (wheels s w)) AND 63)"
  have b: "?b = unat ?c div 8 ^ l mod 64"
    by (simp add: unat_and_63 unat_drop_bit_u64 gran_pow(2) [of l])
  have skip: "(l > 0 \<and> ?c AND (ULMK_TIMER_LVL_GRAN l - 1) \<noteq> 0) \<longleftrightarrow> unat ?c mod 8 ^ l \<noteq> 0"
    by (cases "l = 0") (auto simp: gran_mask and_mask_eq_0 gran_pow(2) [of l])
  have "(link (tmq (wheel_scan_level w l s)) t =
      (if \<exists>b. due_bucket (unat ?c) l = Some b \<and> link (tmq s) t = Some (Bucket w l b)
       then Some PendingQ else link (tmq s) t)) \<and> tm_wf (wheel_scan_level w l s) \<and>
      clk (wheels (wheel_scan_level w l s) v) = clk (wheels s v)"
  proof (cases "unat ?c mod 8 ^ l = 0 \<and> bit (pending (wheels s w) l) ?b")
    case True
    have "?b < 64" by (simp add: b)
    then have scan: "wheel_scan_level w l s = collect_bucket w l ?b s"
      using True skip by (auto simp: wheel_scan_level_def ULMK_TIMER_LVL_SHIFT_def Let_def and_pow_eq_0)
    have lnk: "link (tmq (collect_bucket w l ?b s)) x =
        (if link (tmq s) x = Some (Bucket w l ?b) then Some PendingQ else link (tmq s) x)" for x
      using assms by (simp add: collect_bucket_eq fold_move tm_wf_def q_wf_mem)
    have "tm_wf (collect_bucket w l ?b s)"
      using assms unfolding tm_wf_def lnk
      by (auto simp: collect_bucket_eq fold_move bit_clear_pow split: if_splits)
    moreover have "due_bucket (unat ?c) l = Some ?b" using True by (simp add: due_bucket_def b)
    ultimately show ?thesis by (simp add: scan lnk) (simp add: collect_bucket_eq)
  next
    case False
    then have "wheel_scan_level w l s = s"
      using skip by (auto simp: wheel_scan_level_def ULMK_TIMER_LVL_SHIFT_def Let_def and_pow_eq_0)
    moreover have "\<not> (\<exists>b. due_bucket (unat ?c) l = Some b \<and> link (tmq s) t = Some (Bucket w l b))"
      using False assms by (auto simp: due_bucket_def tm_wf_def b split: if_splits)
    ultimately show ?thesis using assms by auto
  qed
  then show "link (tmq (wheel_scan_level w l s)) t =
      (if \<exists>b. due_bucket (unat (clk (wheels s w))) l = Some b \<and> link (tmq s) t = Some (Bucket w l b)
       then Some PendingQ else link (tmq s) t)"
    and "tm_wf (wheel_scan_level w l s)" and "clk (wheels (wheel_scan_level w l s) v) = clk (wheels s v)"
    by blast+
qed

lemma scan_levels:
  assumes "tm_wf s"
  shows "link (tmq (fold (wheel_scan_level w) ls s)) t =
      (if \<exists>l\<in>set ls. \<exists>b. due_bucket (unat (clk (wheels s w))) l = Some b \<and> link (tmq s) t = Some (Bucket w l b)
       then Some PendingQ else link (tmq s) t)"
    and "tm_wf (fold (wheel_scan_level w) ls s)"
    and "clk (wheels (fold (wheel_scan_level w) ls s) v) = clk (wheels s v)"
  using assms
proof (induction ls arbitrary: s)
  case (Cons l ls)
  { case 1
    with Cons.IH(1) [OF scan_level(2) [OF 1]] scan_level(1,3) [OF 1] show ?case by auto
  next
    case 2
    with Cons.IH(2) [OF scan_level(2) [OF 2]] show ?case by simp
  next
    case 3
    with Cons.IH(3) [OF scan_level(2) [OF 3]] scan_level(3) [OF 3] show ?case by simp
  }
qed simp_all

lemma advance:
  assumes "tm_wf s"
  shows "link (tmq (wheel_advance_collect w s)) t =
      (if \<exists>l<5. \<exists>b. due_bucket (unat (clk (wheels s w) + 1)) l = Some b \<and> link (tmq s) t = Some (Bucket w l b)
       then Some PendingQ else link (tmq s) t)"
    and "tm_wf (wheel_advance_collect w s)"
    and "clk (wheels (wheel_advance_collect w s) w) = clk (wheels s w) + 1"
proof -
  let ?s = "upd_wheel w (\<lambda>x. x\<lparr>clk := clk x + 1\<rparr>) s"
  have wf: "tm_wf ?s" using assms by (auto simp: tm_wf_def)
  show "link (tmq (wheel_advance_collect w s)) t =
      (if \<exists>l<5. \<exists>b. due_bucket (unat (clk (wheels s w) + 1)) l = Some b \<and> link (tmq s) t = Some (Bucket w l b)
       then Some PendingQ else link (tmq s) t)"
    unfolding wheel_advance_collect_def scan_levels(1) [OF wf] by auto
  show "tm_wf (wheel_advance_collect w s)" "clk (wheels (wheel_advance_collect w s) w) = clk (wheels s w) + 1"
    unfolding wheel_advance_collect_def using scan_levels(2,3) [OF wf] by auto
qed

section \<open>When a timer fires\<close>

lemma mod_eq_diff:
  fixes x y :: nat
  assumes "x mod 64 = y mod 64" and "x < y" and "y - x < 64"
  shows "False"
proof -
  have "(y - x) mod 64 = 0" using assms(1,2) by (metis less_imp_le mod_eq_dvd_iff_nat dvd_imp_mod_0)
  with assms(2,3) show False by simp
qed

text \<open>After \<open>n\<close> ticks a bucket has been visited exactly when the tick it is due at has come.\<close>

lemma due_first:
  fixes c d n :: nat
  defines "l \<equiv> timer_level d" defines "g \<equiv> 8 ^ timer_level d"
  assumes "0 < d" "d < 64 * g"
  shows "(\<exists>k. c < k \<and> k \<le> c + n \<and> due_bucket k l = Some ((c + d + g - 1) div g mod 64))
    \<longleftrightarrow> timer_due c d \<le> c + n"
proof -
  have g0: "0 < g" by (simp add: g_def)
  let ?q = "(c + d + g - 1) div g"
  let ?m = "c div g"
  define P where "P = ?m * g"
  have split: "c = P + c mod g" and r: "c mod g < g" using g0 by (simp_all add: P_def)
  have mult: "(?m + k) * g = P + k * g" for k by (simp add: P_def add_mult_distrib)
  have qlow: "?m + 1 \<le> ?q"
  proof -
    have "(?m + 1) * g \<le> c + d + g - 1" unfolding mult using assms(3) split by linarith
    then show ?thesis using g0 by (metis div_le_mono nonzero_mult_div_cancel_right not_less_zero)
  qed
  have qless: "?q < ?m + k \<longleftrightarrow> c + d + g - 1 < P + k * g" for k
    using div_less_iff_less_mult [OF g0, of "c + d + g - 1" "?m + k"] by (simp add: mult)
  have qhigh: "?q \<le> ?m + 64 \<longleftrightarrow> c mod g + d \<le> 64 * g"
    using qless [of 65] split assms(3) by linarith
  have q65: "?q \<le> ?m + 65"
    using qless [of 66] split r assms(4) by linarith
  define j where "j = (if c mod g + d \<le> 64 * g then ?q else ?m + 1)"
  have due: "timer_due c d = j * g" by (simp add: timer_due_def j_def g_def [symmetric] Let_def)
  have jq: "j mod 64 = ?q mod 64" and jlow: "?m + 1 \<le> j" and jhigh: "j \<le> ?m + 64"
  proof -
    show "j mod 64 = ?q mod 64"
    proof (cases "c mod g + d \<le> 64 * g")
      case False
      then have "?q = ?m + 65" using qhigh q65 by linarith
      then have "?q = (?m + 1) + 64" by linarith
      then have "?q mod 64 = (?m + 1) mod 64" by (metis mod_add_self2)
      with False show ?thesis by (simp only: j_def if_False)
    qed (simp add: j_def)
    show "?m + 1 \<le> j" "j \<le> ?m + 64" using qlow qhigh by (auto simp: j_def)
  qed
  have cj: "c < j * g"
  proof -
    have "c < (?m + 1) * g" unfolding mult using split r by linarith
    also have "\<dots> \<le> j * g" using jlow by (rule mult_right_mono) simp
    finally show ?thesis .
  qed
  show ?thesis
  proof
    assume "timer_due c d \<le> c + n"
    then have "c < j * g \<and> j * g \<le> c + n \<and> due_bucket (j * g) l = Some (?q mod 64)"
      using cj jq g0 by (simp add: due due_bucket_def l_def g_def [symmetric])
    then show "\<exists>k. c < k \<and> k \<le> c + n \<and> due_bucket k l = Some (?q mod 64)" by blast
  next
    assume "\<exists>k. c < k \<and> k \<le> c + n \<and> due_bucket k l = Some (?q mod 64)"
    then obtain k where k: "c < k" "k \<le> c + n" "k mod g = 0" "k div g mod 64 = ?q mod 64"
      by (auto simp: due_bucket_def l_def g_def [symmetric] split: if_splits)
    have "j \<le> k div g"
    proof (rule ccontr)
      assume "\<not> j \<le> k div g"
      then have lt: "k div g < j" by simp
      have "?m < k div g"
      proof -
        have "k div g * g = k" using k(3) by (metis add.right_neutral div_mult_mod_eq)
        then have "?m * g < k div g * g" using k(1) split unfolding P_def by linarith
        then show ?thesis using g0 by simp
      qed
      then have "j - k div g < 64" using jhigh by linarith
      with mod_eq_diff [of "k div g" j] lt k(4) jq show False by simp
    qed
    then have "j * g \<le> k" using k(3) by (metis div_mult_mod_eq add.right_neutral mult_right_mono zero_le)
    then show "timer_due c d \<le> c + n" using k(2) due by simp
  qed
qed

lemma timer_level_bound: "d \<le> 258048 \<Longrightarrow> d < 64 * 8 ^ timer_level d"
  by (auto simp: timer_level_def)

lemma advance_n:
  assumes "tm_wf s" and "link (tmq s) t = Some (Bucket w l b)" and "l < 5"
    and "unat (clk (wheels s w)) + n < 2 ^ 64"
  shows "link (tmq ((wheel_advance_collect w ^^ n) s)) t =
      (if \<exists>k. unat (clk (wheels s w)) < k \<and> k \<le> unat (clk (wheels s w)) + n \<and> due_bucket k l = Some b
       then Some PendingQ else Some (Bucket w l b)) \<and>
    tm_wf ((wheel_advance_collect w ^^ n) s) \<and>
    unat (clk (wheels ((wheel_advance_collect w ^^ n) s) w)) = unat (clk (wheels s w)) + n"
  using assms(4)
proof (induction n)
  case 0
  then show ?case using assms by simp
next
  case (Suc n)
  let ?s = "(wheel_advance_collect w ^^ n) s" and ?c = "unat (clk (wheels s w))"
  have IH: "link (tmq ?s) t = (if \<exists>k. ?c < k \<and> k \<le> ?c + n \<and> due_bucket k l = Some b
       then Some PendingQ else Some (Bucket w l b))" "tm_wf ?s" "unat (clk (wheels ?s w)) = ?c + n"
    using Suc by auto
  have clk': "unat (clk (wheels ?s w) + 1) = ?c + Suc n"
    using IH(3) Suc.prems by (simp add: unat_plus_if_size word_size)
  have "(\<exists>k. ?c < k \<and> k \<le> ?c + Suc n \<and> due_bucket k l = Some b) \<longleftrightarrow>
      (\<exists>k. ?c < k \<and> k \<le> ?c + n \<and> due_bucket k l = Some b) \<or> due_bucket (?c + Suc n) l = Some b"
    (is "?L \<longleftrightarrow> ?R")
  proof
    assume ?R
    then show ?L by (metis add_Suc_right le_SucI less_add_Suc1 order_refl)
  qed (auto simp: le_Suc_eq)
  then show ?case
    using advance [OF IH(2), of w] IH(1) clk' assms(3) by (auto split: if_splits)
qed

lemma timer_add_armed:
  assumes wf: "tm_wf s" and "cb (timeout (tcb s th)) \<noteq> CB_NULL" and "delta \<le> ULMK_TIMER_TIMEOUT_MAX"
    and "unat (clk (wheels s (wheel_of s))) < 2 ^ 62"
  defines "w \<equiv> wheel_of s" and "c \<equiv> unat (clk (wheels s (wheel_of s)))" and "d \<equiv> max 1 (unat delta)"
  defines "s' \<equiv> snd (ulmk_timer_add th delta s)" and "l \<equiv> timer_level d"
  shows "fst (ulmk_timer_add th delta s) = ULMK_OK"
    and "link (tmq s') th = Some (Bucket w l ((c + d + 8 ^ l - 1) div 8 ^ l mod 64))"
    and "tm_wf s'" and "unat (clk (wheels s' w)) = c"
proof -
  let ?d = "if delta = 0 then 1 else delta" and ?b = "(c + d + 8 ^ l - 1) div 8 ^ l mod 64"
  have d: "unat ?d = d" and dmax: "d \<le> 258048"
  proof -
    have "unat delta \<ge> 1" if "delta \<noteq> 0"
      using that by (metis One_nat_def Suc_leI neq0_conv unat_eq_zero)
    then show "unat ?d = d" "d \<le> 258048"
      using assms(3) by (auto simp: d_def word_le_nat_alt max_def)
  qed
  have idx: "calc_wheel_index (clk (wheels s w) + ucast ?d) (clk (wheels s w)) = (l, ?b)"
    using calc_wheel_index_level [of ?d "clk (wheels s w)"] dmax assms(4) d
    unfolding w_def c_def l_def by simp
  have le: "\<not> ?d > ULMK_TIMER_TIMEOUT_MAX" using assms(3) by auto
  have w': "wheel_of (lock LTimer s) = w" by (simp add: wheel_of_def w_def)
  let ?q = "if q_linked th (tmq s) then q_remove th (tmq s) else tmq s"
  have run: "ulmk_timer_add th delta s = (ULMK_OK, unlock LTimer (upd_wheel w
      (\<lambda>x. x\<lparr>pending := (pending x)(l := pending x l OR push_bit ?b 1)\<rparr>)
      (upd_tmq (q_append (Bucket w l ?b) th) (upd_tcb th (\<lambda>x. x\<lparr>timeout := (timeout x)\<lparr>expires := clk (wheels s w) + ucast ?d\<rparr>\<rparr>)
        (if q_linked th (tmq s) then upd_tmq (q_remove th) (lock LTimer s) else lock LTimer s)))))"
    using assms(2) le idx unfolding ulmk_timer_add_def Let_def w'
    by (auto simp: split_beta)
  show "fst (ulmk_timer_add th delta s) = ULMK_OK" by (simp add: run)
  have tm: "tmq s' = q_append (Bucket w l ?b) th (q_remove th (tmq s))"
    by (auto simp: s'_def run q_remove_def)
  have wh: "wheels s' = (wheels s)(w := (wheels s w)\<lparr>pending := (pending (wheels s w))(l := pending (wheels s w) l OR push_bit ?b 1)\<rparr>)"
    by (auto simp: s'_def run)
  show "link (tmq s') th = Some (Bucket w l ?b)" by (simp add: tm link_move)
  show "unat (clk (wheels s' w)) = c" by (simp add: wh c_def w_def)
  show "tm_wf s'"
    using wf unfolding tm_wf_def tm wh
    by (auto simp: link_move q_wf_move dl_ub_move bit_set_pow split: if_splits)
qed


lemma timer_due_wrapped:
  assumes "64 * 8 ^ timer_level d < c mod 8 ^ timer_level d + d"
  shows "timer_due c d = c + (8 ^ timer_level d - c mod 8 ^ timer_level d)"
proof -
  let ?g = "8 ^ timer_level d :: nat"
  have "timer_due c d = c div ?g * ?g + ?g" using assms by (simp add: timer_due_def Let_def)
  moreover have "c div ?g * ?g + c mod ?g = c" by (rule div_mult_mod_eq)
  moreover have "c mod ?g < ?g" by simp
  ultimately show ?thesis by linarith
qed

text \<open>The state after the timer is armed and \<open>n\<close> ticks have passed.\<close>

lemma timer_pending_iff:
  assumes "tm_wf s" "cb (timeout (tcb s th)) \<noteq> CB_NULL" "delta \<le> ULMK_TIMER_TIMEOUT_MAX"
    and "unat (clk (wheels s (wheel_of s))) + n < 2 ^ 62"
  shows "th \<in> set (q_of (tmq ((wheel_advance_collect (wheel_of s) ^^ n)
            (snd (ulmk_timer_add th delta s)))) PendingQ)
    \<longleftrightarrow> timer_due (unat (clk (wheels s (wheel_of s)))) (max 1 (unat delta))
        \<le> unat (clk (wheels s (wheel_of s))) + n"
proof -
  let ?w = "wheel_of s" and ?c = "unat (clk (wheels s (wheel_of s)))" and ?d = "max 1 (unat delta)"
  let ?l = "timer_level ?d" and ?s1 = "snd (ulmk_timer_add th delta s)"
  have c: "?c < 2 ^ 62" using assms(4) by simp
  note a = timer_add_armed [OF assms(1-3) c]
  have l5: "?l < 5" by (simp add: timer_level_def)
  have fits: "unat (clk (wheels ?s1 ?w)) + n < 2 ^ 64" using a(4) assms(4) by simp
  note adv = advance_n [OF a(3) a(2) l5 fits, unfolded a(4)]
  have "?d \<le> 258048" using assms(3) by (simp add: word_le_nat_alt)
  then have "(\<exists>k. ?c < k \<and> k \<le> ?c + n \<and> due_bucket k ?l = Some ((?c + ?d + 8 ^ ?l - 1) div 8 ^ ?l mod 64))
      \<longleftrightarrow> timer_due ?c ?d \<le> ?c + n"
    by (intro due_first timer_level_bound) simp_all
  with adv show ?thesis
    by (simp add: tm_wf_def q_wf_mem)
qed



text \<open>C35. The corner case: when \<open>c mod g + d\<close> exceeds the 64 granules of the timer's level, the bucket
  index wraps past the current one and the timer is collected at the next edge of its level, before
  the requested time; for a delay of 511 ticks, up to 510 ticks early.\<close>

theorem timer_early_on_wrap:
  assumes "tm_wf s" "cb (timeout (tcb s th)) \<noteq> CB_NULL" "delta \<le> ULMK_TIMER_TIMEOUT_MAX"
    and "unat (clk (wheels s (wheel_of s))) < 2 ^ 61"
    and "d = max 1 (unat delta)" "g = 8 ^ timer_level d"
    and "64 * g < unat (clk (wheels s (wheel_of s))) mod g + d"
    and "n = g - unat (clk (wheels s (wheel_of s))) mod g"
    and "s' = (wheel_advance_collect (wheel_of s) ^^ n) (snd (ulmk_timer_add th delta s))"
  shows "th \<in> set (q_of (tmq s') PendingQ) \<and> n < d"
proof -
  let ?c = "unat (clk (wheels s (wheel_of s)))"
  have "g \<le> 4096" using assms(6) by (auto simp: timer_level_def)
  then have "?c + n < 2 ^ 62" using assms(4,8) by simp
  from timer_pending_iff [OF assms(1-3) this]
    timer_due_wrapped [of d ?c] assms(5-8)
  have "th \<in> set (q_of (tmq s') PendingQ)" unfolding assms(9) by simp
  moreover have "?c mod g < g" using assms(6) by simp
  then have "n < d" using assms(7,8) by linarith
  ultimately show ?thesis ..
qed

theorem timer_early_on_wrap_witness:
  "let s = (kzero up_cfg)\<lparr>tcb := (\<lambda>_. thread_zero\<lparr>timeout := \<lparr>expires = 0, cb = sleep_timeout_CB\<rparr>\<rparr>),
             wheels := (\<lambda>_. \<lparr>clk = 7, pending = (\<lambda>_. 0)\<rparr>)\<rparr>;
       s' = wheel_advance_collect (wheel_of s) (snd (ulmk_timer_add 4096 511 s))
   in 4096 \<in> set (q_of (tmq s') PendingQ)"
proof -
  let ?s = "(kzero up_cfg)\<lparr>tcb := (\<lambda>_. thread_zero\<lparr>timeout := \<lparr>expires = 0, cb = sleep_timeout_CB\<rparr>\<rparr>),
      wheels := (\<lambda>_. \<lparr>clk = 7, pending = (\<lambda>_. 0)\<rparr>)\<rparr>"
  have "tm_wf ?s" by (simp add: tm_wf_def q_nil_def q_wf_def)
  then show ?thesis
    using timer_early_on_wrap [of ?s 4096 511 511 8 1]
    by (simp add: timer_level_def)
qed

end
