(* ===== verification/Area.thy ===== *)
theory Area
  imports Timer_Wheel
begin

text \<open>
  Per-thread memory areas, \<^verbatim>\<open>kernel/mem/area.c\<close>, with the two hooks of \<^verbatim>\<open>kernel/mem/mem.c\<close> it calls and the
  kernel heap behind its lock. A \<^verbatim>\<open>struct ulmk_area_set *\<close> is the \<^verbatim>\<open>areas\<close> member of a TCB, so a set is named
  by its thread (\<^verbatim>\<open>set_owner\<close>). Loops over the derivation tree that a corrupted tree could keep
  running are \<open>partial_function\<close>s, whose \<open>None\<close> is a hang.
\<close>

section \<open>The heap behind its lock\<close>

definition k_heap_alloc :: "u32 \<Rightarrow> kstate \<Rightarrow> addr \<times> kstate" where
  "k_heap_alloc sz s =
     (if sz = 0 then (NULL, s)
      else let (p, h) = ulmk_heap_alloc sz (heap s)
           in (p, unlock LMem ((lock LMem s)\<lparr>heap := h\<rparr>)))"

definition k_heap_free :: "addr \<Rightarrow> kstate \<Rightarrow> kstate" where
  "k_heap_free p s =
     (if p = NULL then s else unlock LMem ((lock LMem s)\<lparr>heap := ulmk_heap_free p (heap s)\<rparr>))"

definition k_heap_aligned_alloc :: "u32 \<Rightarrow> u32 \<Rightarrow> kstate \<Rightarrow> addr \<times> kstate" where
  "k_heap_aligned_alloc align sz s =
     (if sz = 0 then (NULL, s)
      else if align \<le> TLSF_HDR then k_heap_alloc sz s
      else if align AND (align - 1) \<noteq> 0 then (NULL, s)
      else let (p, h) = ulmk_heap_aligned_alloc align sz (heap s)
           in (p, unlock LMem ((lock LMem s)\<lparr>heap := h\<rparr>)))"

section \<open>Sets\<close>

abbreviation ULMK_AREA_BACKED :: u8 where "ULMK_AREA_BACKED \<equiv> 1"

definition upd_area :: "addr \<Rightarrow> (ulmk_area \<Rightarrow> ulmk_area) \<Rightarrow> kstate \<Rightarrow> kstate" where
  "upd_area a f s = s\<lparr>ars := (ars s)(a := f (ars s a))\<rparr>"

definition upd_set :: "addr \<Rightarrow> (area_set \<Rightarrow> area_set) \<Rightarrow> kstate \<Rightarrow> kstate" where
  "upd_set th f s = upd_tcb th (\<lambda>x. x\<lparr>areas := f (areas x)\<rparr>) s"

abbreviation set_list :: "kstate \<Rightarrow> addr \<Rightarrow> addr list" where
  "set_list s th \<equiv> as_list (areas (tcb s th))"

definition ulmk_area_set_init :: "addr \<Rightarrow> kstate \<Rightarrow> kstate" where
  "ulmk_area_set_init th s = upd_set th (\<lambda>_. \<lparr>as_list = [], as_count = 0\<rparr>) s"

definition overlaps :: "addr \<Rightarrow> u32 \<Rightarrow> addr \<Rightarrow> u32 \<Rightarrow> bool" where
  "overlaps a alen b blen \<longleftrightarrow> a < b + blen \<and> b < a + alen"

text \<open>The walk that finds the place of a new area: the part of the list before it and the part after
  it, or \<open>None\<close> when an overlap is met.\<close>

fun area_link :: "kstate \<Rightarrow> addr \<Rightarrow> u32 \<Rightarrow> addr list \<Rightarrow> (addr list \<times> addr list) option" where
  "area_link s base sz [] = Some ([], [])"
| "area_link s base sz (a # as) =
     (if ar_base (ars s a) < base
      then (if overlaps (ar_base (ars s a)) (ar_size (ars s a)) base sz then None
            else map_option (\<lambda>(l, r). (a # l, r)) (area_link s base sz as))
      else if overlaps (ar_base (ars s a)) (ar_size (ars s a)) base sz then None
      else Some ([], a # as))"

definition ulmk_area_insert ::
    "addr \<Rightarrow> addr \<Rightarrow> u32 \<Rightarrow> u32 \<Rightarrow> u8 \<Rightarrow> u8 \<Rightarrow> addr \<Rightarrow> kstate \<Rightarrow> int \<times> addr \<times> kstate" where
  "ulmk_area_insert th base sz perms ty fl parent s =
     (if sz = 0 \<or> base + sz < base then (ULMK_EINVAL, NULL, s)
      else case area_link s base sz (set_list s th) of
        None \<Rightarrow> (ULMK_EINVAL, NULL, s)
      | Some (l, r) \<Rightarrow>
          (let (a, s) = k_heap_alloc (sizeof_area (cfg s)) s
           in if a = NULL then (ULMK_ENOMEM, NULL, s)
              else
                let s = upd_area a (\<lambda>_. \<lparr>ar_parent = parent, ar_children = [], ar_set = th,
                          ar_base = base, ar_size = sz, ar_perms = perms, ar_type = ty, ar_flags = fl\<rparr>) s;
                    s = (if parent \<noteq> NULL
                         then upd_area parent (\<lambda>p. p\<lparr>ar_children := a # ar_children p\<rparr>) s else s);
                    s = upd_set th (\<lambda>x. \<lparr>as_list = l @ a # r, as_count = as_count x + 1\<rparr>) s
                in (ULMK_OK, a, s)))"

fun area_find_list :: "kstate \<Rightarrow> addr \<Rightarrow> addr list \<Rightarrow> addr" where
  "area_find_list s p [] = NULL"
| "area_find_list s p (a # as) =
     (if ar_base (ars s a) \<le> p
      then (if p - ar_base (ars s a) < ar_size (ars s a) then a else area_find_list s p as)
      else NULL)"

definition ulmk_area_find :: "addr \<Rightarrow> addr \<Rightarrow> kstate \<Rightarrow> addr" where
  "ulmk_area_find th p s = area_find_list s p (set_list s th)"

fun area_find_base_list :: "kstate \<Rightarrow> addr \<Rightarrow> addr list \<Rightarrow> addr" where
  "area_find_base_list s b [] = NULL"
| "area_find_base_list s b (a # as) =
     (if ar_base (ars s a) \<le> b
      then (if ar_base (ars s a) = b then a else area_find_base_list s b as)
      else NULL)"

definition ulmk_area_find_base :: "addr \<Rightarrow> addr \<Rightarrow> kstate \<Rightarrow> addr" where
  "ulmk_area_find_base th b s = area_find_base_list s b (set_list s th)"

definition ulmk_area_range_ok :: "addr \<Rightarrow> addr \<Rightarrow> u32 \<Rightarrow> u32 \<Rightarrow> kstate \<Rightarrow> bool" where
  "ulmk_area_range_ok th p len perms s =
     (if len = 0 then True
      else let a = ulmk_area_find th p s
           in if a = NULL \<or> ar_perms (ars s a) AND perms \<noteq> perms then False
              else len \<le> ar_size (ars s a) - (p - ar_base (ars s a)))"

section \<open>Dropping areas\<close>

text \<open>The hooks of \<^verbatim>\<open>mem.c\<close>.\<close>

definition ulmk_kern_area_dropped :: "addr \<Rightarrow> kstate \<Rightarrow> kstate" where
  "ulmk_kern_area_dropped th s =
     (if th = ulmk_sched_current s then emit (EvMpuFlush (cpu_id s)) s
      else if smp (cfg s) \<and> cpu (tcb s th) \<noteq> word_of_nat (cpu_id s) \<and>
              current (ulmk_percpu_of (unat (cpu (tcb s th))) s) = th
      then upd_this_cpu (\<lambda>pc. pc\<lparr>mpu_shootdown := mpu_shootdown pc OR push_bit (unat (cpu (tcb s th))) 1\<rparr>) s
      else s)"

definition ulmk_kern_area_retire :: "addr \<Rightarrow> kstate \<Rightarrow> kstate" where
  "ulmk_kern_area_retire a s = upd_this_cpu (\<lambda>pc. pc\<lparr>area_retired := a # area_retired pc\<rparr>) s"

definition set_unlink :: "addr \<Rightarrow> kstate \<Rightarrow> kstate" where
  "set_unlink a s =
     (let th = ar_set (ars s a)
      in if th = NULL then s
         else
           let s = (if a \<in> set (set_list s th)
                    then upd_set th (\<lambda>x. \<lparr>as_list = remove1 a (as_list x), as_count = as_count x - 1\<rparr>) s
                    else s);
               s = upd_area a (\<lambda>x. x\<lparr>ar_set := NULL\<rparr>) s
           in ulmk_kern_area_dropped th s)"

definition parent_unlink :: "addr \<Rightarrow> kstate \<Rightarrow> kstate" where
  "parent_unlink a s =
     (let p = ar_parent (ars s a)
      in if p = NULL then s
         else upd_area p (\<lambda>x. x\<lparr>ar_children := remove1 a (ar_children x)\<rparr>) s)"

partial_function (option) release_up :: "addr \<Rightarrow> kstate \<Rightarrow> kstate option" where
  "release_up a s =
     (if a = NULL then Some s
      else
        let p = ar_parent (ars s a);
            s = parent_unlink a s;
            s = (if ar_flags (ars s a) AND ULMK_AREA_BACKED \<noteq> 0 then ulmk_kern_area_retire a s
                 else k_heap_free a s)
        in if p = NULL \<or> ar_set (ars s p) \<noteq> NULL \<or> ar_children (ars s p) \<noteq> [] then Some s
           else release_up p s)"

text \<open>\<^verbatim>\<open>ulmk_area_revoke\<close>: one turn of the inner \<^verbatim>\<open>while\<close> descends to the first child, one turn of the outer
  loop detaches a leaf.\<close>

partial_function (option) revoke_loop :: "addr \<Rightarrow> addr \<Rightarrow> kstate \<Rightarrow> kstate option" where
  "revoke_loop a n s =
     (case ar_children (ars s n) of
        c # _ \<Rightarrow> revoke_loop a c s
      | [] \<Rightarrow>
          (if n = a then Some s
           else
             let p = ar_parent (ars s n);
                 s = upd_area p (\<lambda>x. x\<lparr>ar_children := tl (ar_children x)\<rparr>) s;
                 s = set_unlink n s;
                 s = k_heap_free n s
             in revoke_loop a p s))"

definition or_hang :: "kstate \<Rightarrow> kstate option \<Rightarrow> kstate" where
  "or_hang s r = (case r of Some s' \<Rightarrow> s' | None \<Rightarrow> s\<lparr>hang := True\<rparr>)"

definition ulmk_area_revoke :: "addr \<Rightarrow> kstate \<Rightarrow> kstate" where
  "ulmk_area_revoke a s =
     (if a = NULL then s
      else or_hang s (Option.bind (revoke_loop a a s) (\<lambda>s. release_up a (set_unlink a s))))"

partial_function (option) set_release_loop :: "addr \<Rightarrow> kstate \<Rightarrow> kstate option" where
  "set_release_loop th s =
     (case set_list s th of
        [] \<Rightarrow> Some s
      | a # _ \<Rightarrow>
          (let s = set_unlink a s
           in if ar_children (ars s a) = []
              then Option.bind (release_up a s) (set_release_loop th)
              else set_release_loop th s))"

definition ulmk_area_set_release :: "addr \<Rightarrow> kstate \<Rightarrow> kstate" where
  "ulmk_area_set_release th s = or_hang s (set_release_loop th s)"

fun area_inherit_list :: "addr \<Rightarrow> addr list \<Rightarrow> kstate \<Rightarrow> int \<times> kstate" where
  "area_inherit_list dst [] s = (ULMK_OK, s)"
| "area_inherit_list dst (a # as) s =
     (let x = ars s a;
          (rc, _, s) = ulmk_area_insert dst (ar_base x) (ar_size x) (ar_perms x) (ar_type x) 0 a s
      in if rc \<noteq> ULMK_OK then (rc, s) else area_inherit_list dst as s)"

definition ulmk_area_inherit :: "addr \<Rightarrow> addr \<Rightarrow> kstate \<Rightarrow> int \<times> kstate" where
  "ulmk_area_inherit dst src s = area_inherit_list dst (set_list s src) s"

section \<open>Windows\<close>

text \<open>The doubling loop runs at most 32 times from a non-zero size; \<open>fuel\<close> is that bound.\<close>

fun window_grow :: "nat \<Rightarrow> addr \<Rightarrow> u32 \<Rightarrow> addr \<Rightarrow> u32 \<Rightarrow> addr \<Rightarrow> u32 \<times> addr" where
  "window_grow 0 lo asz p sz b = (sz, b)"
| "window_grow (Suc n) lo asz p sz b =
     (if sz \<le> 0x7FFFFFFF
      then let nb = p AND NOT (push_bit 1 sz - 1)
           in if asz < push_bit 1 sz \<or> nb < lo \<or> nb - lo > asz - push_bit 1 sz then (sz, b)
              else window_grow n lo asz p (push_bit 1 sz) nb
      else (sz, b))"

definition ulmk_area_window :: "kconfig \<Rightarrow> ulmk_area \<Rightarrow> addr \<Rightarrow> arch_region option" where
  "ulmk_area_window cf a p =
     (if p < ar_base a \<or> p - ar_base a \<ge> ar_size a then None
      else
        let lo = ar_base a; wmin = mpu_win_min cf
        in if mpu_win_pow2 cf
           then
             let b = p AND NOT (wmin - 1)
             in if ar_size a < wmin \<or> b < lo \<or> b - lo > ar_size a - wmin then None
                else let (sz, b) = window_grow 32 lo (ar_size a) p wmin b
                     in Some \<lparr>r_base = b, r_size = sz, r_perms = ar_perms a, r_type = ar_type a\<rparr>
           else
             let b = (lo + wmin - 1) AND NOT (wmin - 1);
                 nb = (lo + ar_size a) AND NOT (wmin - 1)
             in if p < b \<or> p \<ge> nb then None
                else
                  let (b, nb) =
                    (case mpu_win_max cf of
                       None \<Rightarrow> (b, nb)
                     | Some wmax \<Rightarrow>
                         if nb - b > wmax
                         then let b = p AND NOT (wmin - 1)
                              in (b, if nb - b > wmax then b + wmax else nb)
                         else (b, nb))
                  in Some \<lparr>r_base = b, r_size = nb - b, r_perms = ar_perms a, r_type = ar_type a\<rparr>)"

end
