(* ===== verification/Thread_Registry.thy ===== *)
theory Thread_Registry
  imports Area
begin

text \<open>
  The first half of \<^verbatim>\<open>kernel/thread/thread.c\<close>: initialising a TCB, the registry of live threads and the
  lookup of a thread by its id, on which every other component relies. The lifecycle system calls are in
  theory Thread.
\<close>

definition upd_regq :: "((unit, addr) qstore \<Rightarrow> (unit, addr) qstore) \<Rightarrow> kstate \<Rightarrow> kstate" where
  "upd_regq f s = s\<lparr>regq := f (regq s)\<rparr>"

definition tcb_registry_ensure_init :: "kstate \<Rightarrow> kstate" where
  "tcb_registry_ensure_init s =
     (if reg_inited s then s else (upd_regq (q_init ()) s)\<lparr>reg_inited := True\<rparr>)"

definition region_zero :: arch_region where
  "region_zero = \<lparr>r_base = 0, r_size = 0, r_perms = 0, r_type = 0\<rparr>"

definition ulmk_thread_init :: "addr \<Rightarrow> ulmk_thread_attr \<Rightarrow> addr \<Rightarrow> kstate \<Rightarrow> int \<times> kstate" where
  "ulmk_thread_init th attr stack s =
     (if th = NULL \<or> stack = NULL \<or> at_entry attr = NULL then (ULMK_EINVAL, s)
      else if at_stack_size attr = 0 then (ULMK_EINVAL, s)
      else
        let s = upd_rqs (q_node_init th) s;
            s = upd_ipcq (q_node_init th) s;
            s = upd_regq (q_node_init th) s;
            s = upd_tmq (q_node_init th) s;
            s = upd_tcb th (\<lambda>x. x\<lparr>timeout := \<lparr>expires = 0, cb = CB_NULL\<rparr>,
                  stack_base := stack, stack_size := at_stack_size attr, stack_alloc := NULL,
                  priority := at_priority attr, cpu := at_cpu attr, saved_prio := at_priority attr,
                  state := READY, blocked_reason := BLOCKED_NONE, privilege := at_privilege attr,
                  tid := th, blocked_ep := ULMK_EP_INVALID, blocked_notif := ULMK_NOTIF_INVALID,
                  ipc_sender := ULMK_TID_INVALID, notif_received := 0, notif_wait_mask := 0,
                  block_status := 0, syscall_wake_ret := 0, syscall_wake_ret_valid := False,
                  ipc_msg_outptr := NULL, ipc_sender_outptr := NULL, notif_bits_outptr := NULL,
                  rn_result_outptr := NULL,
                  cap_flags := (if at_privilege attr = ULMK_PRIV_KERNEL then ULMK_CAP_ALL else 0)\<rparr>) s;
            s = ulmk_area_set_init th s;
            s = upd_tcb th (\<lambda>x. x\<lparr>stack_region :=
                  (if at_privilege attr \<noteq> ULMK_PRIV_KERNEL
                   then \<lparr>r_base = stack, r_size = at_stack_size attr,
                         r_perms = ULMK_PERM_READ OR ULMK_PERM_WRITE, r_type = ULMK_REGION_STACK\<rparr>
                   else region_zero)\<rparr>) s;
            s = (if smp (cfg s)
                 then
                   let s = upd_tcb th (\<lambda>x. x\<lparr>start_entry := at_entry attr, start_arg := at_arg attr\<rparr>) s
                   in if at_cpu attr \<noteq> word_of_nat (cpu_id s) \<and> ctx_on_affinity_cpu (cfg s)
                      then upd_tcb th (\<lambda>x. x\<lparr>ctx_ready := False\<rparr>) s
                      else upd_tcb th (\<lambda>x. x\<lparr>ctx_ready := True\<rparr>)
                             (emit (EvCtxInit th (at_entry attr) (at_arg attr)
                                (stack + at_stack_size attr) (at_privilege attr)) s)
                 else emit (EvCtxInit th (at_entry attr) (at_arg attr)
                        (stack + at_stack_size attr) (at_privilege attr)) s);
            s = tcb_registry_ensure_init s
        in (ULMK_OK, upd_regq (q_append () th) s))"

definition ulmk_thread_ensure_ctx :: "addr \<Rightarrow> kstate \<Rightarrow> kstate" where
  "ulmk_thread_ensure_ctx th s =
     (if \<not> smp (cfg s) then s
      else if th = NULL \<or> ctx_ready (tcb s th) then s
      else if cpu (tcb s th) \<noteq> word_of_nat (cpu_id s) then s
      else upd_tcb th (\<lambda>x. x\<lparr>ctx_ready := True\<rparr>)
             (emit (EvCtxInit th (start_entry (tcb s th)) (start_arg (tcb s th))
                (stack_base (tcb s th) + stack_size (tcb s th)) (privilege (tcb s th))) s))"

definition ulmk_thread_by_tid :: "addr \<Rightarrow> kstate \<Rightarrow> addr" where
  "ulmk_thread_by_tid t s =
     (if t = ULMK_TID_INVALID \<or> t = NULL then NULL
      else if state (tcb s t) = DEAD then NULL
      else if \<not> q_linked t (regq s) then NULL
      else t)"

definition ulmk_thread_set_state :: "addr \<Rightarrow> thread_state \<Rightarrow> kstate \<Rightarrow> kstate" where
  "ulmk_thread_set_state th st s = upd_tcb th (\<lambda>x. x\<lparr>state := st\<rparr>) s"

end
