(* ===== verification/Xcall.thy ===== *)
theory Xcall
  imports Sched
begin

text \<open>
  Cross-CPU calls, \<^verbatim>\<open>kernel/sched/xcall.c\<close>. The kernel's operations see a call as atomic: the function
  runs with the identity of the target CPU and control comes back with its result (\<open>ulmk_xcall\<close>).
\<close>

text \<open>The caller spins until the target has run the function under its own CPU id; an offline CPU or
  the caller's own is served directly.\<close>

definition ulmk_xcall :: "nat \<Rightarrow> (kstate \<Rightarrow> 'a \<times> kstate) \<Rightarrow> kstate \<Rightarrow> 'a \<times> kstate" where
  "ulmk_xcall c fn s =
     (if c = cpu_id s \<or> \<not> online (ulmk_percpu_of c s) then fn s
      else
        let me = cpu_id s;
            (rc, s) = fn ((emit (EvSendIpi c) s)\<lparr>cpu_id := c\<rparr>)
        in (rc, s\<lparr>cpu_id := me\<rparr>))"

end
