(* ===== verification/Mem.thy ===== *)
theory Mem
  imports Thread_Registry Xcall
begin

text \<open>
  The memory system calls, \<^verbatim>\<open>kernel/mem/mem.c\<close>: mapping, unmapping, granting and revoking areas,
  the fault handler that loads a window into the MPU, and the settlement that flushes other CPUs before a
  retired block goes back to the heap.
\<close>

abbreviation ULMK_MMAP_ANON :: u32 where "ULMK_MMAP_ANON \<equiv> 1"
abbreviation ULMK_MMAP_PERIPH :: u32 where "ULMK_MMAP_PERIPH \<equiv> 2"
abbreviation ULMK_MMAP_SHARED :: u32 where "ULMK_MMAP_SHARED \<equiv> 4"
abbreviation MEM_PERMS :: u32 where "MEM_PERMS \<equiv> 7"

definition mpu_flush_xcall :: "kstate \<Rightarrow> u32 \<times> kstate" where
  "mpu_flush_xcall s = (0, emit (EvMpuFlush (cpu_id s)) s)"

definition mem_settle :: "kstate \<Rightarrow> kstate" where
  "mem_settle s =
     (let as = area_retired (ulmk_percpu s);
          s = upd_this_cpu (\<lambda>pc. pc\<lparr>area_retired := []\<rparr>) s;
          s = (if smp (cfg s)
               then
                 let msk = mpu_shootdown (ulmk_percpu s);
                     s = upd_this_cpu (\<lambda>pc. pc\<lparr>mpu_shootdown := 0\<rparr>) s
                 in fold (\<lambda>c s. if bit msk c then snd (ulmk_xcall c mpu_flush_xcall s) else s) [0..<32] s
               else s)
      in fold (\<lambda>a s. k_heap_free a (k_heap_free (ar_base (ars s a)) s)) as s)"

definition ulmk_kern_mem_fault :: "addr \<Rightarrow> u32 \<Rightarrow> kstate \<Rightarrow> bool \<times> kstate" where
  "ulmk_kern_mem_fault p access s =
     (let cur = ulmk_sched_current s
      in if cur = NULL \<or> privilege (tcb s cur) = ULMK_PRIV_KERNEL then (False, s)
         else
           let s = lock LArea s;
               a = ulmk_area_find cur p s;
               (ok, s) =
                 (if a \<noteq> NULL \<and> ar_perms (ars s a) AND access = access
                  then (case ulmk_area_window (cfg s) (ars s a) p of
                          Some win \<Rightarrow> (arch_mpu_load (cfg s) win, emit (EvMpuLoad win) s)
                        | None \<Rightarrow> (False, s))
                  else (False, s))
           in (ok, unlock LArea s))"

definition ulmk_kern_mem_map :: "u32 \<Rightarrow> u32 \<Rightarrow> u32 \<Rightarrow> u32 \<Rightarrow> kstate \<Rightarrow> u32 \<times> kstate" where
  "ulmk_kern_mem_map hint sz perms fl s =
     (let cur = ulmk_sched_current s
      in if cur = NULL \<or> sz = 0 then (ret_u32 ULMK_EINVAL, s)
         else
           let kind = (if fl AND ULMK_MMAP_PERIPH \<noteq> 0 then Some (ULMK_REGION_PERIPH, 0)
                       else if fl AND ULMK_MMAP_SHARED \<noteq> 0 then Some (ULMK_REGION_SHARED, 0)
                       else if fl AND ULMK_MMAP_ANON \<noteq> 0 then Some (ULMK_REGION_HEAP, ULMK_AREA_BACKED)
                       else None)
           in case kind of
                None \<Rightarrow> (ret_u32 ULMK_EINVAL, s)
              | Some (ty, aflags) \<Rightarrow>
                  (let al = region_align (cfg s);
                       len = (if aflags AND ULMK_AREA_BACKED \<noteq> 0 then (sz + al - 1) AND NOT (al - 1) else sz);
                       (base, s) = (if aflags AND ULMK_AREA_BACKED \<noteq> 0 then k_heap_aligned_alloc al len s
                                    else (hint, s))
                   in if base = NULL
                      then (ret_u32 (if aflags AND ULMK_AREA_BACKED \<noteq> 0 then ULMK_ENOMEM else ULMK_EINVAL), s)
                      else
                        let s = lock LArea s;
                            (rc, _, s) = ulmk_area_insert cur base len (perms AND MEM_PERMS) ty aflags NULL s;
                            s = unlock LArea s
                        in if rc \<noteq> ULMK_OK
                           then (ret_u32 rc, if aflags AND ULMK_AREA_BACKED \<noteq> 0 then k_heap_free base s else s)
                           else (base, s)))"

definition ulmk_kern_mem_unmap :: "u32 \<Rightarrow> u32 \<Rightarrow> kstate \<Rightarrow> u32 \<times> kstate" where
  "ulmk_kern_mem_unmap p sz s =
     (let cur = ulmk_sched_current s
      in if cur = NULL \<or> p = 0 then (ret_u32 ULMK_EINVAL, s)
         else
           let s = lock LArea s;
               a = ulmk_area_find_base cur p s;
               s = (if a \<noteq> NULL then ulmk_area_revoke a s else s);
               s = mem_settle (unlock LArea s)
           in (if a \<noteq> NULL then ret_u32 ULMK_OK else ret_u32 ULMK_EINVAL, s))"

definition ulmk_kern_mem_grant :: "u32 \<Rightarrow> u32 \<Rightarrow> u32 \<Rightarrow> u32 \<Rightarrow> kstate \<Rightarrow> u32 \<times> kstate" where
  "ulmk_kern_mem_grant p sz target_tid perms s =
     (let cur = ulmk_sched_current s
      in if cur = NULL \<or> p = 0 then (ret_u32 ULMK_EINVAL, s)
         else
           let target = ulmk_thread_by_tid target_tid s
           in if target = NULL then (ret_u32 ULMK_ESRCH, s)
              else
                let s = lock LArea s;
                    a = ulmk_area_find_base cur p s;
                    (rc, s) =
                      (if a = NULL then (ULMK_EPERM, s)
                       else
                         let x = ars s a;
                             ty = (if ar_type x = ULMK_REGION_HEAP then ULMK_REGION_GRANT else ar_type x);
                             (rc, _, s) = ulmk_area_insert target (ar_base x) (ar_size x)
                                            (perms AND ar_perms x) ty 0 a s
                         in (rc, s))
                in (ret_u32 rc, unlock LArea s))"

text \<open>The walk up the derivation tree, \<open>None\<close> when it never ends.\<close>

partial_function (option) derived_from :: "kstate \<Rightarrow> addr \<Rightarrow> addr \<Rightarrow> bool option" where
  "derived_from s p a =
     (if p = NULL then Some False
      else if p = a then Some True
      else derived_from s (ar_parent (ars s p)) a)"

definition ulmk_kern_mem_revoke :: "u32 \<Rightarrow> u32 \<Rightarrow> kstate \<Rightarrow> u32 \<times> kstate" where
  "ulmk_kern_mem_revoke p target_tid s =
     (let cur = ulmk_sched_current s
      in if cur = NULL \<or> p = 0 then (ret_u32 ULMK_EINVAL, s)
         else
           let target = ulmk_thread_by_tid target_tid s
           in if target = NULL then (ret_u32 ULMK_ESRCH, s)
              else
                let s = lock LArea s;
                    a = ulmk_area_find_base cur p s;
                    t = ulmk_area_find_base target p s;
                    (rc, s) =
                      (if a = NULL then (ULMK_EPERM, s)
                       else if t = NULL then (ULMK_EINVAL, s)
                       else case derived_from s (ar_parent (ars s t)) a of
                              None \<Rightarrow> (ULMK_OK, s\<lparr>hang := True\<rparr>)
                            | Some True \<Rightarrow> (ULMK_OK, ulmk_area_revoke t s)
                            | Some False \<Rightarrow> (ULMK_EPERM, s))
                in (ret_u32 rc, mem_settle (unlock LArea s)))"

definition ulmk_mem_thread_release :: "addr \<Rightarrow> kstate \<Rightarrow> kstate" where
  "ulmk_mem_thread_release th s =
     (let s = lock LArea s;
          s = ulmk_area_set_release th s
      in mem_settle (unlock LArea s))"

definition ulmk_mem_thread_inherit :: "addr \<Rightarrow> addr \<Rightarrow> kstate \<Rightarrow> int \<times> kstate" where
  "ulmk_mem_thread_inherit child parent s =
     (let (rc, s) = ulmk_area_inherit child parent (lock LArea s)
      in (rc, unlock LArea s))"

end
