(* ===== verification/Area_Inv.thy ===== *)
theory Area_Inv
  imports Mem Heap_Contract
begin

text \<open>
  The invariant of memory areas. The live area records form a forest by derivation
  (\<open>forest\<close>), every thread holds a sorted list of areas that do not meet (\<open>held\<close>), a derived area has the
  range of its origin and no more rights (\<open>derives\<close>), and the kernel heap accounts exactly for the
  records and the blocks behind them (\<open>owns\<close>). The loops of \<^verbatim>\<open>area.c\<close> end and keep it.
\<close>

section \<open>The derivation forest\<close>

abbreviation backed :: "ulmk_area \<Rightarrow> bool" where
  "backed x \<equiv> ar_flags x AND ULMK_AREA_BACKED \<noteq> 0"

definition forest :: "(addr \<Rightarrow> ulmk_area) \<Rightarrow> (addr \<Rightarrow> nat) \<Rightarrow> addr set \<Rightarrow> bool" where
  "forest A r L \<longleftrightarrow> finite L \<and> NULL \<notin> L \<and>
     (\<forall>a\<in>L. ar_parent (A a) \<noteq> NULL \<longrightarrow> ar_parent (A a) \<in> L \<and>
        a \<in> set (ar_children (A (ar_parent (A a)))) \<and> r (ar_parent (A a)) < r a) \<and>
     (\<forall>a\<in>L. distinct (ar_children (A a)) \<and> (\<forall>c\<in>set (ar_children (A a)). c \<in> L \<and> ar_parent (A c) = a))"

definition spaced :: "(addr \<Rightarrow> ulmk_area) \<Rightarrow> addr list \<Rightarrow> bool" where
  "spaced A as \<longleftrightarrow>
     sorted_wrt (\<lambda>a b. unat (ar_base (A a)) + unat (ar_size (A a)) \<le> unat (ar_base (A b))) as \<and>
     (\<forall>a\<in>set as. ar_size (A a) \<noteq> 0 \<and> unat (ar_base (A a)) + unat (ar_size (A a)) < 2 ^ 32)"

definition holding :: "(addr \<Rightarrow> ulmk_area) \<Rightarrow> (addr \<Rightarrow> addr list) \<Rightarrow> addr set \<Rightarrow> bool" where
  "holding A S L \<longleftrightarrow> S NULL = [] \<and>
     (\<forall>th. spaced A (S th) \<and> (\<forall>a\<in>set (S th). a \<in> L \<and> ar_set (A a) = th)) \<and>
     (\<forall>a\<in>L. ar_set (A a) \<noteq> NULL \<longrightarrow> a \<in> set (S (ar_set (A a))))"

definition derives :: "(addr \<Rightarrow> ulmk_area) \<Rightarrow> addr set \<Rightarrow> bool" where
  "derives A L \<longleftrightarrow> (\<forall>a\<in>L. let p = ar_parent (A a) in p \<noteq> NULL \<longrightarrow>
     ar_base (A a) = ar_base (A p) \<and> ar_size (A a) = ar_size (A p) \<and>
     ar_perms (A a) AND ar_perms (A p) = ar_perms (A a) \<and> \<not> backed (A a))"

definition area_inv :: "(addr \<Rightarrow> ulmk_area) \<Rightarrow> (addr \<Rightarrow> addr list) \<Rightarrow> (addr \<Rightarrow> nat) \<Rightarrow> addr set \<Rightarrow> bool" where
  "area_inv A S r L \<longleftrightarrow> forest A r L \<and> holding A S L \<and> derives A L"

text \<open>A record no thread holds lives on only for the areas derived from it.\<close>

definition anchored :: "(addr \<Rightarrow> ulmk_area) \<Rightarrow> addr set \<Rightarrow> bool" where
  "anchored A L \<longleftrightarrow> (\<forall>a\<in>L. ar_set (A a) = NULL \<longrightarrow> ar_children (A a) \<noteq> [])"

lemma area_invD:
  assumes "area_inv A S r L"
  shows "finite L" "NULL \<notin> L"
    "\<And>a. a \<in> L \<Longrightarrow> ar_parent (A a) \<noteq> NULL \<Longrightarrow>
      ar_parent (A a) \<in> L \<and> a \<in> set (ar_children (A (ar_parent (A a)))) \<and> r (ar_parent (A a)) < r a"
    "\<And>a. a \<in> L \<Longrightarrow> distinct (ar_children (A a))"
    "\<And>a c. a \<in> L \<Longrightarrow> c \<in> set (ar_children (A a)) \<Longrightarrow> c \<in> L \<and> ar_parent (A c) = a"
    "S NULL = []" "\<And>th. spaced A (S th)" "\<And>th a. a \<in> set (S th) \<Longrightarrow> a \<in> L \<and> ar_set (A a) = th"
    "\<And>a. a \<in> L \<Longrightarrow> ar_set (A a) \<noteq> NULL \<Longrightarrow> a \<in> set (S (ar_set (A a)))"
    "\<And>a. a \<in> L \<Longrightarrow> ar_parent (A a) \<noteq> NULL \<Longrightarrow> ar_base (A a) = ar_base (A (ar_parent (A a))) \<and>
      ar_size (A a) = ar_size (A (ar_parent (A a))) \<and>
      ar_perms (A a) AND ar_perms (A (ar_parent (A a))) = ar_perms (A a) \<and> \<not> backed (A a)"
  using assms by (auto simp: area_inv_def forest_def holding_def derives_def Let_def)

lemma spaced_distinct: "spaced A as \<Longrightarrow> distinct as"
proof (induction as)
  case (Cons a as)
  have "unat (ar_size (A a)) > 0" using Cons.prems by (simp add: spaced_def unat_gt_0)
  then have "a \<notin> set as" using Cons.prems by (auto simp: spaced_def)
  with Cons show ?case by (simp add: spaced_def)
qed simp

lemma spaced_filter: "spaced A as \<Longrightarrow> spaced A (filter P as)"
  by (auto simp: spaced_def intro: sorted_wrt_filter)

lemma spaced_cong:
  assumes "spaced A as" "\<And>a. a \<in> set as \<Longrightarrow> ar_base (A' a) = ar_base (A a) \<and> ar_size (A' a) = ar_size (A a)"
  shows "spaced A' as"
  using assms by (auto simp: spaced_def elim!: sorted_wrt_mono_rel [rotated])

lemma remove1_ne: "distinct xs \<Longrightarrow> remove1 n xs = filter (\<lambda>b. b \<noteq> n) xs"
proof (induction xs)
  case (Cons x xs)
  have "n \<notin> set xs \<Longrightarrow> filter (\<lambda>b. b \<noteq> n) xs = xs" by (induction xs) auto
  with Cons show ?case by auto
qed simp

lemma spaced_remove1: "spaced A as \<Longrightarrow> spaced A (remove1 n as)"
  by (simp add: remove1_ne [OF spaced_distinct] spaced_filter)

text \<open>Taking a leaf out of the forest, its parent's children and its holder's list.\<close>

lemma area_inv_drop:
  assumes "area_inv A S r L" "n \<in> L" "ar_children (A n) = []"
    and A': "\<And>b. b \<in> L - {n} \<Longrightarrow> A' b = (A b)\<lparr>ar_children := remove1 n (ar_children (A b))\<rparr>"
  shows "area_inv A' (\<lambda>th. remove1 n (S th)) r (L - {n})"
proof -
  note I = area_invD [OF assms(1)]
  have par: "ar_parent (A a) \<noteq> n" if "a \<in> L" for a using I(2) I(3) [of a] that assms(2,3) by force
  have dS: "distinct (S th)" for th using I(7) spaced_distinct by blast
  have "forest A' r (L - {n})"
    unfolding forest_def using I(1,2) I(3,4,5) par A' by (auto simp: set_remove1_eq)
  moreover have "spaced A' (remove1 n (S th))" for th
  proof -
    have "spaced A (remove1 n (S th))" by (rule spaced_remove1 [OF I(7)])
    moreover have "a \<in> L - {n}" if "a \<in> set (remove1 n (S th))" for a using that dS [of th] I(8) [of a th] by auto
    ultimately show ?thesis using A' by (auto elim: spaced_cong)
  qed
  then have "holding A' (\<lambda>th. remove1 n (S th)) (L - {n})"
    unfolding holding_def using I(6,8,9) A' dS by auto
  moreover have "derives A' (L - {n})"
    unfolding derives_def Let_def using I(3,10) A' par by auto
  ultimately show ?thesis by (simp add: area_inv_def)
qed

lemma area_inv_unheld:
  assumes "area_inv A S r L" "a \<in> L"
  shows "area_inv (A(a := (A a)\<lparr>ar_set := NULL\<rparr>)) (\<lambda>th. remove1 a (S th)) r L"
proof -
  note I = area_invD [OF assms(1)]
  let ?A = "A(a := (A a)\<lparr>ar_set := NULL\<rparr>)"
  have dS: "distinct (S th)" for th using I(7) spaced_distinct by blast
  have f: "ar_base (?A b) = ar_base (A b)" "ar_size (?A b) = ar_size (A b)" "ar_parent (?A b) = ar_parent (A b)"
    "ar_children (?A b) = ar_children (A b)" "ar_perms (?A b) = ar_perms (A b)" "ar_flags (?A b) = ar_flags (A b)" for b by auto
  have "spaced ?A (remove1 a (S th))" for th
    by (rule spaced_cong [OF spaced_remove1 [OF I(7)]]) simp
  then have "holding ?A (\<lambda>th. remove1 a (S th)) L"
    unfolding holding_def using I(6,8,9) dS by auto
  moreover have "forest ?A r L" "derives ?A L"
    using assms(1) unfolding area_inv_def forest_def derives_def Let_def f by blast+
  ultimately show ?thesis by (simp add: area_inv_def)
qed

section \<open>Ownership of heap blocks\<close>

definition backing :: "(addr \<Rightarrow> ulmk_area) \<Rightarrow> addr set \<Rightarrow> addr set" where
  "backing A M = (\<lambda>a. ar_base (A a)) ` {a \<in> M. backed (A a)}"

text \<open>The live blocks \<open>U\<close> of the heap are exactly the records \<open>M\<close>, the blocks behind them, and the blocks \<open>V\<close> of others.\<close>

definition owns :: "(addr \<Rightarrow> ulmk_area) \<Rightarrow> addr set \<Rightarrow> addr set \<Rightarrow> (addr \<rightharpoonup> nat) \<Rightarrow> bool" where
  "owns A M V U \<longleftrightarrow> dom U = V \<union> M \<union> backing A M \<and> V \<inter> (M \<union> backing A M) = {} \<and> M \<inter> backing A M = {} \<and>
     inj_on (\<lambda>a. ar_base (A a)) {a \<in> M. backed (A a)}"

lemma backing_cong:
  "(\<And>a. a \<in> M \<Longrightarrow> ar_base (A' a) = ar_base (A a) \<and> ar_flags (A' a) = ar_flags (A a)) \<Longrightarrow> backing A' M = backing A M"
  unfolding backing_def by (rule image_cong) auto

lemma owns_cong:
  assumes "\<And>a. a \<in> M \<Longrightarrow> ar_base (A' a) = ar_base (A a) \<and> ar_flags (A' a) = ar_flags (A a)" "owns A M V U"
  shows "owns A' M V U"
proof -
  have "{a \<in> M. backed (A' a)} = {a \<in> M. backed (A a)}" using assms(1) by auto
  moreover have "inj_on (\<lambda>a. ar_base (A' a)) {a \<in> M. backed (A a)} = inj_on (\<lambda>a. ar_base (A a)) {a \<in> M. backed (A a)}"
    using assms(1) by (intro inj_on_cong) auto
  ultimately show ?thesis using assms(2) backing_cong [OF assms(1)] by (simp add: owns_def)
qed

lemma owns_free_record:
  assumes "owns A M V U" "a \<in> M" "\<not> backed (A a)"
  shows "owns A (M - {a}) V (U(a := None))" "U a \<noteq> None"
proof -
  have "backing A (M - {a}) = backing A M" "{b \<in> M - {a}. backed (A b)} = {b \<in> M. backed (A b)}"
    using assms(3) by (auto simp: backing_def)
  with assms(1,2) show "owns A (M - {a}) V (U(a := None))" "U a \<noteq> None" by (auto simp: owns_def)
qed

lemma owns_free_backed:
  assumes "owns A M V U" "a \<in> M" "backed (A a)"
  shows "owns A (M - {a}) V (U(ar_base (A a) := None, a := None))" "U (ar_base (A a)) \<noteq> None" "U a \<noteq> None" "ar_base (A a) \<noteq> a"
proof -
  have b: "ar_base (A a) \<in> backing A M" using assms(2,3) by (auto simp: backing_def)
  have "backing A (M - {a}) = backing A M - {ar_base (A a)}"
    using assms by (auto simp: backing_def owns_def inj_on_def)
  moreover have "inj_on (\<lambda>a. ar_base (A a)) {b \<in> M - {a}. backed (A b)}"
    by (rule inj_on_subset [of _ "{b \<in> M. backed (A b)}"]) (use assms(1) in \<open>auto simp: owns_def\<close>)
  ultimately show "owns A (M - {a}) V (U(ar_base (A a) := None, a := None))" "U (ar_base (A a)) \<noteq> None" "U a \<noteq> None" "ar_base (A a) \<noteq> a"
    using assms(1,2) b by (auto simp: owns_def)
qed

section \<open>The invariant of the state\<close>

text \<open>What the functions of \<^verbatim>\<open>area.c\<close> work on.\<close>

definition av :: "kstate \<Rightarrow> (addr \<Rightarrow> ulmk_area) \<times> (addr \<Rightarrow> addr list) \<times> tlsf \<times> addr list \<times> bool" where
  "av s = (ars s, (\<lambda>th. set_list s th), heap s, area_retired (ulmk_percpu s), hang s)"

definition mem_ok :: "addr \<Rightarrow> addr \<Rightarrow> addr set \<Rightarrow> (addr \<Rightarrow> nat) \<Rightarrow> addr set \<Rightarrow> kstate \<Rightarrow> bool" where
  "mem_ok x e V r L s \<longleftrightarrow> (case av s of (A, S, h, R, _) \<Rightarrow>
     area_inv A S r L \<and> distinct R \<and> set R \<inter> L = {} \<and> (\<forall>a\<in>set R. backed (A a)) \<and>
     (\<exists>U. heap_ok h x e U \<and> owns A (L \<union> set R) V U))"

lemma ulmk_percpu_this: "ulmk_percpu (upd_this_cpu f s) = f (ulmk_percpu s)"
  by (simp add: ulmk_percpu_def percpu_upd_this_cpu percpu_ix_def)

lemma av_frame [simp]:
  "av (emit ev s) = av s" "av (lock l s) = av s" "av (unlock l s) = av s"
  by (simp_all add: av_def ulmk_percpu_def percpu_ix_def)

lemma av_upd_area: "av (upd_area a f s) = (case av s of (A, S, h, R, g) \<Rightarrow> (A(a := f (A a)), S, h, R, g))"
  by (simp add: av_def upd_area_def ulmk_percpu_def percpu_ix_def)

lemma av_upd_set: "av (upd_set th f s) =
    (case av s of (A, S, h, R, g) \<Rightarrow> (A, S(th := as_list (f (areas (tcb s th)))), h, R, g))"
  by (auto simp: av_def upd_set_def ulmk_percpu_def percpu_ix_def fun_eq_iff)

lemma av_this_cpu:
  "(\<And>pc. area_retired (f pc) = area_retired pc) \<Longrightarrow> av (upd_this_cpu f s) = av s"
  by (simp add: av_def ulmk_percpu_this)

lemma av_dropped [simp]: "av (ulmk_kern_area_dropped th s) = av s"
  by (simp add: ulmk_kern_area_dropped_def av_this_cpu)

lemma av_retire: "av (ulmk_kern_area_retire a s) = (case av s of (A, S, h, R, g) \<Rightarrow> (A, S, h, a # R, g))"
  by (simp add: ulmk_kern_area_retire_def av_def ulmk_percpu_this)

lemma av_heap_free: "p \<noteq> NULL \<Longrightarrow> av (k_heap_free p s) = (case av s of (A, S, h, R, g) \<Rightarrow> (A, S, ulmk_heap_free p h, R, g))"
  by (simp add: k_heap_free_def av_def ulmk_percpu_def percpu_ix_def)

lemma mem_ok_cong: "av s' = av s \<Longrightarrow> mem_ok x e V r L s' = mem_ok x e V r L s"
  by (simp add: mem_ok_def)

text \<open>\<open>pruned A S A' S' L'\<close>: only the records in \<open>L'\<close> are left, otherwise unchanged.\<close>

definition pruned :: "kstate \<Rightarrow> kstate \<Rightarrow> addr set \<Rightarrow> bool" where
  "pruned s s' L' \<longleftrightarrow>
     (\<forall>b\<in>L'. ars s' b = (ars s b)\<lparr>ar_children := filter (\<lambda>c. c \<in> L') (ar_children (ars s b))\<rparr>) \<and>
     (\<forall>th. set_list s' th = filter (\<lambda>b. b \<in> L') (set_list s th)) \<and> hang s' = hang s"

lemma pruned_trans:
  assumes "pruned s s1 L1" "pruned s1 s2 L2" "L2 \<subseteq> L1"
  shows "pruned s s2 L2"
proof -
  have "filter (\<lambda>c. c \<in> L2) (filter (\<lambda>c. c \<in> L1) xs) = filter (\<lambda>c. c \<in> L2) xs" for xs
    using assms(3) by (auto intro!: filter_cong simp: filter_filter)
  with assms show ?thesis by (auto simp: pruned_def subset_iff)
qed

lemma mem_okD:
  assumes "mem_ok x e V r L s"
  shows "area_inv (ars s) (\<lambda>th. set_list s th) r L" "distinct (area_retired (ulmk_percpu s))"
    "set (area_retired (ulmk_percpu s)) \<inter> L = {}" "\<forall>a\<in>set (area_retired (ulmk_percpu s)). backed (ars s a)"
    "\<exists>U. heap_ok (heap s) x e U \<and> owns (ars s) (L \<union> set (area_retired (ulmk_percpu s))) V U"
  using assms by (auto simp: mem_ok_def av_def)

lemma mem_okI:
  assumes "av s = (A, S, h, R, g)" "area_inv A S r L" "distinct R" "set R \<inter> L = {}" "\<forall>a\<in>set R. backed (A a)"
    "heap_ok h x e U" "owns A (L \<union> set R) V U"
  shows "mem_ok x e V r L s"
  using assms by (auto simp: mem_ok_def)

lemma av_fields:
  "av s = (A, S, h, R, g) \<Longrightarrow> ars s = A" "av s = (A, S, h, R, g) \<Longrightarrow> set_list s th = S th" "av s = (A, S, h, R, g) \<Longrightarrow> heap s = h"
  "av s = (A, S, h, R, g) \<Longrightarrow> area_retired (ulmk_percpu s) = R" "av s = (A, S, h, R, g) \<Longrightarrow> hang s = g"
  by (auto simp: av_def)

lemma set_unlink_view:
  assumes "\<And>th. a \<in> set (set_list s th) \<longleftrightarrow> th \<noteq> NULL \<and> th = ar_set (ars s a)"
  shows "av (set_unlink a s) = ((ars s)(a := (ars s a)\<lparr>ar_set := NULL\<rparr>), (\<lambda>th. remove1 a (set_list s th)), heap s,
    area_retired (ulmk_percpu s), hang s)"
proof (cases "ar_set (ars s a) = NULL")
  case True
  then have "a \<notin> set (set_list s th)" for th using assms by auto
  with True show ?thesis
    by (simp add: set_unlink_def av_def remove1_idem) (metis (mono_tags, lifting) fun_upd_triv ulmk_area.surjective ulmk_area.update_convs(3))
next
  case False
  then show ?thesis
    using assms by (simp add: set_unlink_def Let_def av_upd_area av_upd_set)
      (auto simp: av_def fun_eq_iff remove1_idem)
qed

lemma mem_ok_holder:
  assumes "mem_ok x e V r L s" "a \<in> L"
  shows "a \<in> set (set_list s th) \<longleftrightarrow> th \<noteq> NULL \<and> th = ar_set (ars s a)"
  using area_invD(6) [OF mem_okD(1) [OF assms(1)]] area_invD(8) [OF mem_okD(1) [OF assms(1)], of a th]
    area_invD(9) [OF mem_okD(1) [OF assms(1)] assms(2)] by auto

lemmas set_unlink_av = set_unlink_view [OF mem_ok_holder]

lemma mem_ok_set_unlink:
  assumes "mem_ok x e V r L s" "a \<in> L"
  shows "mem_ok x e V r L (set_unlink a s)"
proof -
  note M = mem_okD [OF assms(1)]
  obtain U where U: "heap_ok (heap s) x e U" "owns (ars s) (L \<union> set (area_retired (ulmk_percpu s))) V U" using M(5) by blast
  have "owns ((ars s)(a := (ars s a)\<lparr>ar_set := NULL\<rparr>)) (L \<union> set (area_retired (ulmk_percpu s))) V U"
    by (rule owns_cong [OF _ U(2)]) simp
  from mem_okI [OF set_unlink_av [OF assms] area_inv_unheld [OF M(1) assms(2)] M(2,3) _ U(1) this]
  show ?thesis using M(4) by simp
qed

section \<open>Dropping a leaf\<close>

definition edges :: "(addr \<Rightarrow> ulmk_area) \<Rightarrow> addr set \<Rightarrow> (addr \<times> addr) set" where
  "edges A L = {(c, ar_parent (A c)) | c. c \<in> L \<and> ar_parent (A c) \<noteq> NULL}"

lemma child_removal:
  assumes "area_inv A S r L" "n \<in> L" "b \<in> L" "b \<noteq> ar_parent (A n)"
  shows "remove1 n (ar_children (A b)) = ar_children (A b)"
  using area_invD(5) [OF assms(1,3), of n] assms(4) by (auto intro: remove1_idem)

text \<open>Detaching a childless record from its parent and freeing it.\<close>

lemma drop_leaf:
  assumes ok: "mem_ok x e V r L s" and n: "n \<in> L" "ar_children (ars s n) = []" "\<not> backed (ars s n)" "ar_set (ars s n) = NULL"
    and s': "av s' = (A', (\<lambda>th. set_list s th), ulmk_heap_free n (heap s), area_retired (ulmk_percpu s), hang s)"
    and A': "\<And>b. b \<in> L - {n} \<Longrightarrow> A' b = (ars s b)\<lparr>ar_children := remove1 n (ar_children (ars s b))\<rparr>"
      "\<And>b. b \<in> set (area_retired (ulmk_percpu s)) \<Longrightarrow> A' b = ars s b"
  shows "mem_ok x e V r (L - {n}) s'" "pruned s s' (L - {n})"
proof -
  let ?R = "area_retired (ulmk_percpu s)"
  note M = mem_okD [OF ok]
  note I = area_invD [OF M(1)]
  obtain U where U: "heap_ok (heap s) x e U" "owns (ars s) (L \<union> set ?R) V U" using M(5) by blast
  have nS: "n \<notin> set (set_list s th)" for th using I(6) I(8) [of n th] n(4) by (cases "th = NULL") auto
  have f: "owns (ars s) (L \<union> set ?R - {n}) V (U(n := None))" "U n \<noteq> None"
    using owns_free_record [OF U(2), of n] n(1,3) by auto
  have "L \<union> set ?R - {n} = (L - {n}) \<union> set ?R" using M(3) n(1) by auto
  with f(1) have "owns A' ((L - {n}) \<union> set ?R) V (U(n := None))"
    using A' by (auto intro: owns_cong [rotated])
  moreover have "heap_ok (ulmk_heap_free n (heap s)) x e (U(n := None))" by (rule heap_free_ok [OF U(1) f(2)])
  moreover have "area_inv A' (\<lambda>th. set_list s th) r (L - {n})"
    using area_inv_drop [OF M(1) n(1,2), of A'] A'(1) nS by (simp add: remove1_idem)
  ultimately show "mem_ok x e V r (L - {n}) s'"
    by (intro mem_okI [OF s']) (use M(2-4) A'(2) in auto)
  have "filter (\<lambda>b. b \<in> L - {n}) (set_list s th) = set_list s th" for th
    using I(8) nS [of th] by (intro filter_True) auto
  moreover have "filter (\<lambda>c. c \<in> L - {n}) (ar_children (ars s b)) = remove1 n (ar_children (ars s b))" if "b \<in> L" for b
    using I(4,5) [OF that] by (simp add: remove1_ne) (auto intro!: filter_cong)
  ultimately show "pruned s s' (L - {n})"
    using A'(1) by (auto simp: pruned_def av_fields [OF s'])
qed

lemma child_rank:
  assumes "area_inv A S r L" "m \<in> L" "c \<in> set (ar_children (A m))"
  shows "c \<in> L" "ar_parent (A c) = m" "r m < r c" "m \<noteq> NULL" "(c, m) \<in> edges A L"
proof -
  show c: "c \<in> L" "ar_parent (A c) = m" "m \<noteq> NULL" using area_invD(2) [OF assms(1)] area_invD(5) [OF assms] assms(2) by auto
  then show "r m < r c" "(c, m) \<in> edges A L" using area_invD(3) [OF assms(1) c(1)] by (auto simp: edges_def)
qed

lemma leaf_edges:
  assumes "area_inv A S r L" "n \<in> L" "ar_children (A n) = []"
    "\<And>b. b \<in> L - {n} \<Longrightarrow> ar_parent (A' b) = ar_parent (A b)"
  shows "b \<noteq> n \<Longrightarrow> (b, a) \<in> (edges A' (L - {n}))\<^sup>+ \<longleftrightarrow> (b, a) \<in> (edges A L)\<^sup>+"
proof -
  have e: "edges A' (L - {n}) = {(b, p) \<in> edges A L. b \<noteq> n}" using assms(4) by (auto simp: edges_def)
  have into: "(c, n) \<notin> edges A L" for c
    using area_invD(3) [OF assms(1), of c] assms(2,3) by (fastforce simp: edges_def)
  assume "b \<noteq> n"
  have "(b, a) \<in> (edges A' (L - {n}))\<^sup>+" if "(b, a) \<in> (edges A L)\<^sup>+" "b \<noteq> n" for b a
    using that
  proof (induction rule: trancl_induct)
    case (base y)
    then show ?case by (auto simp: e)
  next
    case (step y z)
    have "y \<noteq> n" using step.hyps(1) into by (metis tranclE)
    with step have "(y, z) \<in> edges A' (L - {n})" by (auto simp: e)
    with step show ?case by (meson trancl.trancl_into_trancl)
  qed
  moreover have "(b, a) \<in> (edges A L)\<^sup>+" if "(b, a) \<in> (edges A' (L - {n}))\<^sup>+"
    using that by (rule trancl_mono) (auto simp: e)
  ultimately show ?thesis using \<open>b \<noteq> n\<close> by blast
qed

section \<open>Revoking a subtree\<close>

text \<open>The records \<^verbatim>\<open>ulmk_area_revoke\<close> visits are reached by first children.\<close>

inductive spine :: "(addr \<Rightarrow> ulmk_area) \<Rightarrow> addr \<Rightarrow> addr \<Rightarrow> bool" for A a where
  top: "spine A a a"
| down: "spine A a m \<Longrightarrow> ar_children (A m) = c # cs \<Longrightarrow> spine A a c"

lemma spine_live: "spine A a n \<Longrightarrow> area_inv A S r L \<Longrightarrow> a \<in> L \<Longrightarrow> n \<in> L"
  by (induction rule: spine.induct) (auto dest: area_invD(5))

lemma spine_under:
  "spine A a n \<Longrightarrow> area_inv A S r L \<Longrightarrow> a \<in> L \<Longrightarrow> n = a \<or> (n, a) \<in> (edges A L)\<^sup>+"
proof (induction rule: spine.induct)
  case (down m c cs)
  have "m \<in> L" by (rule spine_live [OF down(1,4,5)])
  with child_rank(5) [OF down(4), of m c] down(2) have "(c, m) \<in> edges A L" by simp
  with down show ?case by (auto intro: trancl_into_trancl2)
qed simp

lemma spine_parent:
  assumes "spine A a n" "n \<noteq> a" "area_inv A S r L" "a \<in> L"
  shows "spine A a (ar_parent (A n))" "\<exists>cs. ar_children (A (ar_parent (A n))) = n # cs" "ar_parent (A n) \<in> L"
    "ar_parent (A n) \<noteq> NULL" "r (ar_parent (A n)) < r n"
proof -
  obtain m cs where m: "spine A a m" "ar_children (A m) = n # cs" using assms(1,2) by (auto elim: spine.cases)
  note mL = spine_live [OF m(1) assms(3,4)]
  from child_rank [OF assms(3) mL, of n] m mL
  show "spine A a (ar_parent (A n))" "\<exists>cs. ar_children (A (ar_parent (A n))) = n # cs" "ar_parent (A n) \<in> L"
    "ar_parent (A n) \<noteq> NULL" "r (ar_parent (A n)) < r n" by auto
qed

lemma spine_keep:
  assumes "spine A a m" "area_inv A S r L" "a \<in> L" "r m \<le> k"
    "\<And>b. b \<in> L \<Longrightarrow> r b < k \<Longrightarrow> ar_children (A' b) = ar_children (A b)"
  shows "spine A' a m"
  using assms
proof (induction rule: spine.induct)
  case (down m c cs)
  have m: "m \<in> L" by (rule spine_live [OF down(1,4,5)])
  with child_rank(3) [OF down(4) m, of c] down(2) have "r m < r c" by auto
  with down m show ?case by (auto intro: spine.down)
qed (rule spine.top)

lemma pruned_unlink:
  assumes "mem_ok x e V r L s" "n \<in> L" "n \<notin> L'" "pruned (set_unlink n s) s' L'"
  shows "pruned s s' L'"
proof -
  note t = av_fields [OF set_unlink_av [OF assms(1,2)]]
  have "distinct (set_list s th)" for th by (rule spaced_distinct [OF area_invD(7) [OF mem_okD(1) [OF assms(1)]]])
  then have "filter (\<lambda>b. b \<in> L') (remove1 n (set_list s th)) = filter (\<lambda>b. b \<in> L') (set_list s th)" for th
    using assms(3) by (auto simp: remove1_ne intro!: filter_cong)
  with assms(3,4) show ?thesis by (auto simp: pruned_def t)
qed

text \<open>One turn of the loop: the leaf \<open>n\<close>, first child of \<open>p\<close>, goes.\<close>

definition revoke_leaf :: "addr \<Rightarrow> kstate \<Rightarrow> kstate" where
  "revoke_leaf n s = k_heap_free n (set_unlink n
     (upd_area (ar_parent (ars s n)) (\<lambda>x. x\<lparr>ar_children := tl (ar_children x)\<rparr>) s))"

lemma revoke_leaf_ok:
  assumes ok: "mem_ok x e V r L s" and n: "n \<in> L" "ar_children (ars s n) = []"
    and p: "p = ar_parent (ars s n)" "p \<in> L" "p \<noteq> NULL" "r p < r n" "ar_children (ars s p) = n # cs"
  shows "mem_ok x e V r (L - {n}) (revoke_leaf n s)" "pruned s (revoke_leaf n s) (L - {n})"
proof -
  note M = mem_okD [OF ok]
  note I = area_invD [OF M(1)]
  define s1 where "s1 = upd_area p (\<lambda>x. x\<lparr>ar_children := tl (ar_children x)\<rparr>) s"
  have hold: "n \<in> set (set_list s1 th) \<longleftrightarrow> th \<noteq> NULL \<and> th = ar_set (ars s1 n)" for th
    using mem_ok_holder [OF ok n(1), of th] p(4) by (auto simp: s1_def upd_area_def)
  have nn: "n \<noteq> NULL" "n \<noteq> p" using n(1) I(2) p(4) by auto
  let ?t = "set_unlink n s"
  let ?A = "(ars ?t)(p := (ars ?t p)\<lparr>ar_children := tl (ar_children (ars ?t p))\<rparr>)"
  note t = set_unlink_av [OF ok n(1)]
  have s3: "av (revoke_leaf n s) = (?A, (\<lambda>th. set_list ?t th), ulmk_heap_free n (heap ?t), area_retired (ulmk_percpu ?t), hang ?t)"
    using nn by (simp add: revoke_leaf_def p(1) [symmetric] s1_def [symmetric] av_heap_free set_unlink_view [OF hold] av_fields [OF t])
      (simp add: s1_def upd_area_def ulmk_percpu_def percpu_ix_def fun_upd_twist)
  have A: "?A b = (ars ?t b)\<lparr>ar_children := remove1 n (ar_children (ars ?t b))\<rparr>" if "b \<in> L - {n}" for b
    using child_removal [OF M(1) n(1), of b] that p(1,5) by (auto simp: av_fields [OF t])
  have tn: "ar_children (ars ?t n) = []" "\<not> backed (ars ?t n)" "ar_set (ars ?t n) = NULL"
    using n(2) I(10) [OF n(1)] p(1,3) by (simp_all add: av_fields [OF t])
  have R: "?A b = ars ?t b" if "b \<in> set (area_retired (ulmk_percpu ?t))" for b
    using that M(3) p(2) av_fields(4) [OF t] by auto
  note D = drop_leaf [OF mem_ok_set_unlink [OF ok n(1)] n(1) tn s3 A R]
  show "mem_ok x e V r (L - {n}) (revoke_leaf n s)" by (rule D(1))
  show "pruned s (revoke_leaf n s) (L - {n})" by (rule pruned_unlink [OF ok n(1) _ D(2)]) simp
qed

definition below :: "(addr \<Rightarrow> ulmk_area) \<Rightarrow> addr set \<Rightarrow> addr \<Rightarrow> addr set" where
  "below A L a = {b. (b, a) \<in> (edges A L)\<^sup>+}"

lemma below_leaf:
  assumes "area_inv A S r L" "n \<in> L" "ar_children (A n) = []"
    "\<And>b. b \<in> L - {n} \<Longrightarrow> ar_parent (A' b) = ar_parent (A b)"
  shows "below A' (L - {n}) a = below A L a - {n}"
proof -
  have "(n, a) \<notin> (edges A' (L - {n}))\<^sup>+" by (auto simp: edges_def dest: tranclD)
  with leaf_edges [OF assms] have "b \<in> below A' (L - {n}) a \<longleftrightarrow> b \<in> below A L a - {n}" for b
    by (cases "b = n") (simp_all add: below_def)
  then show ?thesis by blast
qed

lemma below_empty:
  assumes "area_inv A S r L" "n \<in> L" "ar_children (A n) = []"
  shows "below A L n = {}"
proof -
  have "(c, n) \<notin> edges A L" for c
    using area_invD(3) [OF assms(1), of c] assms(3) by (fastforce simp: edges_def)
  then show ?thesis by (auto simp: below_def elim: tranclE)
qed

lemma revoke_loop_ok:
  assumes "mem_ok x e V r L s" "a \<in> L" "spine (ars s) a n"
  shows "\<exists>s'. revoke_loop a n s = Some s' \<and> mem_ok x e V r (L - below (ars s) L a) s' \<and>
    pruned s s' (L - below (ars s) L a)"
proof -
  define K where "K = Suc (Max (r ` L))"
  have "finite L" by (rule area_invD(1) [OF mem_okD(1) [OF assms(1)]])
  then have "\<forall>b\<in>L. r b < K" by (auto simp: K_def less_Suc_eq_le)
  with assms show ?thesis
  proof (induction "(L, n)" arbitrary: L n s rule: wf_induct_rule
      [OF wf_measures [of "[\<lambda>(L, n). card L, \<lambda>(L, n). K - r n]"]])
    case 1
    note IH = 1(1) and ok = 1(2) and aL = 1(3) and sp = 1(4) and K = 1(5)
    note M = mem_okD [OF ok]
    note I = area_invD [OF M(1)]
    have n: "n \<in> L" by (rule spine_live [OF sp M(1) aL])
    show ?case
    proof (cases "ar_children (ars s n)")
      case (Cons c cs)
      then have c: "c \<in> L" "r n < r c" using child_rank [OF M(1) n, of c] by auto
      with K c(1) have "((L, c), (L, n)) \<in> measures [\<lambda>(L, n). card L, \<lambda>(L, n). K - r n]" by auto
      from IH [OF this ok aL spine.down [OF sp Cons] K] show ?thesis
        by (subst revoke_loop.simps) (simp add: Cons)
    next
      case Nil
      show ?thesis
      proof (cases "n = a")
        case True
        have "below (ars s) L a = {}"
          using below_empty [OF M(1) n Nil] True by simp
        moreover have "pruned s s L" using I(5,8) by (auto simp: pruned_def intro!: filter_True [symmetric])
        ultimately show ?thesis using ok True Nil by (subst revoke_loop.simps) simp
      next
        case False
        define p where "p = ar_parent (ars s n)"
        note P = spine_parent [OF sp False M(1) aL, folded p_def]
        obtain cs where cs: "ar_children (ars s p) = n # cs" using P(2) by blast
        let ?s = "revoke_leaf n s"
        have step: "revoke_loop a n s = revoke_loop a p ?s"
          by (subst revoke_loop.simps) (simp add: Nil False p_def revoke_leaf_def Let_def)
        note s3 = revoke_leaf_ok [OF ok n Nil p_def P(3-5) cs]
        have A: "ars ?s b = (ars s b)\<lparr>ar_children := filter (\<lambda>c. c \<in> L - {n}) (ar_children (ars s b))\<rparr>" if "b \<in> L - {n}" for b
          using s3(2) that by (auto simp: pruned_def)
        have "ar_children (ars ?s b) = ar_children (ars s b)" if "b \<in> L" "r b < r p" for b
        proof -
          have "n \<notin> set (ar_children (ars s b))" "b \<noteq> n" using child_rank(2) [OF M(1) that(1), of n] that(2) P(5) by (auto simp: p_def)
          with A [of b] that I(5) [OF that(1)] show ?thesis by (auto intro!: filter_True)
        qed
        then have "spine (ars ?s) a p" by (rule spine_keep [OF P(1) M(1) aL order_refl])
        moreover have "((L - {n}, p), (L, n)) \<in> measures [\<lambda>(L, n). card L, \<lambda>(L, n). K - r n]"
          using card_Diff1_less [OF I(1) n] by (simp del: card_Diff_insert)
        moreover have "a \<in> L - {n}" "\<forall>b\<in>L - {n}. r b < K" using aL False K by auto
        moreover have "L - {n} - below (ars ?s) (L - {n}) a = L - below (ars s) L a"
          using below_leaf [OF M(1) n Nil, of "ars ?s" a] A spine_under [OF sp M(1) aL] False by (auto simp: below_def)
        ultimately obtain s' where "revoke_loop a p ?s = Some s'" "mem_ok x e V r (L - below (ars s) L a) s'"
            "pruned ?s s' (L - below (ars s) L a)"
          using IH [OF _ s3(1)] by metis
        moreover from this(3) have "pruned s s' (L - below (ars s) L a)"
          by (rule pruned_trans [OF s3(2)]) (use spine_under [OF sp M(1) aL] False in \<open>auto simp: below_def\<close>)
        ultimately show ?thesis by (simp add: step)
      qed
    qed
  qed
qed

section \<open>Releasing upwards\<close>

definition release_one :: "addr \<Rightarrow> kstate \<Rightarrow> kstate" where
  "release_one a s = (let s = parent_unlink a s
     in if backed (ars s a) then ulmk_kern_area_retire a s else k_heap_free a s)"

lemma pruned_leaf:
  assumes "mem_ok x e V r L s" "n \<in> L" "ar_set (ars s n) = NULL"
    "\<And>b. b \<in> L - {n} \<Longrightarrow> ars s' b = (ars s b)\<lparr>ar_children := remove1 n (ar_children (ars s b))\<rparr>"
    "\<And>th. set_list s' th = set_list s th" "hang s' = hang s"
  shows "pruned s s' (L - {n})"
proof -
  note I = area_invD [OF mem_okD(1) [OF assms(1)]]
  have "filter (\<lambda>b. b \<in> L - {n}) (set_list s th) = set_list s th" for th
    using I(8) mem_ok_holder [OF assms(1,2), of th] assms(3) by (intro filter_True) auto
  moreover have "filter (\<lambda>c. c \<in> L - {n}) (ar_children (ars s b)) = remove1 n (ar_children (ars s b))" if "b \<in> L" for b
    using I(4,5) [OF that] by (simp add: remove1_ne) (auto intro!: filter_cong)
  ultimately show ?thesis using assms(4-6) by (auto simp: pruned_def)
qed

lemma release_one_ok:
  assumes ok: "mem_ok x e V r L s" and a: "a \<in> L" "ar_children (ars s a) = []" "ar_set (ars s a) = NULL"
  shows "mem_ok x e V r (L - {a}) (release_one a s)" "pruned s (release_one a s) (L - {a})"
    "backed (ars s a) \<Longrightarrow> ar_parent (ars s a) = NULL"
proof -
  note M = mem_okD [OF ok]
  note I = area_invD [OF M(1)]
  define p where "p = ar_parent (ars s a)"
  have a0: "a \<noteq> NULL" using a(1) I(2) by auto
  show bp: "ar_parent (ars s a) = NULL" if "backed (ars s a)" using I(10) [OF a(1)] that by auto
  have pa: "p \<noteq> a" using I(3) [OF a(1)] a0 by (auto simp: p_def)
  have "mem_ok x e V r (L - {a}) (release_one a s) \<and> pruned s (release_one a s) (L - {a})"
  proof (cases "backed (ars s a)")
    case True
    with bp have s': "release_one a s = ulmk_kern_area_retire a s" by (simp add: release_one_def parent_unlink_def Let_def)
    have av': "av (release_one a s) = (ars s, (\<lambda>th. set_list s th), heap s, a # area_retired (ulmk_percpu s), hang s)"
      by (simp add: s' av_retire) (simp add: av_def)
    obtain U where U: "heap_ok (heap s) x e U" "owns (ars s) (L \<union> set (area_retired (ulmk_percpu s))) V U" using M(5) by blast
    have nc: "remove1 a (ar_children (ars s b)) = ar_children (ars s b)" if "b \<in> L" for b
      using child_removal [OF M(1) a(1) that] bp [OF True] I(2) that by auto
    have "area_inv (ars s) (\<lambda>th. set_list s th) r (L - {a})"
      using area_inv_drop [OF M(1) a(1,2), of "ars s"] nc mem_ok_holder [OF ok a(1)] a(3) by (simp add: remove1_idem)
    moreover have "(L - {a}) \<union> set (a # area_retired (ulmk_percpu s)) = L \<union> set (area_retired (ulmk_percpu s))" using a(1) by auto
    ultimately have "mem_ok x e V r (L - {a}) (release_one a s)"
      by (intro mem_okI [OF av' _ _ _ _ U(1)]) (use M(2-4) True a(1) U(2) in auto)
    moreover have "pruned s (release_one a s) (L - {a})"
      by (rule pruned_leaf [OF ok a(1,3)]) (simp_all add: av_fields [OF av'] nc)
    ultimately show ?thesis by blast
  next
    case False
    let ?A = "if p = NULL then ars s else (ars s)(p := (ars s p)\<lparr>ar_children := remove1 a (ar_children (ars s p))\<rparr>)"
    have "release_one a s = k_heap_free a (parent_unlink a s)"
      using False pa by (simp add: release_one_def Let_def parent_unlink_def upd_area_def p_def)
    then have av': "av (release_one a s) = (?A, (\<lambda>th. set_list s th), ulmk_heap_free a (heap s), area_retired (ulmk_percpu s), hang s)"
      using a0 by (simp add: av_heap_free parent_unlink_def Let_def av_upd_area p_def) (simp add: av_def)
    have A: "?A b = (ars s b)\<lparr>ar_children := remove1 a (ar_children (ars s b))\<rparr>" if "b \<in> L - {a}" for b
    proof -
      have "b \<noteq> NULL" using that I(2) by auto
      with child_removal [OF M(1) a(1), of b] that show ?thesis by (auto simp: p_def)
    qed
    have R: "?A b = ars s b" if "b \<in> set (area_retired (ulmk_percpu s))" for b
      using that M(3) I(3) [OF a(1)] by (auto simp: p_def)
    from drop_leaf [OF ok a(1,2) False a(3) av' A R] show ?thesis by blast
  qed
  then show "mem_ok x e V r (L - {a}) (release_one a s)" "pruned s (release_one a s) (L - {a})" by blast+
qed

lemma release_up_ok:
  assumes "mem_ok x e V r L s" "a \<in> L" "ar_children (ars s a) = []" "ar_set (ars s a) = NULL" "anchored (ars s) (L - {a})"
  shows "\<exists>s' L'. release_up a s = Some s' \<and> mem_ok x e V r L' s' \<and> anchored (ars s') L' \<and> pruned s s' L' \<and>
    L' \<subseteq> L - {a} \<and> (\<forall>b\<in>L - L'. ar_set (ars s b) = NULL)"
  using assms
proof (induction "card L" arbitrary: L a s rule: less_induct)
  case less
  note ok = less(2) and a = less(3-5) and anch = less(6)
  note M = mem_okD [OF ok]
  note I = area_invD [OF M(1)]
  define p where "p = ar_parent (ars s a)"
  define s1 where "s1 = release_one a s"
  have a0: "a \<noteq> NULL" using a(1) I(2) by auto
  note one = release_one_ok(1,2) [OF ok a, folded s1_def]
  have pL: "p \<in> L - {a}" if "p \<noteq> NULL" using I(3) [OF a(1)] that by (auto simp: p_def)
  have A: "ars s1 b = (ars s b)\<lparr>ar_children := filter (\<lambda>c. c \<in> L - {a}) (ar_children (ars s b))\<rparr>" if "b \<in> L - {a}" for b
    using one(2) that by (auto simp: pruned_def)
  have step: "release_up a s = (if p = NULL \<or> ar_set (ars s1 p) \<noteq> NULL \<or> ar_children (ars s1 p) \<noteq> [] then Some s1 else release_up p s1)"
    using a0 by (subst release_up.simps) (simp add: s1_def release_one_def p_def Let_def)
  have anch1: "anchored (ars s1) (L - {a} - {p})"
    unfolding anchored_def
  proof (intro ballI impI)
    fix b assume b: "b \<in> L - {a} - {p}" "ar_set (ars s1 b) = NULL"
    then have "ar_children (ars s b) \<noteq> []" "ar_set (ars s b) = NULL" using anch A [of b] by (auto simp: anchored_def)
    moreover have "a \<notin> set (ar_children (ars s b))" using child_rank(2) [OF M(1), of b a] b by (auto simp: p_def)
    moreover have "set (ar_children (ars s b)) \<subseteq> L" using I(5) b by auto
    ultimately show "ar_children (ars s1 b) \<noteq> []" using A [of b] b by (auto simp: filter_empty_conv neq_Nil_conv)
  qed
  show ?case
  proof (cases "p = NULL \<or> ar_set (ars s1 p) \<noteq> NULL \<or> ar_children (ars s1 p) \<noteq> []")
    case True
    have "anchored (ars s1) (L - {a})"
      using anch1 True I(2) by (auto simp: anchored_def)
    with True one step a(3) show ?thesis by (intro exI [of _ s1] exI [of _ "L - {a}"]) auto
  next
    case False
    then have p: "p \<in> L - {a}" "ar_children (ars s1 p) = []" "ar_set (ars s1 p) = NULL" using pL by auto
    have "card (L - {a}) < card L" by (rule card_Diff1_less [OF I(1) a(1)])
    from less(1) [OF this one(1) p anch1] obtain s' L' where
      r: "release_up p s1 = Some s'" "mem_ok x e V r L' s'" "anchored (ars s') L'" "pruned s1 s' L'"
        "L' \<subseteq> L - {a} - {p}" "\<forall>b\<in>L - {a} - L'. ar_set (ars s1 b) = NULL" by blast
    have "pruned s s' L'" by (rule pruned_trans [OF one(2) r(4)]) (use r(5) in auto)
    moreover have "\<forall>b\<in>L - L'. ar_set (ars s b) = NULL"
    proof
      fix b assume "b \<in> L - L'"
      with bspec [OF r(6), of b] A [of b] a(3) show "ar_set (ars s b) = NULL" by (cases "b = a") auto
    qed
    ultimately show ?thesis using r False step by (intro exI [of _ s'] exI [of _ L']) auto
  qed
qed

section \<open>The operations of \<^verbatim>\<open>area.c\<close>\<close>

text \<open>\<open>same_area\<close>: an area record up to its list of children.\<close>

definition same_area :: "ulmk_area \<Rightarrow> ulmk_area \<Rightarrow> bool" where
  "same_area x y \<longleftrightarrow> x\<lparr>ar_children := []\<rparr> = y\<lparr>ar_children := []\<rparr>"

lemma same_area_simps [simp]: "same_area x x" "same_area (x\<lparr>ar_children := cs\<rparr>) x" "same_area (x\<lparr>ar_children := cs\<rparr>) y = same_area x y"
  by (simp_all add: same_area_def)

lemma same_areaD:
  assumes "same_area x y"
  shows "ar_base x = ar_base y" "ar_size x = ar_size y" "ar_perms x = ar_perms y" "ar_set x = ar_set y"
    "ar_parent x = ar_parent y" "ar_type x = ar_type y" "ar_flags x = ar_flags y"
  using assms unfolding same_area_def by (metis ulmk_area.select_convs ulmk_area.surjective ulmk_area.update_convs(2))+

lemma same_area_trans: "same_area x y \<Longrightarrow> same_area y z \<Longrightarrow> same_area x z"
  by (simp add: same_area_def)

lemma pruned_same: "pruned s s' L' \<Longrightarrow> b \<in> L' \<Longrightarrow> same_area (ars s' b) (ars s b)"
  by (simp add: pruned_def)

lemma not_below_self: "area_inv A S r L \<Longrightarrow> a \<notin> below A L a"
proof
  assume inv: "area_inv A S r L" and "a \<in> below A L a"
  then have "(a, a) \<in> (edges A L)\<^sup>+" by (simp add: below_def)
  moreover have "r y < r x" if "(x, y) \<in> (edges A L)\<^sup>+" for x y
    using that by induction (use area_invD(3) [OF inv] in \<open>force simp: edges_def\<close>)+
  ultimately show False by blast
qed

lemma below_child:
  assumes "area_inv A S r L" "b \<in> L" "c \<in> set (ar_children (A b))" "c \<in> below A L a"
  shows "b = a \<or> b \<in> below A L a"
proof -
  have p: "ar_parent (A c) = b" by (rule child_rank(2) [OF assms(1-3)])
  from assms(4) obtain z where "(c, z) \<in> edges A L" "(z, a) \<in> (edges A L)\<^sup>*" by (auto simp: below_def dest: tranclD)
  with p show ?thesis by (auto simp: edges_def below_def rtrancl_eq_or_trancl)
qed

lemma area_revoke_ok:
  assumes ok: "mem_ok x e V r L s" and anch: "anchored (ars s) L" and a: "a \<in> L"
  defines "s' \<equiv> ulmk_area_revoke a s"
  shows "\<exists>L'. mem_ok x e V r L' s' \<and> anchored (ars s') L' \<and>
    (\<forall>th. set_list s' th = filter (\<lambda>b. b \<noteq> a \<and> b \<notin> below (ars s) L a) (set_list s th)) \<and> hang s' = hang s \<and>
    L' \<subseteq> L - {a} - below (ars s) L a \<and> (\<forall>b\<in>L'. same_area (ars s' b) (ars s b)) \<and>
    (\<exists>s1. revoke_loop a a s = Some s1 \<and> release_up a (set_unlink a s1) = Some s')"
proof -
  note M = mem_okD [OF ok]
  note I = area_invD [OF M(1)]
  let ?B = "below (ars s) L a"
  let ?L = "L - ?B"
  obtain s1 where s1: "revoke_loop a a s = Some s1" "mem_ok x e V r ?L s1" "pruned s s1 ?L"
    using revoke_loop_ok [OF ok a spine.top] by blast
  have aL: "a \<in> ?L" using a not_below_self [OF M(1)] by blast
  define s2 where "s2 = set_unlink a s1"
  note ok2 = mem_ok_set_unlink [OF s1(2) aL, folded s2_def]
  note f2 = av_fields [OF set_unlink_av [OF s1(2) aL], folded s2_def]
  have A1: "ars s1 b = (ars s b)\<lparr>ar_children := filter (\<lambda>c. c \<in> ?L) (ar_children (ars s b))\<rparr>" if "b \<in> ?L" for b
    using s1(3) that by (auto simp: pruned_def)
  have "set (ar_children (ars s a)) \<subseteq> ?B"
    using child_rank(5) [OF M(1) a] by (auto simp: below_def)
  then have a2: "ar_children (ars s2 a) = []" "ar_set (ars s2 a) = NULL" using A1 [OF aL] by (auto simp: f2 filter_empty_conv)
  have "anchored (ars s2) (?L - {a})"
    unfolding anchored_def
  proof (intro ballI impI)
    fix b assume b: "b \<in> ?L - {a}" "ar_set (ars s2 b) = NULL"
    then have "ar_children (ars s b) \<noteq> []" using anch A1 [of b] by (auto simp: anchored_def f2)
    moreover have "filter (\<lambda>c. c \<in> ?L) (ar_children (ars s b)) = ar_children (ars s b)"
      using I(5) [of b] below_child [OF M(1), of b _ a] b by (intro filter_True) auto
    ultimately show "ar_children (ars s2 b) \<noteq> []" using A1 [of b] b by (simp add: f2)
  qed
  from release_up_ok [OF ok2 aL a2 this] obtain s3 L' where r: "release_up a s2 = Some s3" "mem_ok x e V r L' s3"
    "anchored (ars s3) L'" "pruned s2 s3 L'" "L' \<subseteq> ?L - {a}" "\<forall>b\<in>?L - L'. ar_set (ars s2 b) = NULL" by blast
  have "a \<noteq> NULL" using a I(2) by auto
  then have s': "s' = s3" by (simp add: s'_def ulmk_area_revoke_def s1(1) s2_def [symmetric] r(1) or_hang_def)
  have p: "pruned s s3 L'"
    by (rule pruned_trans [OF s1(3) pruned_unlink [OF s1(2) aL _ r(4) [unfolded s2_def]]]) (use r(5) in auto)
  have "set_list s3 th = filter (\<lambda>b. b \<noteq> a \<and> b \<notin> ?B) (set_list s th)" for th
  proof -
    have "b \<in> L' \<longleftrightarrow> b \<noteq> a \<and> b \<notin> ?B" if b: "b \<in> set (set_list s th)" for b
    proof
      assume n: "b \<noteq> a \<and> b \<notin> ?B"
      with b I(8) [OF b] A1 [of b] have "ar_set (ars s2 b) = th" "b \<in> ?L" by (simp_all add: f2)
      moreover have "th \<noteq> NULL" using b I(6) by auto
      ultimately show "b \<in> L'" using r(6) by blast
    qed (use r(5) in auto)
    with p show ?thesis by (auto simp: pruned_def cong: filter_cong)
  qed
  moreover have "hang s3 = hang s" "L' \<subseteq> L - {a} - ?B" using p r(5) by (auto simp: pruned_def)
  ultimately show ?thesis unfolding s' using s1(1) r(1-3) pruned_same [OF p] unfolding s2_def by blast
qed

lemma set_release_loop_ok:
  assumes "mem_ok x e V r L s" "anchored (ars s) L"
  shows "\<exists>s' L'. set_release_loop th s = Some s' \<and> mem_ok x e V r L' s' \<and> anchored (ars s') L' \<and>
    (\<forall>t. set_list s' t = (if t = th then [] else set_list s t)) \<and> hang s' = hang s \<and> L' \<subseteq> L \<and>
    (\<forall>b\<in>L'. ar_set (ars s b) \<noteq> th \<longrightarrow> same_area (ars s' b) (ars s b))"
  using assms
proof (induction "length (set_list s th)" arbitrary: s L)
  case 0
  then show ?case
    by (intro exI [of _ s] exI [of _ L]) (subst set_release_loop.simps, auto)
next
  case (Suc k)
  note ok = Suc(3) and anch = Suc(4)
  note M = mem_okD [OF ok]
  note I = area_invD [OF M(1)]
  obtain a as where l: "set_list s th = a # as" using Suc(2) by (cases "set_list s th") auto
  have a: "a \<in> L" "ar_set (ars s a) = th" using I(8) [of a th] l by auto
  have th: "th \<noteq> NULL" using I(6) l by auto
  define s1 where "s1 = set_unlink a s"
  note ok1 = mem_ok_set_unlink [OF ok a(1), folded s1_def]
  note f1 = av_fields [OF set_unlink_av [OF ok a(1)], folded s1_def]
  have lists: "set_list s1 t = (if t = th then as else set_list s t)" for t
    using mem_ok_holder [OF ok a(1), of t] a(2) th by (auto simp: f1 l remove1_idem)
  have "\<exists>s2 L2. (if ar_children (ars s1 a) = [] then release_up a s1 = Some s2 else s2 = s1) \<and>
     mem_ok x e V r L2 s2 \<and> anchored (ars s2) L2 \<and>
     (\<forall>t. set_list s2 t = set_list s1 t) \<and> hang s2 = hang s \<and> L2 \<subseteq> L \<and> (\<forall>b\<in>L2. b \<noteq> a \<longrightarrow> same_area (ars s2 b) (ars s b)) \<and>
     (a \<in> L2 \<longrightarrow> ar_set (ars s2 a) = NULL)"
  proof (cases "ar_children (ars s1 a) = []")
    case True
    have "anchored (ars s1) (L - {a})" using anch by (auto simp: anchored_def f1)
    from release_up_ok [OF ok1 a(1) True _ this] obtain s2 L2 where r: "release_up a s1 = Some s2" "mem_ok x e V r L2 s2"
      "anchored (ars s2) L2" "pruned s1 s2 L2" "L2 \<subseteq> L - {a}" "\<forall>b\<in>L - L2. ar_set (ars s1 b) = NULL" by (auto simp: f1)
    have "filter (\<lambda>b. b \<in> L2) (set_list s1 t) = set_list s1 t" for t
    proof (rule filter_True, rule ballI)
      fix b assume b: "b \<in> set (set_list s1 t)"
      note h = area_invD(6,8) [OF mem_okD(1) [OF ok1]]
      show "b \<in> L2" using r(6) h(1) h(2) [OF b] b by (cases "t = NULL") auto
    qed
    with r(4) have "\<forall>t. set_list s2 t = set_list s1 t" "hang s2 = hang s" by (auto simp: pruned_def f1)
    moreover have "same_area (ars s2 b) (ars s b)" if "b \<in> L2" "b \<noteq> a" for b
      using pruned_same [OF r(4) that(1)] that(2) by (simp add: f1)
    ultimately show ?thesis using True r by (intro exI [of _ s2] exI [of _ L2]) auto
  next
    case False
    then have "anchored (ars s1) L" using anch by (auto simp: anchored_def f1)
    with False ok1 show ?thesis by (intro exI [of _ s1] exI [of _ L]) (auto simp: f1)
  qed
  then obtain s2 L2 where s2: "if ar_children (ars s1 a) = [] then release_up a s1 = Some s2 else s2 = s1"
     "mem_ok x e V r L2 s2" "anchored (ars s2) L2" "\<forall>t. set_list s2 t = set_list s1 t" "hang s2 = hang s" "L2 \<subseteq> L"
     "\<forall>b\<in>L2. b \<noteq> a \<longrightarrow> same_area (ars s2 b) (ars s b)" "a \<in> L2 \<longrightarrow> ar_set (ars s2 a) = NULL" by blast
  have "set_release_loop th s = set_release_loop th s2"
    using s2(1) by (subst set_release_loop.simps) (auto simp: l s1_def Let_def split: if_splits)
  moreover have "k = length (set_list s2 th)" using Suc(2) s2(4) by (simp add: lists l)
  from Suc(1) [OF this s2(2,3)] obtain s' L' where s': "set_release_loop th s2 = Some s'" "mem_ok x e V r L' s'" "anchored (ars s') L'"
    "\<forall>t. set_list s' t = (if t = th then [] else set_list s2 t)" "hang s' = hang s2" "L' \<subseteq> L2"
    "\<forall>b\<in>L'. ar_set (ars s2 b) \<noteq> th \<longrightarrow> same_area (ars s' b) (ars s2 b)" by blast
  moreover have "same_area (ars s' b) (ars s b)" if "b \<in> L'" "ar_set (ars s b) \<noteq> th" for b
  proof -
    have "b \<noteq> a" using that a(2) by auto
    with s2(7) s'(6) that have 1: "same_area (ars s2 b) (ars s b)" by auto
    then have "ar_set (ars s2 b) \<noteq> th" using that(2) same_areaD(4) by fastforce
    with s'(7) that(1) 1 show ?thesis using same_area_trans by blast
  qed
  ultimately show ?case using s2(4-6) by (intro exI [of _ s'] exI [of _ L']) (auto simp: lists)
qed

section \<open>Settlement\<close>

lemma free_retired:
  assumes "heap_ok (heap s) x e U" "owns (ars s) (L \<union> set as) V U" "distinct as" "set as \<inter> L = {}" "\<forall>a\<in>set as. backed (ars s a)"
  defines "s' \<equiv> fold (\<lambda>a s. k_heap_free a (k_heap_free (ar_base (ars s a)) s)) as s"
  shows "\<exists>h U'. av s' = (ars s, (\<lambda>th. set_list s th), h, area_retired (ulmk_percpu s), hang s) \<and> heap_ok h x e U' \<and> owns (ars s) L V U'"
  using assms(1-5) unfolding s'_def
proof (induction as arbitrary: s U)
  case Nil
  then show ?case by (intro exI [of _ "heap s"] exI [of _ U]) (simp add: av_def)
next
  case (Cons a as)
  let ?s1 = "k_heap_free (ar_base (ars s a)) s"
  let ?s2 = "k_heap_free a ?s1"
  have a: "a \<in> L \<union> set (a # as)" "backed (ars s a)" using Cons.prems(5) by auto
  note o = owns_free_backed [OF Cons.prems(2) a]
  have nn: "ar_base (ars s a) \<noteq> NULL" "a \<noteq> NULL" using o(2,3) heap_ok_null [OF Cons.prems(1)] by metis+
  have av2: "av ?s2 = (ars s, (\<lambda>th. set_list s th), ulmk_heap_free a (ulmk_heap_free (ar_base (ars s a)) (heap s)),
      area_retired (ulmk_percpu s), hang s)"
    using nn by (simp add: av_heap_free) (simp add: av_def)
  note f = av_fields [OF av2]
  have h1: "heap_ok (ulmk_heap_free (ar_base (ars s a)) (heap s)) x e (U(ar_base (ars s a) := None))"
    by (rule heap_free_ok [OF Cons.prems(1) o(2)])
  have h2: "heap_ok (heap ?s2) x e (U(ar_base (ars s a) := None, a := None))"
    unfolding f(3) by (rule heap_free_ok [OF h1]) (use o(3,4) in auto)
  have e: "L \<union> set (a # as) - {a} = L \<union> set as" using Cons.prems(3,4) by auto
  have "owns (ars ?s2) (L \<union> set as) V (U(ar_base (ars s a) := None, a := None))" using o(1) unfolding e f(1) .
  from Cons.IH [OF h2 this] Cons.prems(3-5) show ?case by (auto simp: f)
qed

lemma xcall_flush: "\<exists>tr. snd (ulmk_xcall c mpu_flush_xcall s) = s\<lparr>trace := tr\<rparr>"
  by (simp add: ulmk_xcall_def mpu_flush_xcall_def emit_def Let_def) blast

lemma fold_flush: "\<exists>tr. fold (\<lambda>c s. if bit msk c then snd (ulmk_xcall c mpu_flush_xcall s) else s) cs s = s\<lparr>trace := tr\<rparr>"
proof (induction cs arbitrary: s)
  case Nil
  show ?case by (rule exI [of _ "trace s"]) simp
next
  case (Cons c cs)
  obtain tr where tr: "snd (ulmk_xcall c mpu_flush_xcall s) = s\<lparr>trace := tr\<rparr>" using xcall_flush by blast
  then show ?case using Cons [of s] Cons [of "s\<lparr>trace := tr\<rparr>"] by auto
qed

lemma av_trace: "av (s\<lparr>trace := tr\<rparr>) = av s"
  by (simp add: av_def ulmk_percpu_def percpu_ix_def)

lemma mem_settle_ok:
  assumes "mem_ok x e V r L s"
  shows "mem_ok x e V r L (mem_settle s)" "area_retired (ulmk_percpu (mem_settle s)) = []"
    "ars (mem_settle s) = ars s" "set_list (mem_settle s) th = set_list s th" "hang (mem_settle s) = hang s"
proof -
  note M = mem_okD [OF assms]
  let ?R = "area_retired (ulmk_percpu s)"
  define s1 where "s1 = (let s = upd_this_cpu (\<lambda>pc. pc\<lparr>area_retired := []\<rparr>) s in
      if smp (cfg s) then
                 let msk = mpu_shootdown (ulmk_percpu s);
                     s = upd_this_cpu (\<lambda>pc. pc\<lparr>mpu_shootdown := 0\<rparr>) s
                 in fold (\<lambda>c s. if bit msk c then snd (ulmk_xcall c mpu_flush_xcall s) else s) [0..<32] s
               else s)"
  have eq: "mem_settle s = fold (\<lambda>a s. k_heap_free a (k_heap_free (ar_base (ars s a)) s)) ?R s1"
    by (simp add: mem_settle_def s1_def Let_def)
  have av0: "av (upd_this_cpu (\<lambda>pc. pc\<lparr>area_retired := []\<rparr>) s) = (ars s, (\<lambda>th. set_list s th), heap s, [], hang s)"
    by (simp add: av_def ulmk_percpu_this)
  have av1: "av s1 = (ars s, (\<lambda>th. set_list s th), heap s, [], hang s)"
  proof (cases "smp (cfg s)")
    case True
    let ?s = "upd_this_cpu (\<lambda>pc. pc\<lparr>mpu_shootdown := 0\<rparr>) (upd_this_cpu (\<lambda>pc. pc\<lparr>area_retired := []\<rparr>) s)"
    obtain tr where "s1 = ?s\<lparr>trace := tr\<rparr>" using fold_flush [of _ _ ?s] True unfolding s1_def Let_def by auto
    then show ?thesis by (simp add: av_trace av_this_cpu av0)
  qed (simp add: s1_def av0)
  note f = av_fields [OF av1]
  obtain U where U: "heap_ok (heap s) x e U" "owns (ars s) (L \<union> set ?R) V U" using M(5) by blast
  obtain h U' where h: "av (mem_settle s) = (ars s, (\<lambda>th. set_list s th), h, [], hang s)" "heap_ok h x e U'" "owns (ars s) L V U'"
    using free_retired [of s1 x e U L ?R V] U M(2-4) unfolding eq by (auto simp: f)
  show "mem_ok x e V r L (mem_settle s)" by (rule mem_okI [OF h(1) M(1) _ _ _ h(2)]) (use h(3) in auto)
  show "area_retired (ulmk_percpu (mem_settle s)) = []"
    "ars (mem_settle s) = ars s" "set_list (mem_settle s) th = set_list s th" "hang (mem_settle s) = hang s"
    by (simp_all add: av_fields [OF h(1)])
qed

section \<open>Inserting an area\<close>

definition meets :: "ulmk_area \<Rightarrow> addr \<Rightarrow> u32 \<Rightarrow> bool" where
  "meets x b z \<longleftrightarrow> unat (ar_base x) < unat b + unat z \<and> unat b < unat (ar_base x) + unat (ar_size x)"

lemma overlaps_meets:
  assumes "unat (ar_base x) + unat (ar_size x) < 2 ^ 32" "unat b + unat z < 2 ^ 32"
  shows "overlaps (ar_base x) (ar_size x) b z = meets x b z"
  using assms by (simp add: overlaps_def meets_def word_less_nat_alt unat_plus_if_size word_size)

lemma area_link_spec:
  assumes "spaced (ars s) as" "unat b + unat z < 2 ^ 32" "z \<noteq> 0"
  shows "area_link s b z as = (if \<exists>a\<in>set as. meets (ars s a) b z then None
    else Some (filter (\<lambda>a. ar_base (ars s a) < b) as, filter (\<lambda>a. \<not> ar_base (ars s a) < b) as)) \<and>
    (\<not> (\<exists>a\<in>set as. meets (ars s a) b z) \<longrightarrow>
      as = filter (\<lambda>a. ar_base (ars s a) < b) as @ filter (\<lambda>a. \<not> ar_base (ars s a) < b) as)"
  using assms(1)
proof (induction as)
  case (Cons a as)
  have sp: "spaced (ars s) as" and f: "ar_size (ars s a) \<noteq> 0" "unat (ar_base (ars s a)) + unat (ar_size (ars s a)) < 2 ^ 32"
    and lt: "\<And>c. c \<in> set as \<Longrightarrow> unat (ar_base (ars s a)) + unat (ar_size (ars s a)) \<le> unat (ar_base (ars s c))"
    using Cons.prems by (auto simp: spaced_def)
  note ov = overlaps_meets [OF f(2) assms(2)]
  show ?case
  proof (cases "ar_base (ars s a) < b")
    case True
    with Cons.IH [OF sp] show ?thesis by (auto simp: ov)
  next
    case False
    have pos: "0 < unat (ar_size (ars s a))" "0 < unat z" using f(1) assms(3) by (simp_all add: unat_gt_0)
    have far: "\<not> meets (ars s c) b z \<and> \<not> ar_base (ars s c) < b" if "c \<in> set as" "\<not> meets (ars s a) b z" for c
      using lt [OF that(1)] that(2) False pos by (auto simp: meets_def word_less_nat_alt)
    show ?thesis
    proof (cases "meets (ars s a) b z")
      case m: False
      have "filter (\<lambda>a. ar_base (ars s a) < b) as = []" "filter (\<lambda>a. \<not> ar_base (ars s a) < b) as = as"
        using far m by (auto simp: filter_empty_conv intro!: filter_True)
      with False m far show ?thesis by (auto simp: ov)
    qed (use False in \<open>simp add: ov\<close>)
  qed
qed simp

lemma area_link_spaced:
  assumes "spaced (ars s) as" "unat b + unat z < 2 ^ 32" "z \<noteq> 0" "area_link s b z as = Some (l, r)"
    and A': "\<And>c. c \<in> set as \<Longrightarrow> ar_base (A' c) = ar_base (ars s c) \<and> ar_size (A' c) = ar_size (ars s c)" "ar_base (A' a) = b" "ar_size (A' a) = z"
  shows "as = l @ r" "spaced A' (l @ a # r)"
proof -
  note sp = area_link_spec [OF assms(1-3)]
  have nm: "\<not> meets (ars s c) b z" if "c \<in> set as" for c using sp assms(4) that by (auto split: if_splits)
  have lr: "l = filter (\<lambda>a. ar_base (ars s a) < b) as" "r = filter (\<lambda>a. \<not> ar_base (ars s a) < b) as"
    using sp assms(4) by (auto split: if_splits)
  show as: "as = l @ r" using sp assms(4) nm lr by (auto split: if_splits)
  have s': "spaced A' as" by (rule spaced_cong [OF assms(1)]) (use A'(1) in auto)
  have pos: "0 < unat z" using assms(3) by (simp add: unat_gt_0)
  have "unat (ar_base (A' c)) + unat (ar_size (A' c)) \<le> unat b" if "c \<in> set l" for c
    using nm [of c] A'(1) [of c] that pos by (auto simp: meets_def lr word_less_nat_alt)
  moreover have "unat b + unat z \<le> unat (ar_base (A' c))" if "c \<in> set r" for c
  proof -
    have "0 < unat (ar_size (ars s c))" using assms(1) that by (auto simp: lr spaced_def unat_gt_0)
    with nm [of c] A'(1) [of c] that show ?thesis by (auto simp: meets_def lr word_less_nat_alt)
  qed
  ultimately show "spaced A' (l @ a # r)"
    using s' A'(2,3) assms(2,3) unfolding as by (auto simp: spaced_def sorted_wrt_append)
qed

lemma area_inv_insert:
  assumes inv: "area_inv A S r L" and a: "a \<notin> L" "a \<noteq> NULL" and th: "th \<noteq> NULL" "S th = l @ l'"
    and p: "p = NULL \<or> p \<in> L \<and> b = ar_base (A p) \<and> z = ar_size (A p) \<and> perms AND ar_perms (A p) = perms \<and> fl AND ULMK_AREA_BACKED = 0"
    and A': "A' = (let B = A(a := \<lparr>ar_parent = p, ar_children = [], ar_set = th, ar_base = b, ar_size = z,
       ar_perms = perms, ar_type = ty, ar_flags = fl\<rparr>) in if p = NULL then B else B(p := (A p)\<lparr>ar_children := a # ar_children (A p)\<rparr>))"
    and sp: "spaced A' (l @ a # l')"
  shows "area_inv A' (S(th := l @ a # l')) (r(a := if p = NULL then 0 else Suc (r p))) (insert a L)"
proof -
  note I = area_invD [OF inv]
  have ap: "a \<noteq> p" using a p by auto
  have Aa: "A' a = \<lparr>ar_parent = p, ar_children = [], ar_set = th, ar_base = b, ar_size = z,
       ar_perms = perms, ar_type = ty, ar_flags = fl\<rparr>" using ap by (simp add: A' Let_def)
  have Ab: "ar_parent (A' c) = ar_parent (A c)" "ar_set (A' c) = ar_set (A c)" "ar_base (A' c) = ar_base (A c)"
    "ar_size (A' c) = ar_size (A c)" "ar_perms (A' c) = ar_perms (A c)" "ar_flags (A' c) = ar_flags (A c)"
    "ar_children (A' c) = (if p \<noteq> NULL \<and> c = p then a # ar_children (A c) else ar_children (A c))" if "c \<in> L" for c
    using that a by (auto simp: A' Let_def)
  have na: "a \<notin> set (ar_children (A c))" if "c \<in> L" for c using I(5) [OF that] a by auto
  have par: "ar_parent (A c) \<noteq> a" if "c \<in> L" for c using I(3) [OF that] a by auto
  have "forest A' (r(a := if p = NULL then 0 else Suc (r p))) (insert a L)"
    unfolding forest_def
  proof (intro conjI ballI impI)
    show "finite (insert a L)" "NULL \<notin> insert a L" using I(1,2) a by auto
    fix c assume c: "c \<in> insert a L"
    show "distinct (ar_children (A' c))" using c I(4) na by (cases "c = a") (auto simp: Aa Ab)
    { fix d assume d: "d \<in> set (ar_children (A' c))"
      have cL: "c \<in> L" using c d Aa by auto
      have "d = a \<and> c = p \<and> p \<noteq> NULL \<or> d \<in> set (ar_children (A c))" using d Ab(7) [OF cL] by (auto split: if_splits)
      then show "d \<in> insert a L" "ar_parent (A' d) = c" using I(5) [OF cL, of d] Aa Ab(1) [of d] by auto }
    assume pn: "ar_parent (A' c) \<noteq> NULL"
    show "ar_parent (A' c) \<in> insert a L" using c pn p I(3) by (cases "c = a") (auto simp: Aa Ab)
    show "c \<in> set (ar_children (A' (ar_parent (A' c))))" using c pn p I(3) by (cases "c = a") (auto simp: Aa Ab)
    show "(r(a := if p = NULL then 0 else Suc (r p))) (ar_parent (A' c)) < (r(a := if p = NULL then 0 else Suc (r p))) c"
      using c pn p I(3) par ap by (cases "c = a") (auto simp: Aa Ab)
  qed
  moreover have "holding A' (S(th := l @ a # l')) (insert a L)"
  proof -
    have "spaced A' (S t)" if "t \<noteq> th" for t
      by (rule spaced_cong [OF I(7)]) (use I(8) Ab in auto)
    moreover have "c \<in> L \<and> ar_set (A' c) = t" if "c \<in> set (S t)" for c t using I(8) [OF that] Ab by simp
    moreover from this [of _ th] have "c \<in> L \<and> ar_set (A' c) = th" if "c \<in> set l \<union> set l'" for c using that th(2) by auto
    moreover have "c \<in> set l \<union> set l'" if "c \<in> L" "ar_set (A c) = th" for c using I(9) [OF that(1)] that(2) th by auto
    ultimately show ?thesis using sp I(6,9) Aa Ab(2) th(1) by (auto simp: holding_def)
  qed
  moreover have "derives A' (insert a L)"
    unfolding derives_def Let_def
  proof (intro ballI impI)
    fix c assume c: "c \<in> insert a L" "ar_parent (A' c) \<noteq> NULL"
    show "ar_base (A' c) = ar_base (A' (ar_parent (A' c))) \<and> ar_size (A' c) = ar_size (A' (ar_parent (A' c))) \<and>
      ar_perms (A' c) AND ar_perms (A' (ar_parent (A' c))) = ar_perms (A' c) \<and> \<not> backed (A' c)"
      using c p I(3) [of c] I(10) [of c] by (cases "c = a") (auto simp: Aa Ab)
  qed
  ultimately show ?thesis by (simp add: area_inv_def)
qed

end
