(* ===== verification/Mem_Inv.thy ===== *)
theory Mem_Inv
  imports Area_Inv
begin

text \<open>
  The memory system calls keep the invariant of memory areas: \<open>mem_inv x e V s\<close> holds between system calls,
  with \<open>x\<close> and \<open>e\<close> the bounds of the heap and \<open>V\<close> the heap blocks that belong to other parts of the kernel.
  From it follow the isolation properties: what a thread can reach, what a grant gives and what a revocation takes.
\<close>

section \<open>Inserting\<close>

lemma k_heap_alloc_view:
  assumes "heap_ok (heap s) x e U" "k_heap_alloc z s = (p, s')"
  shows "p = NULL \<Longrightarrow> av s' = av s"
    "p \<noteq> NULL \<Longrightarrow> \<exists>h n. av s' = (ars s, (\<lambda>th. set_list s th), h, area_retired (ulmk_percpu s), hang s) \<and>
       heap_ok h x e (U(p \<mapsto> n)) \<and> U p = None \<and> unat z \<le> n"
    "cfg s' = cfg s" "tcb s' = tcb s" "ars s' = ars s" "percpu s' = percpu s" "cpu_id s' = cpu_id s"
proof -
  obtain q h where h: "ulmk_heap_alloc z (heap s) = (q, h)" by fastforce
  have s': "s' = (if z = 0 then s else unlock LMem ((lock LMem s)\<lparr>heap := h\<rparr>))" "p = (if z = 0 then NULL else q)"
    using assms(2) by (auto simp: k_heap_alloc_def h split: if_splits)
  show "av s' = av s" if "p = NULL"
    using that tlsf.alloc_null [OF assms(1) TrueI, of z h] h by (auto simp: s' av_def ulmk_percpu_def percpu_ix_def)
  show "\<exists>h n. av s' = (ars s, (\<lambda>th. set_list s th), h, area_retired (ulmk_percpu s), hang s) \<and>
       heap_ok h x e (U(p \<mapsto> n)) \<and> U p = None \<and> unat z \<le> n" if "p \<noteq> NULL"
    using that tlsf.alloc_some [OF assms(1) TrueI h] by (auto simp: s' av_def ulmk_percpu_def percpu_ix_def split: if_splits)
  show "cfg s' = cfg s" "tcb s' = tcb s" "ars s' = ars s" "percpu s' = percpu s" "cpu_id s' = cpu_id s"
    by (auto simp: s')
qed

lemma owns_insert:
  assumes "owns A M V U" "U a = None" "backed (A' a) \<Longrightarrow> ar_base (A' a) \<in> V" "V' = (if backed (A' a) then V - {ar_base (A' a)} else V)"
    "\<And>b. b \<in> M \<Longrightarrow> ar_base (A' b) = ar_base (A b) \<and> ar_flags (A' b) = ar_flags (A b)"
  shows "owns A' (insert a M) V' (U(a \<mapsto> z))"
proof -
  have o: "owns A' M V U" by (rule owns_cong [OF assms(5,1)])
  have a: "a \<notin> V" "a \<notin> M" "a \<notin> backing A' M" using o assms(2) by (auto simp: owns_def)
  have B: "backing A' (insert a M) = (if backed (A' a) then insert (ar_base (A' a)) (backing A' M) else backing A' M)"
    by (auto simp: backing_def)
  have "inj_on (\<lambda>a. ar_base (A' a)) {b \<in> insert a M. backed (A' b)}"
  proof (cases "backed (A' a)")
    case True
    have "{b \<in> insert a M. backed (A' b)} = insert a {b \<in> M. backed (A' b)}" using True by auto
    moreover have "ar_base (A' a) \<notin> backing A' M" using assms(3) [OF True] o by (auto simp: owns_def)
    ultimately show ?thesis using o by (auto simp: owns_def backing_def)
  next
    case False
    then have "{b \<in> insert a M. backed (A' b)} = {b \<in> M. backed (A' b)}" by auto
    then show ?thesis using o by (simp add: owns_def)
  qed
  with o a B assms(3,4) show ?thesis by (auto simp: owns_def)
qed

lemma area_insert_ok:
  assumes ok: "mem_ok x e V r L s" and th: "th \<noteq> NULL"
    and p: "p = NULL \<or> p \<in> L \<and> b = ar_base (ars s p) \<and> z = ar_size (ars s p) \<and> perms AND ar_perms (ars s p) = perms \<and> fl AND ULMK_AREA_BACKED = 0"
    and bk: "fl AND ULMK_AREA_BACKED \<noteq> 0 \<longrightarrow> b \<in> V"
    and res: "ulmk_area_insert th b z perms ty fl p s = (rc, a, s')"
  shows "rc \<noteq> ULMK_OK \<Longrightarrow> av s' = av s"
    "rc = ULMK_OK \<Longrightarrow> \<exists>r'. mem_ok x e (if fl AND ULMK_AREA_BACKED \<noteq> 0 then V - {b} else V) r' (insert a L) s' \<and> a \<notin> L \<and>
       (anchored (ars s) L \<longrightarrow> anchored (ars s') (insert a L)) \<and> hang s' = hang s \<and>
       area_retired (ulmk_percpu s') = area_retired (ulmk_percpu s) \<and> (\<forall>c\<in>L. same_area (ars s' c) (ars s c)) \<and>
       (\<exists>l l'. set_list s th = l @ l' \<and> (\<forall>t. set_list s' t = (if t = th then l @ a # l' else set_list s t))) \<and>
       same_area (ars s' a) \<lparr>ar_parent = p, ar_children = [], ar_set = th, ar_base = b, ar_size = z,
         ar_perms = perms, ar_type = ty, ar_flags = fl\<rparr>"
    "cfg s' = cfg s" "ulmk_sched_current s' = ulmk_sched_current s"
proof -
  note M = mem_okD [OF ok]
  note I = area_invD [OF M(1)]
  let ?R = "area_retired (ulmk_percpu s)"
  obtain U where U: "heap_ok (heap s) x e U" "owns (ars s) (L \<union> set ?R) V U" using M(5) by blast
  obtain q s1 where al: "k_heap_alloc (sizeof_area (cfg s)) s = (q, s1)" by fastforce
  note v = k_heap_alloc_view [OF U(1) al]
  define s2 where "s2 = upd_area q (\<lambda>_. \<lparr>ar_parent = p, ar_children = [], ar_set = th, ar_base = b, ar_size = z,
         ar_perms = perms, ar_type = ty, ar_flags = fl\<rparr>) s1"
  define s3 where "s3 = (if p \<noteq> NULL then upd_area p (\<lambda>x. x\<lparr>ar_children := q # ar_children x\<rparr>) s2 else s2)"
  show "cfg s' = cfg s" "ulmk_sched_current s' = ulmk_sched_current s"
    using res v(3,4,6,7) al by (auto simp: ulmk_area_insert_def Let_def upd_area_def upd_set_def split: if_splits option.splits intro!: sched_current_cong)
  show "av s' = av s" if "rc \<noteq> ULMK_OK"
    using that res v(1) al by (auto simp: ulmk_area_insert_def Let_def split: if_splits option.splits)
  assume rc: "rc = ULMK_OK"
  obtain l l' where lk: "area_link s b z (set_list s th) = Some (l, l')" "z \<noteq> 0" "\<not> b + z < b" "q \<noteq> NULL" "a = q"
    "s' = upd_set th (\<lambda>y. \<lparr>as_list = l @ q # l', as_count = as_count y + 1\<rparr>) s3"
    using res rc al by (auto simp: ulmk_area_insert_def Let_def s2_def s3_def split: if_splits option.splits)
  obtain h n where h: "av s1 = (ars s, (\<lambda>th. set_list s th), h, ?R, hang s)" "heap_ok h x e (U(q \<mapsto> n))" "U q = None"
    using v(2) [OF lk(4)] by blast
  have qL: "q \<notin> L" "q \<notin> set ?R" using h(3) U(2) by (auto simp: owns_def)
  define A' where "A' = (let B = (ars s)(q := \<lparr>ar_parent = p, ar_children = [], ar_set = th, ar_base = b, ar_size = z,
       ar_perms = perms, ar_type = ty, ar_flags = fl\<rparr>) in if p = NULL then B else B(p := (ars s p)\<lparr>ar_children := q # ar_children (ars s p)\<rparr>))"
  have pq: "p \<noteq> q" using p qL lk(4) by auto
  have av': "av s' = (A', (\<lambda>th. set_list s th)(th := l @ q # l'), h, ?R, hang s)"
    using pq by (simp add: lk(6) av_upd_set s3_def s2_def av_upd_area h(1) A'_def Let_def)
  note f = av_fields [OF av']
  have nw: "unat b + unat z < 2 ^ 32"
    using lk(3) unsigned_less [of z, where ?'a = nat]
    by (simp add: word_less_nat_alt unat_plus_if_size word_size split: if_splits)
  have A: "same_area (A' c) (ars s c)" if "c \<noteq> q" for c using that by (auto simp: A'_def Let_def)
  have Aq: "A' q = \<lparr>ar_parent = p, ar_children = [], ar_set = th, ar_base = b, ar_size = z, ar_perms = perms, ar_type = ty, ar_flags = fl\<rparr>"
    using pq by (simp add: A'_def Let_def)
  have qS: "q \<notin> set (set_list s th)" using I(8) qL by blast
  have A'': "ar_base (A' c) = ar_base (ars s c) \<and> ar_size (A' c) = ar_size (ars s c)" if "c \<in> set (set_list s th)" for c
  proof -
    have "c \<noteq> q" using that qS by auto
    from same_areaD [OF A [OF this]] show ?thesis by simp
  qed
  note ls = area_link_spaced [OF I(7) nw lk(2,1) A'', of q]
  have inv: "area_inv A' ((\<lambda>th. set_list s th)(th := l @ q # l')) (r(q := if p = NULL then 0 else Suc (r p))) (insert q L)"
    by (rule area_inv_insert [OF M(1) qL(1) lk(4) th ls(1) p A'_def ls(2)]) (simp_all add: Aq)
  have own: "owns A' (insert q (L \<union> set ?R)) (if fl AND ULMK_AREA_BACKED \<noteq> 0 then V - {b} else V) (U(q \<mapsto> n))"
  proof (rule owns_insert [OF U(2) h(3)])
    fix c assume "c \<in> L \<union> set ?R"
    then have "c \<noteq> q" using qL by auto
    from same_areaD [OF A [OF this]] show "ar_base (A' c) = ar_base (ars s c) \<and> ar_flags (A' c) = ar_flags (ars s c)" by simp
  qed (use bk in \<open>auto simp: Aq\<close>)
  have "mem_ok x e (if fl AND ULMK_AREA_BACKED \<noteq> 0 then V - {b} else V) (r(q := if p = NULL then 0 else Suc (r p))) (insert q L) s'"
  proof (rule mem_okI [OF av' inv M(2) _ _ h(2)])
    show "set ?R \<inter> insert q L = {}" using M(3) qL by auto
    show "\<forall>a\<in>set ?R. backed (A' a)"
    proof
      fix c assume c: "c \<in> set ?R"
      then have "c \<noteq> q" using qL by auto
      from same_areaD(7) [OF A [OF this]] M(4) c show "backed (A' c)" by simp
    qed
    show "owns A' (insert q L \<union> set ?R) (if fl AND ULMK_AREA_BACKED \<noteq> 0 then V - {b} else V) (U(q \<mapsto> n))" using own by simp
  qed
  moreover have "anchored (ars s') (insert q L)" if "anchored (ars s) L"
    using that th qL by (auto simp: anchored_def f Aq) (auto simp: A'_def Let_def split: if_splits)
  moreover have "\<forall>c\<in>L. same_area (ars s' c) (ars s c)" using A qL by (simp add: f) (metis)
  ultimately show "\<exists>r'. mem_ok x e (if fl AND ULMK_AREA_BACKED \<noteq> 0 then V - {b} else V) r' (insert a L) s' \<and> a \<notin> L \<and>
       (anchored (ars s) L \<longrightarrow> anchored (ars s') (insert a L)) \<and> hang s' = hang s \<and>
       area_retired (ulmk_percpu s') = ?R \<and> (\<forall>c\<in>L. same_area (ars s' c) (ars s c)) \<and>
       (\<exists>l l'. set_list s th = l @ l' \<and> (\<forall>t. set_list s' t = (if t = th then l @ a # l' else set_list s t))) \<and>
       same_area (ars s' a) \<lparr>ar_parent = p, ar_children = [], ar_set = th, ar_base = b, ar_size = z,
         ar_perms = perms, ar_type = ty, ar_flags = fl\<rparr>"
    unfolding lk(5) using qL ls(1) Aq by (intro exI [of _ "r(q := if p = NULL then 0 else Suc (r p))"]) (auto simp: f)
qed

section \<open>The invariant between system calls\<close>

definition mem_inv :: "addr \<Rightarrow> addr \<Rightarrow> addr set \<Rightarrow> kstate \<Rightarrow> bool" where
  "mem_inv x e V s \<longleftrightarrow> (\<exists>r L. mem_ok x e V r L s \<and> anchored (ars s) L) \<and> area_retired (ulmk_percpu s) = []"

lemma mem_inv_cong: "av s' = av s \<Longrightarrow> mem_inv x e V s' = mem_inv x e V s"
  by (simp add: mem_inv_def mem_ok_def av_def)

lemma k_heap_aligned_view:
  assumes "heap_ok (heap s) x e U" "k_heap_aligned_alloc al z s = (p, s')" "64 < al \<longrightarrow> unat z + unat al + 128 \<le> 2 ^ 32"
  shows "p = NULL \<Longrightarrow> av s' = av s"
    "p \<noteq> NULL \<Longrightarrow> \<exists>h n. av s' = (ars s, (\<lambda>th. set_list s th), h, area_retired (ulmk_percpu s), hang s) \<and>
       heap_ok h x e (U(p \<mapsto> n)) \<and> U p = None \<and> unat z \<le> n"
    "cfg s' = cfg s" "tcb s' = tcb s" "ars s' = ars s" "percpu s' = percpu s" "cpu_id s' = cpu_id s"
proof -
  have "(p = NULL \<longrightarrow> av s' = av s) \<and> (p \<noteq> NULL \<longrightarrow> (\<exists>h n. av s' = (ars s, (\<lambda>th. set_list s th), h, area_retired (ulmk_percpu s), hang s) \<and>
       heap_ok h x e (U(p \<mapsto> n)) \<and> U p = None \<and> unat z \<le> n)) \<and> cfg s' = cfg s \<and> tcb s' = tcb s \<and> ars s' = ars s \<and>
       percpu s' = percpu s \<and> cpu_id s' = cpu_id s"
  proof (cases "al \<le> 64")
    case True
    then have "(p, s') = (NULL, s) \<or> k_heap_alloc z s = (p, s')" using assms(2) by (auto simp: k_heap_aligned_alloc_def split: if_splits)
    with k_heap_alloc_view [OF assms(1), of z p s'] show ?thesis by auto
  next
    case False
    obtain q h where h: "ulmk_heap_aligned_alloc al z (heap s) = (q, h)" by fastforce
    have "(p, s') = (NULL, s) \<or> (p, s') = (q, unlock LMem ((lock LMem s)\<lparr>heap := h\<rparr>))"
      using assms(2) False by (auto simp: k_heap_aligned_alloc_def h split: if_splits)
    then show ?thesis
    proof
      assume "(p, s') = (q, unlock LMem ((lock LMem s)\<lparr>heap := h\<rparr>))"
      then have s': "s' = unlock LMem ((lock LMem s)\<lparr>heap := h\<rparr>)" "p = q" by auto
      have fit: "unat z + unat al + 128 \<le> 2 ^ 32" using assms(3) False by auto
      show ?thesis
        using tlsf_aligned.alloc_null [OF assms(1) fit, of h] tlsf_aligned.alloc_some [OF assms(1) fit h] h
        by (auto simp: s' av_def ulmk_percpu_def percpu_ix_def)
    qed auto
  qed
  then show "p = NULL \<Longrightarrow> av s' = av s"
    "p \<noteq> NULL \<Longrightarrow> \<exists>h n. av s' = (ars s, (\<lambda>th. set_list s th), h, area_retired (ulmk_percpu s), hang s) \<and>
       heap_ok h x e (U(p \<mapsto> n)) \<and> U p = None \<and> unat z \<le> n"
    "cfg s' = cfg s" "tcb s' = tcb s" "ars s' = ars s" "percpu s' = percpu s" "cpu_id s' = cpu_id s" by blast+
qed

text \<open>A block handed out by the heap belongs to the caller until an area takes it over.\<close>

lemma mem_ok_alloc:
  assumes "mem_ok x e V r L s" "av s' = (ars s, (\<lambda>th. set_list s th), h, area_retired (ulmk_percpu s), hang s)"
    "heap_ok (heap s) x e U" "owns (ars s) (L \<union> set (area_retired (ulmk_percpu s))) V U" "heap_ok h x e (U(p \<mapsto> n))" "U p = None"
  shows "mem_ok x e (insert p V) r L s'" "p \<notin> V"
proof -
  note M = mem_okD [OF assms(1)]
  have "owns (ars s) (L \<union> set (area_retired (ulmk_percpu s))) (insert p V) (U(p \<mapsto> n))" using assms(4,6) by (auto simp: owns_def)
  from mem_okI [OF assms(2) M(1-4) assms(5) this] show "mem_ok x e (insert p V) r L s'" .
  show "p \<notin> V" using assms(4,6) by (auto simp: owns_def)
qed

lemma mem_ok_free:
  assumes "mem_ok x e (insert p V) r L s" "p \<notin> V"
  shows "mem_ok x e V r L (k_heap_free p s)" "av (k_heap_free p s) = (ars s, (\<lambda>th. set_list s th), ulmk_heap_free p (heap s), area_retired (ulmk_percpu s), hang s)"
proof -
  note M = mem_okD [OF assms(1)]
  obtain U where U: "heap_ok (heap s) x e U" "owns (ars s) (L \<union> set (area_retired (ulmk_percpu s))) (insert p V) U" using M(5) by blast
  have Up: "U p \<noteq> None" using U(2) by (auto simp: owns_def)
  then have "p \<noteq> NULL" using heap_ok_null [OF U(1)] by metis
  then show av': "av (k_heap_free p s) = (ars s, (\<lambda>th. set_list s th), ulmk_heap_free p (heap s), area_retired (ulmk_percpu s), hang s)"
    by (simp add: av_heap_free) (simp add: av_def)
  have "owns (ars s) (L \<union> set (area_retired (ulmk_percpu s))) V (U(p := None))" using U(2) assms(2) by (auto simp: owns_def)
  from mem_okI [OF av' M(1-4) heap_free_ok [OF U(1) Up] this] show "mem_ok x e V r L (k_heap_free p s)" .
qed

section \<open>Finding\<close>

lemma find_base_list:
  "area_find_base_list s b as = a \<Longrightarrow> a \<noteq> NULL \<Longrightarrow> a \<in> set as \<and> ar_base (ars s a) = b"
  by (induction as) (auto split: if_splits)

lemma find_base_complete:
  "spaced (ars s) as \<Longrightarrow> a \<in> set as \<Longrightarrow> ar_base (ars s a) = b \<Longrightarrow> area_find_base_list s b as = a"
proof (induction as)
  case (Cons c as)
  have sp: "spaced (ars s) as" and c: "0 < unat (ar_size (ars s c))" using Cons.prems(1) by (auto simp: spaced_def unat_gt_0)
  show ?case
  proof (cases "a = c")
    case False
    then have "a \<in> set as" using Cons.prems by auto
    then have "unat (ar_base (ars s c)) < unat b" using Cons.prems(1,3) c by (auto simp: spaced_def)
    then have "ar_base (ars s c) < b" by (simp add: word_less_nat_alt)
    then show ?thesis using Cons.IH [OF sp \<open>a \<in> set as\<close> Cons.prems(3)] by auto
  qed (use Cons.prems in simp)
qed simp

lemma find_list:
  "area_find_list s p as = a \<Longrightarrow> a \<noteq> NULL \<Longrightarrow> a \<in> set as \<and> ar_base (ars s a) \<le> p \<and> p - ar_base (ars s a) < ar_size (ars s a)"
  by (induction as) (auto split: if_splits)

definition contains :: "ulmk_area \<Rightarrow> addr \<Rightarrow> bool" where
  "contains x p \<longleftrightarrow> unat (ar_base x) \<le> unat p \<and> unat p < unat (ar_base x) + unat (ar_size x)"

lemma contains_word: "ar_base x \<le> p \<and> p - ar_base x < ar_size x \<longleftrightarrow> contains x p"
  unfolding contains_def word_le_nat_alt word_less_nat_alt by (auto simp: unat_sub word_le_nat_alt)

lemma find_complete:
  "spaced (ars s) as \<Longrightarrow> a \<in> set as \<Longrightarrow> contains (ars s a) p \<Longrightarrow> area_find_list s p as = a"
proof (induction as)
  case (Cons c as)
  have sp: "spaced (ars s) as" using Cons.prems(1) by (auto simp: spaced_def)
  show ?case
  proof (cases "a = c")
    case True
    then show ?thesis using Cons.prems(3) contains_word [of "ars s c" p] by simp
  next
    case False
    then have "a \<in> set as" using Cons.prems by auto
    then have "unat (ar_base (ars s c)) + unat (ar_size (ars s c)) \<le> unat p"
      using Cons.prems(1,3) by (auto simp: spaced_def contains_def)
    then have "ar_base (ars s c) \<le> p" "\<not> p - ar_base (ars s c) < ar_size (ars s c)"
      using contains_word [of "ars s c" p] by (auto simp: contains_def word_le_nat_alt)
    then show ?thesis using Cons.IH [OF sp \<open>a \<in> set as\<close> Cons.prems(3)] by auto
  qed
qed simp

section \<open>Derivation\<close>

text \<open>\<open>derived A b a\<close>: \<open>b\<close> is \<open>a\<close> or was derived from it, in any number of steps.\<close>

inductive derived :: "(addr \<Rightarrow> ulmk_area) \<Rightarrow> addr \<Rightarrow> addr \<Rightarrow> bool" for A where
  self: "derived A a a"
| up: "ar_parent (A b) \<noteq> NULL \<Longrightarrow> derived A (ar_parent (A b)) a \<Longrightarrow> derived A b a"

lemma derived_below:
  assumes "area_inv A S r L" "b \<in> L"
  shows "derived A b a \<longleftrightarrow> b = a \<or> b \<in> below A L a"
proof
  show "b = a \<or> b \<in> below A L a" if "derived A b a"
    using that assms(2)
  proof (induction rule: derived.induct)
    case (up b a)
    have "(b, ar_parent (A b)) \<in> edges A L" using up by (auto simp: edges_def)
    moreover have "ar_parent (A b) \<in> L" using area_invD(3) [OF assms(1) up(4,1)] by blast
    ultimately show ?case using up.IH by (auto simp: below_def intro: trancl_into_trancl2)
  qed simp
  have "(b, a) \<in> (edges A L)\<^sup>+ \<Longrightarrow> derived A b a"
    by (induction rule: converse_trancl_induct) (auto simp: edges_def intro: derived.intros)
  then show "b = a \<or> b \<in> below A L a \<Longrightarrow> derived A b a" by (auto simp: below_def intro: derived.self)
qed

lemma derived_from_ok:
  assumes "area_inv (ars s) S r L" "p = NULL \<or> p \<in> L"
  shows "derived_from s p a = Some (p \<noteq> NULL \<and> derived (ars s) p a)"
  using assms(2)
proof (induction "r p" arbitrary: p rule: less_induct)
  case less
  show ?case
  proof (cases "p = NULL \<or> p = a")
    case False
    define q where "q = ar_parent (ars s p)"
    have "q = NULL \<or> q \<in> L \<and> r q < r p" using area_invD(3) [OF assms(1), of p] less(2) False by (auto simp: q_def)
    then have "derived_from s q a = Some (q \<noteq> NULL \<and> derived (ars s) q a)"
      using less(1) [of q] by (cases "q = NULL") (auto simp: derived_from.simps)
    moreover have "derived (ars s) p a \<longleftrightarrow> q \<noteq> NULL \<and> derived (ars s) q a"
      using False by (subst derived.simps) (auto simp: q_def)
    ultimately show ?thesis using False by (subst derived_from.simps) (simp add: q_def)
  qed (subst derived_from.simps, auto intro: derived.self)
qed

section \<open>The system calls\<close>

text \<open>\<open>only_lost s s' D\<close>: the holders' lists of \<open>s'\<close> are those of \<open>s\<close> without the areas in \<open>D\<close>, and the areas left are as they were.\<close>

definition only_lost :: "kstate \<Rightarrow> kstate \<Rightarrow> (addr \<Rightarrow> bool) \<Rightarrow> bool" where
  "only_lost s s' D \<longleftrightarrow> (\<forall>th. set_list s' th = filter (\<lambda>b. \<not> D b) (set_list s th)) \<and>
     (\<forall>th b. b \<in> set (set_list s' th) \<longrightarrow> same_area (ars s' b) (ars s b)) \<and> hang s' = hang s"

lemma settle_only:
  assumes "mem_inv x e V s"
  shows "mem_inv x e V (mem_settle (unlock LArea (lock LArea s)))" "only_lost s (mem_settle (unlock LArea (lock LArea s))) (\<lambda>_. False)"
proof -
  obtain r L where ok: "mem_ok x e V r L s" "anchored (ars s) L" using assms(1) by (auto simp: mem_inv_def)
  have "mem_ok x e V r L (unlock LArea (lock LArea s))" using ok(1) mem_ok_cong [of "unlock LArea (lock LArea s)" s] by simp
  from mem_settle_ok [OF this] ok(2)
  show "mem_inv x e V (mem_settle (unlock LArea (lock LArea s)))" "only_lost s (mem_settle (unlock LArea (lock LArea s))) (\<lambda>_. False)"
    by (auto simp: mem_inv_def only_lost_def)
qed

lemma revoke_settle:
  assumes "mem_inv x e V s" "t \<in> set (set_list s th)" "s' = mem_settle (unlock LArea (ulmk_area_revoke t (lock LArea s)))"
  shows "mem_inv x e V s'" "only_lost s s' (\<lambda>b. derived (ars s) b t)"
proof -
  obtain r L where ok: "mem_ok x e V r L s" "anchored (ars s) L" using assms(1) by (auto simp: mem_inv_def)
  note I = area_invD [OF mem_okD(1) [OF ok(1)]]
  have lk: "mem_ok x e V r L (lock LArea s)" "anchored (ars (lock LArea s)) L" using ok mem_ok_cong [of "lock LArea s" s] by auto
  have tL: "t \<in> L" using I(8) [OF assms(2)] by blast
  define s1 where "s1 = ulmk_area_revoke t (lock LArea s)"
  obtain L' where s1: "mem_ok x e V r L' s1" "anchored (ars s1) L'" "hang s1 = hang s"
    "\<And>th. set_list s1 th = filter (\<lambda>b. b \<noteq> t \<and> b \<notin> below (ars s) L t) (set_list s th)"
    "\<And>b. b \<in> L' \<Longrightarrow> same_area (ars s1 b) (ars s b)"
    using area_revoke_ok [OF lk tL] by (auto simp: s1_def)
  have "mem_ok x e V r L' (unlock LArea s1)" using s1(1) mem_ok_cong [of "unlock LArea s1" s1] by simp
  note st = mem_settle_ok [OF this]
  have s': "s' = mem_settle (unlock LArea s1)" using assms(3) by (simp add: s1_def)
  show "mem_inv x e V s'" using st(1-3) s1(2) by (auto simp: mem_inv_def s')
  have "b \<in> L'" if "b \<in> set (set_list s' th)" for b th using that area_invD(8) [OF mem_okD(1) [OF st(1)]] by (simp add: s')
  moreover have "set_list s' th = filter (\<lambda>b. \<not> derived (ars s) b t) (set_list s th)" for th
    unfolding s' st(4) using s1(4) derived_below [OF mem_okD(1) [OF ok(1)]] I(8) by (auto intro: filter_cong)
  ultimately show "only_lost s s' (\<lambda>b. derived (ars s) b t)"
    using s1(3,5) by (auto simp: only_lost_def s' st(3,5))
qed

text \<open>The area a thread names by its base.\<close>

lemma find_base_ok:
  assumes "mem_inv x e V s"
  shows "ulmk_area_find_base th b (lock LArea s) \<noteq> NULL \<Longrightarrow>
      ulmk_area_find_base th b (lock LArea s) \<in> set (set_list s th) \<and> ar_base (ars s (ulmk_area_find_base th b (lock LArea s))) = b"
    "a \<in> set (set_list s th) \<Longrightarrow> ulmk_area_find_base th (ar_base (ars s a)) (lock LArea s) = a"
    "a \<in> set (set_list s th) \<Longrightarrow> a \<noteq> NULL"
proof -
  obtain r L where ok: "mem_ok x e V r L s" using assms(1) by (auto simp: mem_inv_def)
  note I = area_invD [OF mem_okD(1) [OF ok]]
  show "ulmk_area_find_base th b (lock LArea s) \<noteq> NULL \<Longrightarrow>
      ulmk_area_find_base th b (lock LArea s) \<in> set (set_list s th) \<and> ar_base (ars s (ulmk_area_find_base th b (lock LArea s))) = b"
    using find_base_list [of "lock LArea s" b "set_list s th"] by (simp add: ulmk_area_find_base_def)
  show "a \<in> set (set_list s th) \<Longrightarrow> ulmk_area_find_base th (ar_base (ars s a)) (lock LArea s) = a"
    using find_base_complete [of "lock LArea s" "set_list s th" a] I(7) by (simp add: ulmk_area_find_base_def)
  show "a \<in> set (set_list s th) \<Longrightarrow> a \<noteq> NULL" using I(2,8) by auto
qed

lemma mem_unmap_ok:
  assumes inv: "mem_inv x e V s" and res: "ulmk_kern_mem_unmap p sz s = (rc, s')" and cur: "cur = ulmk_sched_current s"
  shows "mem_inv x e V s'"
    "only_lost s s' (\<lambda>b. cur \<noteq> NULL \<and> p \<noteq> 0 \<and> (\<exists>a\<in>set (set_list s cur). ar_base (ars s a) = p \<and> derived (ars s) b a))"
    "rc = (if cur \<noteq> NULL \<and> p \<noteq> 0 \<and> (\<exists>a\<in>set (set_list s cur). ar_base (ars s a) = p) then ret_u32 ULMK_OK else ret_u32 ULMK_EINVAL)"
proof -
  define a where "a = ulmk_area_find_base cur p (lock LArea s)"
  note fb = find_base_ok [OF inv]
  have eq: "(rc, s') = (if cur = NULL \<or> p = 0 then (ret_u32 ULMK_EINVAL, s)
     else if a \<noteq> NULL then (ret_u32 ULMK_OK, mem_settle (unlock LArea (ulmk_area_revoke a (lock LArea s))))
     else (ret_u32 ULMK_EINVAL, mem_settle (unlock LArea (lock LArea s))))"
    unfolding res [symmetric] ulmk_kern_mem_unmap_def Let_def cur [symmetric] a_def [symmetric] by simp
  have some: "(\<exists>a\<in>set (set_list s cur). ar_base (ars s a) = p \<and> Q a) \<longleftrightarrow> a \<noteq> NULL \<and> Q a" for Q
    using fb(1) [of cur p] fb(2,3) [of _ cur] unfolding a_def by auto
  have id: "only_lost s s (\<lambda>b. False)" by (simp add: only_lost_def)
  note set = settle_only [OF inv] and rv = revoke_settle [OF inv _ refl, of a cur]
  show "mem_inv x e V s'" using eq inv set(1) rv(1) fb(1) [of cur p] by (auto simp: a_def split: if_splits)
  show "rc = (if cur \<noteq> NULL \<and> p \<noteq> 0 \<and> (\<exists>a\<in>set (set_list s cur). ar_base (ars s a) = p) then ret_u32 ULMK_OK else ret_u32 ULMK_EINVAL)"
    using eq some [of "\<lambda>_. True"] by (auto split: if_splits)
  show "only_lost s s' (\<lambda>b. cur \<noteq> NULL \<and> p \<noteq> 0 \<and> (\<exists>a\<in>set (set_list s cur). ar_base (ars s a) = p \<and> derived (ars s) b a))"
    unfolding some using eq id set(2) rv(2) fb(1) [of cur p] by (auto simp: a_def split: if_splits)
qed

lemma mem_revoke_ok:
  assumes inv: "mem_inv x e V s" and res: "ulmk_kern_mem_revoke p td s = (rc, s')" and cur: "cur = ulmk_sched_current s"
    and tgt: "tgt = ulmk_thread_by_tid td s"
  defines "may t \<equiv> cur \<noteq> NULL \<and> p \<noteq> 0 \<and> tgt \<noteq> NULL \<and> t \<in> set (set_list s tgt) \<and> ar_base (ars s t) = p \<and> ar_parent (ars s t) \<noteq> NULL \<and>
    (\<exists>a\<in>set (set_list s cur). ar_base (ars s a) = p \<and> derived (ars s) (ar_parent (ars s t)) a)"
  shows "mem_inv x e V s'" "only_lost s s' (\<lambda>b. \<exists>t. may t \<and> derived (ars s) b t)" "rc = ret_u32 ULMK_OK \<longleftrightarrow> (\<exists>t. may t)"
proof -
  obtain r L where ok: "mem_ok x e V r L s" using inv by (auto simp: mem_inv_def)
  note I = area_invD [OF mem_okD(1) [OF ok]]
  define a where "a = ulmk_area_find_base cur p (lock LArea s)"
  define t where "t = ulmk_area_find_base tgt p (lock LArea s)"
  note fb = find_base_ok [OF inv]
  have a: "a \<noteq> NULL \<Longrightarrow> a \<in> set (set_list s cur) \<and> ar_base (ars s a) = p" and t: "t \<noteq> NULL \<Longrightarrow> t \<in> set (set_list s tgt) \<and> ar_base (ars s t) = p"
    using fb(1) [of cur p] fb(1) [of tgt p] by (auto simp: a_def t_def)
  have ua: "a' = a" if "a' \<in> set (set_list s cur)" "ar_base (ars s a') = p" for a' using fb(2) [OF that(1)] that(2) by (simp add: a_def)
  have ut: "t' = t" if "t' \<in> set (set_list s tgt)" "ar_base (ars s t') = p" for t' using fb(2) [OF that(1)] that(2) by (simp add: t_def)
  have df: "derived_from (lock LArea s) (ar_parent (ars s t)) a = Some (ar_parent (ars s t) \<noteq> NULL \<and> derived (ars s) (ar_parent (ars s t)) a)" if "t \<noteq> NULL"
    using derived_from_ok [of "lock LArea s" _ r L "ar_parent (ars s t)" a] mem_okD(1) [OF ok] I(3) [of t] I(8) t [OF that] by auto
  have may: "may t' \<longleftrightarrow> cur \<noteq> NULL \<and> p \<noteq> 0 \<and> tgt \<noteq> NULL \<and> t' = t \<and> t \<noteq> NULL \<and> a \<noteq> NULL \<and> ar_parent (ars s t) \<noteq> NULL \<and> derived (ars s) (ar_parent (ars s t)) a" for t'
    using a t ua ut fb(3) unfolding may_def by blast
  have eq: "(rc, s') = (if cur = NULL \<or> p = 0 then (ret_u32 ULMK_EINVAL, s) else if tgt = NULL then (ret_u32 ULMK_ESRCH, s)
     else if a = NULL then (ret_u32 ULMK_EPERM, mem_settle (unlock LArea (lock LArea s)))
     else if t = NULL then (ret_u32 ULMK_EINVAL, mem_settle (unlock LArea (lock LArea s)))
     else if ar_parent (ars s t) \<noteq> NULL \<and> derived (ars s) (ar_parent (ars s t)) a then (ret_u32 ULMK_OK, mem_settle (unlock LArea (ulmk_area_revoke t (lock LArea s))))
     else (ret_u32 ULMK_EPERM, mem_settle (unlock LArea (lock LArea s))))"
    unfolding res [symmetric] ulmk_kern_mem_revoke_def Let_def cur [symmetric] tgt [symmetric] a_def [symmetric] t_def [symmetric]
    by (simp add: df split: bool.split)
  have id: "only_lost s s (\<lambda>b. False)" by (simp add: only_lost_def)
  note set = settle_only [OF inv] and rv = revoke_settle [OF inv _ refl, of t tgt]
  show "mem_inv x e V s'" using eq inv set(1) rv(1) t by (auto split: if_splits)
  show "rc = ret_u32 ULMK_OK \<longleftrightarrow> (\<exists>t. may t)" unfolding may using eq by (auto split: if_splits)
  show "only_lost s s' (\<lambda>b. \<exists>t. may t \<and> derived (ars s) b t)"
    unfolding may using eq id set(2) rv(2) t by (auto split: if_splits)
qed

text \<open>\<open>gained s s' th x\<close>: thread \<open>th\<close> has one area more, \<open>x\<close>; everything else is as it was.\<close>

definition gained :: "kstate \<Rightarrow> kstate \<Rightarrow> addr \<Rightarrow> ulmk_area \<Rightarrow> bool" where
  "gained s s' th x \<longleftrightarrow> (\<exists>n l l'. set_list s th = l @ l' \<and> (\<forall>t. set_list s' t = (if t = th then l @ n # l' else set_list s t)) \<and>
     same_area (ars s' n) x \<and> (\<forall>t b. b \<in> set (set_list s t) \<longrightarrow> b \<noteq> n \<and> same_area (ars s' b) (ars s b))) \<and> hang s' = hang s"

lemma mem_grant_ok:
  assumes inv: "mem_inv x e V s" and res: "ulmk_kern_mem_grant p z td perms s = (rc, s')" and cur: "cur = ulmk_sched_current s"
    and tgt: "tgt = ulmk_thread_by_tid td s"
  shows "mem_inv x e V s'" "rc \<noteq> ret_u32 ULMK_OK \<Longrightarrow> av s' = av s"
    "rc = ret_u32 ULMK_OK \<Longrightarrow> \<exists>a\<in>set (set_list s cur). ar_base (ars s a) = p \<and>
       gained s s' tgt \<lparr>ar_parent = a, ar_children = [], ar_set = tgt, ar_base = p, ar_size = ar_size (ars s a),
         ar_perms = perms AND ar_perms (ars s a),
         ar_type = (if ar_type (ars s a) = ULMK_REGION_HEAP then ULMK_REGION_GRANT else ar_type (ars s a)), ar_flags = 0\<rparr>"
    "hang s' = hang s"
proof -
  obtain r L where ok: "mem_ok x e V r L s" "anchored (ars s) L" using inv by (auto simp: mem_inv_def)
  note I = area_invD [OF mem_okD(1) [OF ok(1)]]
  have lk: "mem_ok x e V r L (lock LArea s)" "anchored (ars (lock LArea s)) L" using ok mem_ok_cong [of "lock LArea s" s] by auto
  define a where "a = ulmk_area_find_base cur p (lock LArea s)"
  define ty where "ty = (if ar_type (ars s a) = ULMK_REGION_HEAP then ULMK_REGION_GRANT else ar_type (ars s a))"
  obtain rc' n s1 where ins: "ulmk_area_insert tgt (ar_base (ars s a)) (ar_size (ars s a)) (perms AND ar_perms (ars s a)) ty 0 a (lock LArea s) = (rc', n, s1)"
    by (metis prod_cases3)
  have a: "a \<noteq> NULL \<Longrightarrow> a \<in> set (set_list s cur) \<and> ar_base (ars s a) = p" using find_base_ok(1) [OF inv, of cur p] by (simp add: a_def)
  have eq: "(rc, s') = (if cur = NULL \<or> p = 0 then (ret_u32 ULMK_EINVAL, s) else if tgt = NULL then (ret_u32 ULMK_ESRCH, s)
     else if a = NULL then (ret_u32 ULMK_EPERM, unlock LArea (lock LArea s)) else (ret_u32 rc', unlock LArea s1))"
    unfolding res [symmetric] ulmk_kern_mem_grant_def Let_def cur [symmetric] tgt [symmetric] a_def [symmetric]
      lock_frame ty_def [symmetric] ins prod.case by simp
  have errs: "rc' \<in> {ULMK_OK, ULMK_EINVAL, ULMK_ENOMEM}"
    using ins by (auto simp: ulmk_area_insert_def Let_def split: if_splits option.splits prod.splits)
  have "mem_inv x e V s' \<and> (rc \<noteq> ret_u32 ULMK_OK \<longrightarrow> av s' = av s) \<and> hang s' = hang s \<and> (rc = ret_u32 ULMK_OK \<longrightarrow> (\<exists>a\<in>set (set_list s cur). ar_base (ars s a) = p \<and>
       gained s s' tgt \<lparr>ar_parent = a, ar_children = [], ar_set = tgt, ar_base = p, ar_size = ar_size (ars s a),
         ar_perms = perms AND ar_perms (ars s a),
         ar_type = (if ar_type (ars s a) = ULMK_REGION_HEAP then ULMK_REGION_GRANT else ar_type (ars s a)), ar_flags = 0\<rparr>))"
  proof (cases "cur = NULL \<or> p = 0 \<or> tgt = NULL \<or> a = NULL")
    case True
    then show ?thesis using eq inv mem_inv_cong [of "unlock LArea (lock LArea s)" s] by (auto split: if_splits)
  next
    case False
    then have s': "s' = unlock LArea s1" "rc = ret_u32 rc'" and T: "tgt \<noteq> NULL" and aS: "a \<in> set (set_list s cur)" "ar_base (ars s a) = p"
      using eq a by auto
    then have aL: "a \<in> L" using I(8) by blast
    have p: "a = NULL \<or> a \<in> L \<and> ar_base (ars s a) = ar_base (ars (lock LArea s) a) \<and> ar_size (ars s a) = ar_size (ars (lock LArea s) a) \<and>
      (perms AND ar_perms (ars s a)) AND ar_perms (ars (lock LArea s) a) = (perms AND ar_perms (ars s a)) \<and> (0::u8) AND ULMK_AREA_BACKED = 0"
      using aL by (simp add: and.assoc)
    have bk: "(0::u8) AND ULMK_AREA_BACKED \<noteq> 0 \<longrightarrow> ar_base (ars s a) \<in> V" by simp
    note io = area_insert_ok [OF lk(1) T p bk ins]
    show ?thesis
    proof (cases "rc' = ULMK_OK")
      case True
      from io(2) [OF True] obtain r' l l' where i: "mem_ok x e V r' (insert n L) s1" "n \<notin> L" "anchored (ars s1) (insert n L)" "hang s1 = hang s"
        "area_retired (ulmk_percpu s1) = area_retired (ulmk_percpu (lock LArea s))" "\<forall>c\<in>L. same_area (ars s1 c) (ars s c)"
        "set_list s tgt = l @ l'" "\<forall>t. set_list s1 t = (if t = tgt then l @ n # l' else set_list s t)"
        "same_area (ars s1 n) \<lparr>ar_parent = a, ar_children = [], ar_set = tgt, ar_base = ar_base (ars s a), ar_size = ar_size (ars s a),
         ar_perms = perms AND ar_perms (ars s a), ar_type = ty, ar_flags = 0\<rparr>"
        using lk(2) by auto
      have "area_retired (ulmk_percpu (lock LArea s)) = []" using inv by (simp add: mem_inv_def ulmk_percpu_def percpu_ix_def)
      then have "mem_inv x e V s1" using i by (auto simp: mem_inv_def)
      then have "mem_inv x e V s'" using mem_inv_cong [of s' s1] by (simp add: s')
      moreover have "gained s s' tgt \<lparr>ar_parent = a, ar_children = [], ar_set = tgt, ar_base = p, ar_size = ar_size (ars s a),
         ar_perms = perms AND ar_perms (ars s a), ar_type = ty, ar_flags = 0\<rparr>"
        unfolding gained_def s' using i I(8) aS(2) by (intro conjI exI [of _ n] exI [of _ l] exI [of _ l']) auto
      ultimately show ?thesis using aS True i(4) by (auto simp: s' ty_def)
    next
      case F: False
      then have "av s' = av s" using io(1) by (simp add: s')
      moreover have "rc \<noteq> ret_u32 ULMK_OK" using F errs by (auto simp: s')
      ultimately show ?thesis using inv mem_inv_cong [of s' s] by (auto simp: av_def)
    qed
  qed
  then show "mem_inv x e V s'" "rc \<noteq> ret_u32 ULMK_OK \<Longrightarrow> av s' = av s"
    "rc = ret_u32 ULMK_OK \<Longrightarrow> \<exists>a\<in>set (set_list s cur). ar_base (ars s a) = p \<and>
       gained s s' tgt \<lparr>ar_parent = a, ar_children = [], ar_set = tgt, ar_base = p, ar_size = ar_size (ars s a),
         ar_perms = perms AND ar_perms (ars s a),
         ar_type = (if ar_type (ars s a) = ULMK_REGION_HEAP then ULMK_REGION_GRANT else ar_type (ars s a)), ar_flags = 0\<rparr>"
    "hang s' = hang s" by blast+
qed

lemma gained_av: "av s1 = av s \<Longrightarrow> gained s1 s' th x = gained s s' th x" "av s1 = av s' \<Longrightarrow> gained s s1 th x = gained s s' th x"
  by (auto simp: gained_def av_def fun_eq_iff)

lemma only_lost_av: "av s' = av s \<Longrightarrow> only_lost s s' (\<lambda>_. False)"
  by (auto simp: only_lost_def av_def fun_eq_iff)

text \<open>A new origin.\<close>

lemma insert_origin:
  assumes ok: "mem_ok x e V r L s" "anchored (ars s) L" "area_retired (ulmk_percpu s) = []" and th: "th \<noteq> NULL"
    and bk: "fl AND ULMK_AREA_BACKED \<noteq> 0 \<longrightarrow> b \<in> V"
    and ins: "ulmk_area_insert th b z perms ty fl NULL s = (rc, n, s1)"
  shows "rc \<noteq> ULMK_OK \<Longrightarrow> av s1 = av s"
    "rc = ULMK_OK \<Longrightarrow> mem_inv x e (if fl AND ULMK_AREA_BACKED \<noteq> 0 then V - {b} else V) s1 \<and>
      gained s s1 th \<lparr>ar_parent = NULL, ar_children = [], ar_set = th, ar_base = b, ar_size = z, ar_perms = perms, ar_type = ty, ar_flags = fl\<rparr>"
proof -
  note io = area_insert_ok [OF ok(1) th disjI1 [OF refl] bk ins]
  show "rc \<noteq> ULMK_OK \<Longrightarrow> av s1 = av s" by (rule io(1))
  assume rc: "rc = ULMK_OK"
  from io(2) [OF rc] obtain r' l l' where i: "mem_ok x e (if fl AND ULMK_AREA_BACKED \<noteq> 0 then V - {b} else V) r' (insert n L) s1" "n \<notin> L"
    "anchored (ars s1) (insert n L)" "hang s1 = hang s" "area_retired (ulmk_percpu s1) = []" "\<forall>c\<in>L. same_area (ars s1 c) (ars s c)"
    "set_list s th = l @ l'" "\<forall>t. set_list s1 t = (if t = th then l @ n # l' else set_list s t)"
    "same_area (ars s1 n) \<lparr>ar_parent = NULL, ar_children = [], ar_set = th, ar_base = b, ar_size = z, ar_perms = perms, ar_type = ty, ar_flags = fl\<rparr>"
    using ok(2,3) by auto
  have "mem_inv x e (if fl AND ULMK_AREA_BACKED \<noteq> 0 then V - {b} else V) s1" unfolding mem_inv_def using i(1,3,5) by blast
  moreover have "gained s s1 th \<lparr>ar_parent = NULL, ar_children = [], ar_set = th, ar_base = b, ar_size = z, ar_perms = perms, ar_type = ty, ar_flags = fl\<rparr>"
    unfolding gained_def using i area_invD(8) [OF mem_okD(1) [OF ok(1)]] by (intro conjI exI [of _ n] exI [of _ l] exI [of _ l']) auto
  ultimately show "mem_inv x e (if fl AND ULMK_AREA_BACKED \<noteq> 0 then V - {b} else V) s1 \<and>
      gained s s1 th \<lparr>ar_parent = NULL, ar_children = [], ar_set = th, ar_base = b, ar_size = z, ar_perms = perms, ar_type = ty, ar_flags = fl\<rparr>" ..
qed

definition map_len :: "kconfig \<Rightarrow> u32 \<Rightarrow> u32" where
  "map_len cf z = (z + region_align cf - 1) AND NOT (region_align cf - 1)"

lemma map_backed_ok:
  assumes inv: "mem_inv x e V s" and cur: "cur \<noteq> NULL" and len: "len = map_len (cfg s) z"
    and al: "k_heap_aligned_alloc (region_align (cfg s)) len s = (b, s1)"
    and fit: "64 < region_align (cfg s) \<longrightarrow> unat len + unat (region_align (cfg s)) + 128 \<le> 2 ^ 32"
    and ins: "ulmk_area_insert cur b len perms ty ULMK_AREA_BACKED NULL (lock LArea s1) = (rc, n, s2)" and b: "b \<noteq> NULL"
  shows "rc = ULMK_OK \<Longrightarrow> mem_inv x e V s2 \<and> gained s s2 cur \<lparr>ar_parent = NULL, ar_children = [], ar_set = cur, ar_base = b,
      ar_size = len, ar_perms = perms, ar_type = ty, ar_flags = ULMK_AREA_BACKED\<rparr>"
    "rc \<noteq> ULMK_OK \<Longrightarrow> mem_inv x e V (k_heap_free b s2) \<and> only_lost s (k_heap_free b s2) (\<lambda>_. False)"
proof -
  obtain r L where ok: "mem_ok x e V r L s" "anchored (ars s) L" and R: "area_retired (ulmk_percpu s) = []" using inv by (auto simp: mem_inv_def)
  obtain U where U: "heap_ok (heap s) x e U" "owns (ars s) (L \<union> set (area_retired (ulmk_percpu s))) V U" using mem_okD(5) [OF ok(1)] by blast
  obtain h k where h: "av s1 = (ars s, (\<lambda>th. set_list s th), h, area_retired (ulmk_percpu s), hang s)" "heap_ok h x e (U(b \<mapsto> k))" "U b = None"
    using k_heap_aligned_view(2) [OF U(1) al fit b] by blast
  note ok1 = mem_ok_alloc [OF ok(1) h(1) U h(2,3)]
  note f1 = av_fields [OF h(1)]
  have lk: "mem_ok x e (insert b V) r L (lock LArea s1)" "anchored (ars (lock LArea s1)) L" "area_retired (ulmk_percpu (lock LArea s1)) = []"
    using ok1 ok(2) R mem_ok_cong [of "lock LArea s1" s1] by (auto simp: f1) (simp add: ulmk_percpu_def percpu_ix_def f1(4) [unfolded ulmk_percpu_def percpu_ix_def])
  have bk: "ULMK_AREA_BACKED AND ULMK_AREA_BACKED \<noteq> 0 \<longrightarrow> b \<in> insert b V" by simp
  note io = insert_origin [OF lk cur bk ins]
  have Vb: "(if ULMK_AREA_BACKED AND ULMK_AREA_BACKED \<noteq> 0 then insert b V - {b} else insert b V) = V" using ok1(2) by simp
  have g: "gained (lock LArea s1) s2 cur y = gained s s2 cur y" for y
    by (auto simp: gained_def f1)
  show "mem_inv x e V s2 \<and> gained s s2 cur \<lparr>ar_parent = NULL, ar_children = [], ar_set = cur, ar_base = b,
      ar_size = len, ar_perms = perms, ar_type = ty, ar_flags = ULMK_AREA_BACKED\<rparr>" if "rc = ULMK_OK"
    using io(2) [OF that] unfolding Vb g .
  assume "rc \<noteq> ULMK_OK"
  then have a2: "av s2 = av s1" using io(1) by simp
  then have ok2: "mem_ok x e (insert b V) r L s2" using ok1(1) mem_ok_cong by blast
  note fr = mem_ok_free [OF ok2 ok1(2)]
  have f2: "ars s2 = ars s" "set_list s2 th = set_list s th" "hang s2 = hang s" "area_retired (ulmk_percpu s2) = []" for th
    using a2 h(1) R by (auto simp: av_def fun_eq_iff)
  show "mem_inv x e V (k_heap_free b s2) \<and> only_lost s (k_heap_free b s2) (\<lambda>_. False)"
    using fr(1) ok(2) by (auto simp: mem_inv_def only_lost_def av_fields [OF fr(2)] f2)
qed

text \<open>What a successful \<^verbatim>\<open>mmap\<close> gives the caller: the range asked for, or a fresh block of the rounded size.\<close>

definition mapped :: "kstate \<Rightarrow> kstate \<Rightarrow> addr \<Rightarrow> addr \<Rightarrow> addr \<Rightarrow> u32 \<Rightarrow> u32 \<Rightarrow> bool" where
  "mapped s s' cur b hint z perms \<longleftrightarrow> cur \<noteq> NULL \<and> (\<exists>ty.
     b = hint \<and> gained s s' cur \<lparr>ar_parent = NULL, ar_children = [], ar_set = cur, ar_base = b, ar_size = z,
       ar_perms = perms AND MEM_PERMS, ar_type = ty, ar_flags = 0\<rparr> \<or>
     gained s s' cur \<lparr>ar_parent = NULL, ar_children = [], ar_set = cur, ar_base = b, ar_size = map_len (cfg s) z,
       ar_perms = perms AND MEM_PERMS, ar_type = ty, ar_flags = ULMK_AREA_BACKED\<rparr>)"

lemma mem_map_ok:
  assumes inv: "mem_inv x e V s" and res: "ulmk_kern_mem_map hint z perms fl s = (rc, s')" and cur: "cur = ulmk_sched_current s"
    and fit: "64 < region_align (cfg s) \<longrightarrow> unat (map_len (cfg s) z) + unat (region_align (cfg s)) + 128 \<le> 2 ^ 32"
  shows "mem_inv x e V s'"
    "only_lost s s' (\<lambda>_. False) \<or> mapped s s' cur rc hint z perms"
proof -
  let ?P = "\<lambda>rc s'. mem_inv x e V s' \<and> (only_lost s s' (\<lambda>_. False) \<or> mapped s s' cur rc hint z perms)"
  have id: "?P c t" if "av t = av s" for c t using only_lost_av [OF that] inv mem_inv_cong [OF that] by blast
  have plain: "?P (if c \<noteq> ULMK_OK then ret_u32 c else hint) (unlock LArea s2)"
    if ins: "ulmk_area_insert cur hint z (perms AND MEM_PERMS) ty 0 NULL (lock LArea s) = (c, n, s2)" and c: "cur \<noteq> NULL" for ty c n s2
  proof -
    obtain r L where ok: "mem_ok x e V r L s" "anchored (ars s) L" and R: "area_retired (ulmk_percpu s) = []" using inv by (auto simp: mem_inv_def)
    have lk: "mem_ok x e V r L (lock LArea s)" "anchored (ars (lock LArea s)) L" "area_retired (ulmk_percpu (lock LArea s)) = []"
      using ok R mem_ok_cong [of "lock LArea s" s] by (auto simp: ulmk_percpu_def percpu_ix_def)
    have bk: "(0::u8) AND ULMK_AREA_BACKED \<noteq> 0 \<longrightarrow> hint \<in> V" by simp
    note io = insert_origin [OF lk c bk ins]
    show ?thesis
    proof (cases "c = ULMK_OK")
      case True
      from io(2) [OF True] have m: "mem_inv x e V s2" and
        g: "gained (lock LArea s) s2 cur \<lparr>ar_parent = NULL, ar_children = [], ar_set = cur, ar_base = hint, ar_size = z, ar_perms = perms AND MEM_PERMS, ar_type = ty, ar_flags = 0\<rparr>"
        by simp_all
      have "mem_inv x e V (unlock LArea s2)" using m mem_inv_cong [of "unlock LArea s2" s2] by simp
      moreover have "gained s (unlock LArea s2) cur \<lparr>ar_parent = NULL, ar_children = [], ar_set = cur, ar_base = hint, ar_size = z, ar_perms = perms AND MEM_PERMS, ar_type = ty, ar_flags = 0\<rparr>"
        using g gained_av(1) [of "lock LArea s" s] gained_av(2) [of "unlock LArea s2" s2] by simp
      ultimately have "mem_inv x e V (unlock LArea s2)" "mapped s (unlock LArea s2) cur hint hint z perms"
        using c by (auto simp: mapped_def)
      then show ?thesis using True by simp
    next
      case False
      then show ?thesis using io(1) by (intro id) simp
    qed
  qed
  let ?al = "region_align (cfg s)"
  let ?len = "(z + ?al - 1) AND NOT (?al - 1)"
  obtain b s1 where al: "k_heap_aligned_alloc ?al ?len s = (b, s1)" by fastforce
  have len: "?len = map_len (cfg s) z" by (simp add: map_len_def)
  have bkd: "?P (if c \<noteq> ULMK_OK then ret_u32 c else b) (if c \<noteq> ULMK_OK then k_heap_free b (unlock LArea s2) else unlock LArea s2)"
    if ins: "ulmk_area_insert cur b ?len (perms AND MEM_PERMS) ty ULMK_AREA_BACKED NULL (lock LArea s1) = (c, n, s2)" and c: "cur \<noteq> NULL" and b: "b \<noteq> NULL" for ty c n s2
  proof -
    note mb = map_backed_ok [OF inv c len al fit [folded len] ins b]
    show ?thesis
    proof (cases "c = ULMK_OK")
      case True
      from mb(1) [OF True] have m: "mem_inv x e V s2" and g: "gained s s2 cur \<lparr>ar_parent = NULL, ar_children = [], ar_set = cur, ar_base = b,
        ar_size = ?len, ar_perms = perms AND MEM_PERMS, ar_type = ty, ar_flags = ULMK_AREA_BACKED\<rparr>" by simp_all
      have "mem_inv x e V (unlock LArea s2)" using m mem_inv_cong [of "unlock LArea s2" s2] by simp
      moreover have "gained s (unlock LArea s2) cur \<lparr>ar_parent = NULL, ar_children = [], ar_set = cur, ar_base = b,
        ar_size = ?len, ar_perms = perms AND MEM_PERMS, ar_type = ty, ar_flags = ULMK_AREA_BACKED\<rparr>"
        using g gained_av(2) [of "unlock LArea s2" s2] by simp
      ultimately have "mem_inv x e V (unlock LArea s2)" "mapped s (unlock LArea s2) cur b hint z perms"
        using c len by (auto simp: mapped_def)
      then show ?thesis using True by simp
    next
      case False
      have a: "av (k_heap_free b (unlock LArea s2)) = av (k_heap_free b s2)" using b by (simp add: av_heap_free)
      have "mem_inv x e V (k_heap_free b (unlock LArea s2))" unfolding mem_inv_cong [OF a] using mb(2) [OF False] by blast
      moreover have "only_lost s (k_heap_free b (unlock LArea s2)) (\<lambda>_. False)"
        using mb(2) [OF False] a by (auto simp: only_lost_def av_def fun_eq_iff)
      ultimately have "mem_inv x e V (k_heap_free b (unlock LArea s2))" "only_lost s (k_heap_free b (unlock LArea s2)) (\<lambda>_. False)" by blast+
      then show ?thesis using False by simp
    qed
  qed
  have null: "?P c s1" if "b = NULL" for c
  proof (rule id)
    obtain r L where ok: "mem_ok x e V r L s" using inv by (auto simp: mem_inv_def)
    then obtain U where U: "heap_ok (heap s) x e U" using mem_okD(5) by blast
    show "av s1 = av s" by (rule k_heap_aligned_view(1) [OF U al fit [folded len] that])
  qed
  define ty where "ty = (if fl AND ULMK_MMAP_PERIPH \<noteq> 0 then ULMK_REGION_PERIPH else ULMK_REGION_SHARED)"
  obtain c n s2 where i1: "ulmk_area_insert cur hint z (perms AND MEM_PERMS) ty 0 NULL (lock LArea s) = (c, n, s2)" by (metis prod_cases3)
  obtain c' n' s2' where i2: "ulmk_area_insert cur b ?len (perms AND MEM_PERMS) ULMK_REGION_HEAP ULMK_AREA_BACKED NULL (lock LArea s1) = (c', n', s2')"
    by (metis prod_cases3)
  consider "rc = ret_u32 ULMK_EINVAL" "s' = s"
    | "cur \<noteq> NULL" "rc = (if c \<noteq> ULMK_OK then ret_u32 c else hint)" "s' = unlock LArea s2"
    | "b = NULL" "s' = s1"
    | "cur \<noteq> NULL" "b \<noteq> NULL" "rc = (if c' \<noteq> ULMK_OK then ret_u32 c' else b)"
      "s' = (if c' \<noteq> ULMK_OK then k_heap_free b (unlock LArea s2') else unlock LArea s2')"
    using res i1 i2 unfolding ulmk_kern_mem_map_def Let_def cur [symmetric] ty_def
    by (auto simp: al split: if_splits)
  then have "?P rc s'"
  proof cases
    case 1
    then show ?thesis using id by simp
  next
    case 2
    show ?thesis unfolding 2(2,3) by (rule plain [OF i1 2(1)])
  next
    case 3
    then show ?thesis using null by simp
  next
    case 4
    show ?thesis unfolding 4(3,4) by (rule bkd [OF i2 4(1,2)])
  qed
  then show "mem_inv x e V s'"
    "only_lost s s' (\<lambda>_. False) \<or> mapped s s' cur rc hint z perms" by blast+
qed

section \<open>Thread death and inheritance\<close>

lemma mem_release_ok:
  assumes "mem_inv x e V s"
  shows "mem_inv x e V (ulmk_mem_thread_release th s)" "hang (ulmk_mem_thread_release th s) = hang s"
    "set_list (ulmk_mem_thread_release th s) t = (if t = th then [] else set_list s t)"
    "t \<noteq> th \<Longrightarrow> b \<in> set (set_list s t) \<Longrightarrow> same_area (ars (ulmk_mem_thread_release th s) b) (ars s b)"
proof -
  obtain r L where ok: "mem_ok x e V r L s" "anchored (ars s) L" using assms by (auto simp: mem_inv_def)
  have lk: "mem_ok x e V r L (lock LArea s)" "anchored (ars (lock LArea s)) L" using ok mem_ok_cong [of "lock LArea s" s] by auto
  from set_release_loop_ok [OF lk, of th] obtain s1 L' where s1: "set_release_loop th (lock LArea s) = Some s1" "mem_ok x e V r L' s1" "anchored (ars s1) L'"
    "\<And>t. set_list s1 t = (if t = th then [] else set_list s t)" "hang s1 = hang s"
    "\<And>b. b \<in> L' \<Longrightarrow> ar_set (ars s b) \<noteq> th \<Longrightarrow> same_area (ars s1 b) (ars s b)" by auto
  have "mem_ok x e V r L' (unlock LArea s1)" using s1(2) mem_ok_cong [of "unlock LArea s1" s1] by simp
  note st = mem_settle_ok [OF this]
  have s': "ulmk_mem_thread_release th s = mem_settle (unlock LArea s1)"
    by (simp add: ulmk_mem_thread_release_def ulmk_area_set_release_def s1(1) or_hang_def Let_def)
  show "mem_inv x e V (ulmk_mem_thread_release th s)" using st(1-3) s1(3) by (auto simp: mem_inv_def s')
  show "hang (ulmk_mem_thread_release th s) = hang s" by (simp add: s' st(5) s1(5))
  show l: "set_list (ulmk_mem_thread_release th s) t = (if t = th then [] else set_list s t)" by (simp add: s' st(4) s1(4))
  assume t: "t \<noteq> th" "b \<in> set (set_list s t)"
  then have "b \<in> L'" using l area_invD(8) [OF mem_okD(1) [OF st(1)], of b t] by (simp add: s')
  moreover have "ar_set (ars s b) \<noteq> th" using area_invD(8) [OF mem_okD(1) [OF ok(1)] t(2)] t(1) by simp
  ultimately show "same_area (ars (ulmk_mem_thread_release th s) b) (ars s b)" using s1(6) by (simp add: s' st(3))
qed

lemma area_inherit_ok:
  assumes "mem_ok x e V r L s" "anchored (ars s) L" "area_retired (ulmk_percpu s) = []" "dst \<noteq> NULL" "set as \<subseteq> L"
    "area_inherit_list dst as s = (rc, s')"
  shows "mem_inv x e V s' \<and> hang s' = hang s"
  using assms(1-3,5,6)
proof (induction as arbitrary: r L s)
  case Nil
  then show ?case by (auto simp: mem_inv_def)
next
  case (Cons a as)
  let ?x = "ars s a"
  obtain c n s1 where ins: "ulmk_area_insert dst (ar_base ?x) (ar_size ?x) (ar_perms ?x) (ar_type ?x) 0 a s = (c, n, s1)" by (metis prod_cases3)
  have p: "a = NULL \<or> a \<in> L \<and> ar_base ?x = ar_base (ars s a) \<and> ar_size ?x = ar_size (ars s a) \<and> ar_perms ?x AND ar_perms (ars s a) = ar_perms ?x \<and>
    (0::u8) AND ULMK_AREA_BACKED = 0" using Cons.prems(4) by simp
  have bk: "(0::u8) AND ULMK_AREA_BACKED \<noteq> 0 \<longrightarrow> ar_base ?x \<in> V" by simp
  note io = area_insert_ok [OF Cons.prems(1) assms(4) p bk ins]
  show ?case
  proof (cases "c = ULMK_OK")
    case True
    from io(2) [OF True] obtain r' where i: "mem_ok x e V r' (insert n L) s1" "anchored (ars s1) (insert n L)" "hang s1 = hang s"
      "area_retired (ulmk_percpu s1) = []" using Cons.prems(2,3) by auto
    have "area_inherit_list dst as s1 = (rc, s')" using Cons.prems(5) ins True by (simp add: Let_def)
    from Cons.IH [OF i(1,2,4) _ this] Cons.prems(4) i(3) show ?thesis by auto
  next
    case False
    then have "s' = s1" using Cons.prems(5) ins by (simp add: Let_def)
    moreover have "av s1 = av s" using io(1) False by simp
    moreover have "mem_inv x e V s" using Cons.prems(1-3) by (auto simp: mem_inv_def)
    ultimately show ?thesis using mem_inv_cong [of s1 s] by (auto simp: av_def)
  qed
qed

lemma mem_inherit_ok:
  assumes "mem_inv x e V s" "child \<noteq> NULL"
  shows "mem_inv x e V (snd (ulmk_mem_thread_inherit child parent s))" "hang (snd (ulmk_mem_thread_inherit child parent s)) = hang s"
proof -
  obtain r L where ok: "mem_ok x e V r L s" "anchored (ars s) L" "area_retired (ulmk_percpu s) = []" using assms(1) by (auto simp: mem_inv_def)
  have lk: "mem_ok x e V r L (lock LArea s)" "anchored (ars (lock LArea s)) L" "area_retired (ulmk_percpu (lock LArea s)) = []"
    using ok mem_ok_cong [of "lock LArea s" s] by (auto simp: ulmk_percpu_def percpu_ix_def)
  obtain rc s1 where i: "area_inherit_list child (set_list s parent) (lock LArea s) = (rc, s1)" by fastforce
  have "set (set_list s parent) \<subseteq> L" using area_invD(8) [OF mem_okD(1) [OF ok(1)]] by auto
  from area_inherit_ok [OF lk assms(2) this i] have "mem_inv x e V s1" "hang s1 = hang s" by auto
  moreover have "snd (ulmk_mem_thread_inherit child parent s) = unlock LArea s1"
    by (simp add: ulmk_mem_thread_inherit_def ulmk_area_inherit_def i)
  ultimately show "mem_inv x e V (snd (ulmk_mem_thread_inherit child parent s))" "hang (snd (ulmk_mem_thread_inherit child parent s)) = hang s"
    using mem_inv_cong [of "unlock LArea s1" s1] by auto
qed

end
