(* ===== verification/Isolation.thy ===== *)
theory Isolation
  imports Mem_Inv
begin

text \<open>
  Memory isolation: the window \<^verbatim>\<open>ulmk_area_window\<close> computes is the largest the protection unit can
  encode inside the area, the fault handler loads nothing outside the areas of the running thread, and the
  memory system calls keep the invariant, hand on no more than the caller has and take back whole subtrees.
\<close>

section \<open>Windows\<close>

definition inside :: "arch_region \<Rightarrow> ulmk_area \<Rightarrow> bool" where
  "inside w a \<longleftrightarrow> unat (ar_base a) \<le> unat (r_base w) \<and>
     unat (r_base w) + unat (r_size w) \<le> unat (ar_base a) + unat (ar_size a)"

definition covers_addr :: "arch_region \<Rightarrow> addr \<Rightarrow> bool" where
  "covers_addr w p \<longleftrightarrow> unat (r_base w) \<le> unat p \<and> unat p < unat (r_base w) + unat (r_size w)"

text \<open>The aligned power-of-two block of size \<open>2 ^ j\<close> around \<open>p\<close> fits the area at \<open>lo\<close>.\<close>

definition block_fits :: "nat \<Rightarrow> addr \<Rightarrow> addr \<Rightarrow> u32 \<Rightarrow> bool" where
  "block_fits j p lo asz \<longleftrightarrow> unat lo \<le> unat p div 2 ^ j * 2 ^ j \<and> unat p div 2 ^ j * 2 ^ j + 2 ^ j \<le> unat lo + unat asz"

lemma block_fits_mono:
  assumes "block_fits m p lo asz" "j \<le> m"
  shows "block_fits j p lo asz"
proof -
  obtain d where m: "m = j + d" using assms(2) le_Suc_ex by blast
  define q where "q = unat p div 2 ^ j"
  have e: "unat p div 2 ^ m = q div 2 ^ d" by (simp add: m q_def power_add div_mult2_eq)
  have "q div 2 ^ d * 2 ^ d * 2 ^ j \<le> q * 2 ^ j" by (intro mult_le_mono1) simp
  then have 1: "unat p div 2 ^ m * 2 ^ m \<le> q * 2 ^ j"
    unfolding e unfolding m power_add by (simp only: ac_simps)
  have "q < (q div 2 ^ d + 1) * 2 ^ d" by (simp add: dividend_less_div_times)
  then have "(q + 1) * 2 ^ j \<le> ((q div 2 ^ d + 1) * 2 ^ d) * 2 ^ j" by (intro mult_le_mono1) simp
  then have 2: "q * 2 ^ j + 2 ^ j \<le> unat p div 2 ^ m * 2 ^ m + 2 ^ m"
    unfolding e unfolding m power_add by (simp add: algebra_simps)
  show ?thesis using assms(1) 1 2 unfolding block_fits_def q_def [symmetric] by linarith
qed

lemma unat_pow2: "j < 32 \<Longrightarrow> unat (2 ^ j :: u32) = 2 ^ j"
proof -
  assume j: "j < 32"
  then have "unat (word_of_nat (2 ^ j) :: u32) = 2 ^ j" by (simp only: unsigned_of_nat) simp
  then show ?thesis by simp
qed

lemma fits_words:
  fixes lo p asz :: u32
  assumes "j < 32" "unat lo + unat asz < 2 ^ 32"
  shows "\<not> (asz < 2 ^ j \<or> (p AND NOT (mask j)) < lo \<or> (p AND NOT (mask j)) - lo > asz - 2 ^ j) \<longleftrightarrow> block_fits j p lo asz"
proof -
  note u = unat_pow2 [OF assms(1)]
  have "unat (asz - 2 ^ j) = unat asz - 2 ^ j" if "2 ^ j \<le> unat asz"
    using that u by (simp add: unat_sub word_le_nat_alt)
  moreover have "unat ((p AND NOT (mask j)) - lo) = unat (p AND NOT (mask j)) - unat lo" if "unat lo \<le> unat (p AND NOT (mask j))"
    using that by (simp add: unat_sub word_le_nat_alt)
  ultimately show ?thesis
    unfolding block_fits_def word_less_nat_alt unat_and_not_mask u by (auto simp: not_less)
qed

lemma window_grow_ok:
  assumes "j < 32" "unat lo + unat asz < 2 ^ 32" "block_fits j p lo asz" "32 \<le> n + j"
    "window_grow n lo asz p (2 ^ j) (p AND NOT (mask j)) = (sz, b)"
  shows "\<exists>m. j \<le> m \<and> m < 32 \<and> sz = 2 ^ m \<and> b = p AND NOT (mask m) \<and> block_fits m p lo asz \<and> (\<forall>k. m < k \<and> k < 32 \<longrightarrow> \<not> block_fits k p lo asz)"
  using assms
proof (induction n arbitrary: j)
  case (Suc n)
  have le: "(2 ^ j :: u32) \<le> 0x7FFFFFFF \<longleftrightarrow> j < 31"
  proof -
    note unat_pow2 [OF Suc.prems(1)]
    moreover have "j < 31 \<Longrightarrow> (2::nat) ^ j \<le> 2 ^ 30" by (intro power_increasing) auto
    moreover have "\<not> j < 31 \<Longrightarrow> (2::nat) ^ 31 \<le> 2 ^ j" by (intro power_increasing) auto
    ultimately show ?thesis by (cases "j < 31") (auto simp: word_le_nat_alt)
  qed
  show ?case
  proof (cases "j < 31")
    case False
    then have "k < 32 \<Longrightarrow> \<not> j < k" for k by simp
    then show ?thesis using Suc.prems le False by (intro exI [of _ j]) auto
  next
    case True
    have p1: "push_bit 1 (2 ^ j) = (2 ^ Suc j :: u32)" by (simp add: push_bit_eq_mult)
    have nb: "p AND NOT (push_bit 1 (2 ^ j) - 1) = p AND NOT (mask (Suc j))" unfolding p1 by (simp only: pow2_minus_1_mask)
    note fw = fits_words [of "Suc j" lo asz p]
    have f: "(asz < push_bit 1 (2 ^ j) \<or> (p AND NOT (mask (Suc j))) < lo \<or> (p AND NOT (mask (Suc j))) - lo > asz - push_bit 1 (2 ^ j)) \<longleftrightarrow> \<not> block_fits (Suc j) p lo asz"
      unfolding p1 by (subst fw [symmetric]) (use True Suc.prems(2) in auto)
    have step: "window_grow (Suc n) lo asz p (2 ^ j) (p AND NOT (mask j)) =
        (if block_fits (Suc j) p lo asz then window_grow n lo asz p (2 ^ Suc j) (p AND NOT (mask (Suc j))) else (2 ^ j, p AND NOT (mask j)))"
      unfolding window_grow.simps Let_def nb f p1 [symmetric] using le True by (simp only: if_True not_not if_not_P split: if_split) simp
    show ?thesis
    proof (cases "block_fits (Suc j) p lo asz")
      case fit: True
      with step have "window_grow (Suc n) lo asz p (2 ^ j) (p AND NOT (mask j)) = window_grow n lo asz p (2 ^ Suc j) (p AND NOT (mask (Suc j)))"
        by (simp only: if_True)
      with Suc.prems(5) have "window_grow n lo asz p (2 ^ Suc j) (p AND NOT (mask (Suc j))) = (sz, b)" by (simp only:)
      with Suc.IH [of "Suc j"] Suc.prems(2,4) fit True obtain m where "Suc j \<le> m" "m < 32" "sz = 2 ^ m" "b = p AND NOT (mask m)" "block_fits m p lo asz"
        "\<forall>k. m < k \<and> k < 32 \<longrightarrow> \<not> block_fits k p lo asz" by auto
      then show ?thesis by (intro exI [of _ m]) auto
    next
      case no: False
      with step have "window_grow (Suc n) lo asz p (2 ^ j) (p AND NOT (mask j)) = (2 ^ j, p AND NOT (mask j))"
        by (simp only: if_False)
      moreover have "\<not> block_fits k p lo asz" if "j < k" for k
        using no block_fits_mono [of k p lo asz "Suc j"] that by auto
      ultimately show ?thesis using Suc.prems(1,3,5) by (intro exI [of _ j]) auto
    qed
  qed
qed simp

definition win_cfg :: "kconfig \<Rightarrow> nat \<Rightarrow> bool" where
  "win_cfg cf k \<longleftrightarrow> k < 32 \<and> mpu_win_min cf = 2 ^ k \<and> (\<forall>M. mpu_win_max cf = Some M \<longrightarrow> M \<noteq> 0 \<and> 2 ^ k dvd unat M)"

lemma block_bounds: "unat p div 2 ^ j * 2 ^ j \<le> unat p" "unat p < unat p div 2 ^ j * 2 ^ j + 2 ^ j"
proof -
  show "unat p div 2 ^ j * 2 ^ j \<le> unat p" by simp
  have "unat p mod 2 ^ j < 2 ^ j" by simp
  then show "unat p < unat p div 2 ^ j * 2 ^ j + 2 ^ j" using div_mult_mod_eq [of "unat p" "2 ^ j"] by linarith
qed

lemma window_pow2:
  assumes cf: "mpu_win_pow2 cf" "win_cfg cf k" and nw: "unat (ar_base a) + unat (ar_size a) < 2 ^ 32"
    and w: "ulmk_area_window cf a p = Some w"
  shows "\<exists>m. k \<le> m \<and> m < 32 \<and> r_size w = 2 ^ m \<and> 2 ^ m dvd unat (r_base w) \<and> inside w a \<and> covers_addr w p \<and>
    (\<forall>j. m < j \<and> j < 32 \<longrightarrow> \<not> block_fits j p (ar_base a) (ar_size a))"
    "r_perms w = ar_perms a" "r_type w = ar_type a"
proof -
  have k: "k < 32" "mpu_win_min cf = 2 ^ k" using cf(2) by (simp_all add: win_cfg_def)
  obtain sz b where g: "window_grow 32 (ar_base a) (ar_size a) p (2 ^ k) (p AND NOT (mask k)) = (sz, b)" by fastforce
  have res: "block_fits k p (ar_base a) (ar_size a)" "w = \<lparr>r_base = b, r_size = sz, r_perms = ar_perms a, r_type = ar_type a\<rparr>"
    using w cf(1) g fits_words [OF k(1) nw, of p] by (auto simp: ulmk_area_window_def k(2) Let_def pow2_minus_1_mask split: if_splits)
  obtain m where m: "k \<le> m" "m < 32" "sz = 2 ^ m" "b = p AND NOT (mask m)" "block_fits m p (ar_base a) (ar_size a)"
    "\<forall>j. m < j \<and> j < 32 \<longrightarrow> \<not> block_fits j p (ar_base a) (ar_size a)"
    using window_grow_ok [OF k(1) nw res(1) _ g] by auto
  have "inside w a" using m(5) unat_pow2 [OF m(2)] by (simp add: inside_def res(2) m(3,4) unat_and_not_mask block_fits_def)
  moreover have "covers_addr w p" using block_bounds [of p m] unat_pow2 [OF m(2)] by (simp add: covers_addr_def res(2) m(3,4) unat_and_not_mask)
  moreover have "2 ^ m dvd unat (r_base w)" by (simp add: res(2) m(4) unat_and_not_mask)
  ultimately show "\<exists>m. k \<le> m \<and> m < 32 \<and> r_size w = 2 ^ m \<and> 2 ^ m dvd unat (r_base w) \<and> inside w a \<and> covers_addr w p \<and>
    (\<forall>j. m < j \<and> j < 32 \<longrightarrow> \<not> block_fits j p (ar_base a) (ar_size a))"
    using m(1-3,6) by (intro exI [of _ m]) (simp add: res(2))
  show "r_perms w = ar_perms a" "r_type w = ar_type a" by (simp_all add: res(2))
qed

lemma window_range:
  assumes cf: "\<not> mpu_win_pow2 cf" "win_cfg cf k" and nw: "unat (ar_base a) + unat (ar_size a) < 2 ^ 32"
    and w: "ulmk_area_window cf a p = Some w"
  shows "2 ^ k dvd unat (r_base w)" "2 ^ k dvd unat (r_size w)" "inside w a" "covers_addr w p"
    "r_perms w = ar_perms a" "r_type w = ar_type a"
proof -
  let ?lo = "ar_base a"
  have k: "k < 32" "mpu_win_min cf = 2 ^ k" using cf(2) by (simp_all add: win_cfg_def)
  define b where "b = (?lo + 2 ^ k - 1) AND NOT (mask k)"
  define nb where "nb = (?lo + ar_size a) AND NOT (mask k)"
  define b2 where "b2 = p AND NOT (mask k)"
  have pin: "unat ?lo \<le> unat p" "\<not> p < b" "p < nb"
    using w cf(1) by (auto simp: ulmk_area_window_def k(2) Let_def pow2_minus_1_mask b_def nb_def word_le_nat_alt not_less word_less_nat_alt split: if_splits)
  have uk: "unat (2 ^ k :: u32) = 2 ^ k" by (rule unat_pow2 [OF k(1)])
  have unb: "unat nb = (unat ?lo + unat (ar_size a)) div 2 ^ k * 2 ^ k" using nw by (simp add: nb_def unat_and_not_mask unat_plus_if_size word_size)
  have nbr: "unat nb \<le> unat ?lo + unat (ar_size a)" unfolding unb by simp
  have fit: "unat ?lo + 2 ^ k - 1 < 2 ^ 32"
  proof (rule ccontr)
    assume "\<not> unat ?lo + 2 ^ k - 1 < 2 ^ 32"
    then have big: "2 ^ 32 \<le> unat ?lo + (2 ^ k - 1)" by simp
    have "unat nb + 2 ^ k \<le> 2 ^ 32"
    proof -
      have "unat nb < 2 ^ 32" "2 ^ k dvd unat nb" using nbr nw by (linarith, simp add: unb)
      moreover have "(2::nat) ^ k dvd 2 ^ 32" using k(1) by (intro le_imp_power_dvd) simp
      ultimately show ?thesis by (metis dvd_diff_nat dvd_imp_le le_add_diff_inverse less_imp_le_nat nat_add_left_cancel_le zero_less_diff)
    qed
    moreover have "unat p < unat nb" using pin(3) by (simp add: word_less_nat_alt)
    moreover have "(1::nat) \<le> 2 ^ k" by simp
    ultimately show False using big pin(1) by linarith
  qed
  have u1: "unat (?lo + 2 ^ k - 1) = unat ?lo + 2 ^ k - 1"
  proof -
    have 1: "?lo + 2 ^ k - 1 = ?lo + mask k" by (simp add: mask_eq_exp_minus_1)
    have 2: "unat (mask k :: u32) = 2 ^ k - 1" using k(1) by (intro unat_mask) simp
    have "(1::nat) \<le> 2 ^ k" by simp
    then show ?thesis unfolding 1 using fit 2 by (simp add: unat_plus_if_size word_size)
  qed
  have ub: "unat b = (unat ?lo + 2 ^ k - 1) div 2 ^ k * 2 ^ k" by (simp only: b_def unat_and_not_mask u1)
  have lob: "unat ?lo \<le> unat b" unfolding ub by (rule round_up_bounds) simp
  have ub2: "unat b2 = unat p div 2 ^ k * 2 ^ k" by (simp add: b2_def unat_and_not_mask)
  have bp: "unat b \<le> unat p" "unat p < unat nb" using pin by (auto simp: word_less_nat_alt)
  have dv: "2 ^ k dvd unat b" "2 ^ k dvd unat b2" "2 ^ k dvd unat nb" by (simp_all add: ub ub2 unb)
  have bb2: "unat b \<le> unat b2"
  proof -
    obtain q where q: "unat b = 2 ^ k * q" using dv(1) by auto
    then have "q \<le> unat p div 2 ^ k" using bp(1) by (simp add: less_eq_div_iff_mult_less_eq mult.commute)
    then show ?thesis unfolding ub2 q by (simp add: mult.commute)
  qed
  have b2p: "unat b2 \<le> unat p" "unat p < unat b2 + 2 ^ k" using block_bounds [of p k] by (simp_all add: ub2)
  have good: "2 ^ k dvd unat c \<and> 2 ^ k dvd unat z \<and> inside w a \<and> covers_addr w p \<and> r_perms w = ar_perms a \<and> r_type w = ar_type a \<and> r_base w = c \<and> r_size w = z"
    if "w = \<lparr>r_base = c, r_size = d - c, r_perms = ar_perms a, r_type = ar_type a\<rparr>" "z = d - c" "2 ^ k dvd unat c" "2 ^ k dvd unat d"
      "unat b \<le> unat c" "unat c \<le> unat p" "unat p < unat d" "unat d \<le> unat nb" for c d z
  proof -
    have z: "unat (d - c) = unat d - unat c" using that(6,7) by (simp add: unat_sub word_le_nat_alt)
    show ?thesis using that z lob nbr by (auto simp: inside_def covers_addr_def dvd_diff_nat)
  qed
  have sub: "unat (nb - b2) = unat nb - unat b2" using b2p(1) bp(2) by (simp add: unat_sub word_le_nat_alt)
  have "2 ^ k dvd unat (r_base w) \<and> 2 ^ k dvd unat (r_size w) \<and> inside w a \<and> covers_addr w p \<and> r_perms w = ar_perms a \<and> r_type w = ar_type a"
  proof (cases "\<exists>M. mpu_win_max cf = Some M \<and> nb - b > M \<and> nb - b2 > M")
    case True
    then obtain M where M: "mpu_win_max cf = Some M" "nb - b > M" "nb - b2 > M" by blast
    have Mk: "2 ^ k dvd unat M" "M \<noteq> 0" using cf(2) M(1) by (simp_all add: win_cfg_def)
    have "2 ^ k \<le> unat M" using Mk by (metis dvd_imp_le unat_gt_0)
    have "unat b2 + unat M < 2 ^ 32"
      using M(3) sub unsigned_less [of nb, where ?'a = nat] by (simp add: word_less_nat_alt)
    then have "unat (b2 + M) = unat b2 + unat M" by (simp add: unat_plus_if_size word_size)
    moreover have "w = \<lparr>r_base = b2, r_size = (b2 + M) - b2, r_perms = ar_perms a, r_type = ar_type a\<rparr>"
      using w cf(1) M by (auto simp: ulmk_area_window_def k(2) Let_def pow2_minus_1_mask b_def nb_def b2_def split: if_splits)
    ultimately show ?thesis
      using good [of b2 "b2 + M"] Mk dv bb2 b2p \<open>2 ^ k \<le> unat M\<close> M(3) sub by (auto simp: word_less_nat_alt)
  next
    case False
    then have "w = \<lparr>r_base = b, r_size = nb - b, r_perms = ar_perms a, r_type = ar_type a\<rparr> \<or> w = \<lparr>r_base = b2, r_size = nb - b2, r_perms = ar_perms a, r_type = ar_type a\<rparr>"
      using w cf(1) by (auto simp: ulmk_area_window_def k(2) Let_def pow2_minus_1_mask b_def nb_def b2_def split: if_splits option.splits)
    then show ?thesis
    proof
      assume "w = \<lparr>r_base = b, r_size = nb - b, r_perms = ar_perms a, r_type = ar_type a\<rparr>"
      from good [OF this refl dv(1,3) order_refl bp order_refl] show ?thesis by metis
    next
      assume "w = \<lparr>r_base = b2, r_size = nb - b2, r_perms = ar_perms a, r_type = ar_type a\<rparr>"
      from good [OF this refl dv(2,3) bb2 b2p(1) bp(2) order_refl] show ?thesis by metis
    qed
  qed
  then show "2 ^ k dvd unat (r_base w)" "2 ^ k dvd unat (r_size w)" "inside w a" "covers_addr w p"
    "r_perms w = ar_perms a" "r_type w = ar_type a" by blast+
qed

section \<open>A state with an area\<close>

text \<open>After boot, thread \<open>0x1000\<close> running on a 64 KiB heap; then with a shared range mapped.\<close>

definition mem_boot :: kstate where
  "mem_boot = (kzero up_cfg)\<lparr>heap := ulmk_heap_init 0x20000000 0x10000 (heap (kzero up_cfg)),
     percpu := (\<lambda>_. percpu_zero\<lparr>current := 4096\<rparr>)\<rparr>"

definition mem_shared :: kstate where
  "mem_shared = snd (ulmk_kern_mem_map 0x40000000 4096 3 ULMK_MMAP_SHARED mem_boot)"

abbreviation pool_lo :: addr where "pool_lo \<equiv> pool_start 0x20000000"
abbreviation pool_hi :: addr where "pool_hi \<equiv> 0x20000000 + 0x10000 - 64"

lemma mem_boot_simps:
  "cfg mem_boot = up_cfg" "ulmk_sched_current mem_boot = 4096" "set_list mem_boot th = []" "area_retired (ulmk_percpu mem_boot) = []"
  "heap mem_boot = ulmk_heap_init 0x20000000 0x10000 (heap (kzero up_cfg))" "trace mem_boot = []" "hang mem_boot = False"
  by (simp_all add: mem_boot_def ulmk_sched_current_def ulmk_percpu_def percpu_zero_def thread_zero_def)

lemma boot_heap: "heap_ok (heap mem_boot) pool_lo pool_hi Map.empty" "unat pool_lo + 128 \<le> unat pool_hi"
proof -
  have "(0x20000000 :: addr) \<noteq> 0" "unat (0x20000000 :: addr) + unat (0x10000 :: u32) < 2 ^ 32" "255 \<le> unat (0x10000 :: u32)" "unat (0x10000 :: u32) < 2 ^ 29"
    by simp_all
  from heap_init_ok [OF this] show "heap_ok (heap mem_boot) pool_lo pool_hi Map.empty" "unat pool_lo + 128 \<le> unat pool_hi"
    unfolding mem_boot_simps(5) by blast+
qed

lemma mem_inv_none:
  assumes "heap_ok (heap s) x e U" "\<And>th. set_list s th = []" "area_retired (ulmk_percpu s) = []"
  shows "mem_inv x e (dom U) s"
proof -
  have "mem_ok x e (dom U) (\<lambda>_. 0) {} s"
    by (rule mem_okI [of s "ars s" "\<lambda>th. set_list s th" "heap s" "[]" "hang s"])
      (use assms in \<open>auto simp: av_def area_inv_def forest_def holding_def derives_def spaced_def owns_def backing_def fun_eq_iff\<close>)
  then show ?thesis using assms(3) by (auto simp: mem_inv_def anchored_def)
qed

lemma mem_boot_inv: "mem_inv pool_lo pool_hi {} mem_boot"
  using mem_inv_none [OF boot_heap(1)] mem_boot_simps by simp

lemma boot_alloc: "fst (ulmk_heap_alloc (sizeof_area up_cfg) (heap mem_boot)) \<noteq> NULL"
proof -
  have lt: "unat pool_lo < unat pool_hi" using boot_heap(2) by linarith
  note f = heap_all_free [OF boot_heap(1) lt]
  have r: "unat (heap_round (sizeof_area up_cfg)) = 64" by (simp add: heap_round_def up_cfg_def)
  have "pool_lo = 0x20000000" by (simp add: pool_start_def)
  then have "unat (bsize (blkmem (heap mem_boot) pool_lo)) = 65408" using f(2) by simp
  then show ?thesis by (intro heap_alloc_complete [OF boot_heap(1) _ _ f(1), of _ pool_lo]) (simp_all add: r, simp_all add: up_cfg_def)
qed

lemma mem_shared_inv: "mem_inv pool_lo pool_hi {} mem_shared"
proof -
  obtain rc s where r: "ulmk_kern_mem_map 0x40000000 4096 3 ULMK_MMAP_SHARED mem_boot = (rc, s)" by fastforce
  from mem_map_ok(1) [OF mem_boot_inv r refl] show ?thesis by (simp add: mem_shared_def r mem_boot_simps(1)) (simp add: up_cfg_def)
qed

lemma mem_shared_area:
  obtains a where "set_list mem_shared 4096 = [a]" "ar_base (ars mem_shared a) = 0x40000000" "ar_size (ars mem_shared a) = 4096"
    "ar_perms (ars mem_shared a) = 3" "ar_parent (ars mem_shared a) = NULL" "ulmk_sched_current mem_shared = 4096" "cfg mem_shared = up_cfg"
    "trace mem_shared = []" "privilege (tcb mem_shared 4096) = ULMK_PRIV_USER"
proof -
  obtain p h where h: "ulmk_heap_alloc (sizeof_area up_cfg) (heap mem_boot) = (p, h)" by fastforce
  have p: "p \<noteq> NULL" using boot_alloc h by simp
  have sz: "sizeof_area up_cfg \<noteq> 0" by (simp add: up_cfg_def)
  define s1 where "s1 = unlock LMem ((lock LMem (lock LArea mem_boot))\<lparr>heap := h\<rparr>)"
  have al: "k_heap_alloc (sizeof_area up_cfg) (lock LArea mem_boot) = (p, s1)" using sz by (simp add: k_heap_alloc_def h s1_def)
  have pr: "privilege (tcb mem_boot 4096) = ULMK_PRIV_USER" by (simp add: mem_boot_def thread_zero_def)
  have f: "ulmk_sched_current s1 = 4096" "tcb s1 = tcb mem_boot" "ars s1 = ars mem_boot" "trace s1 = trace mem_boot" "cfg s1 = up_cfg" "percpu s1 = percpu mem_boot" "cpu_id s1 = cpu_id mem_boot"
    using mem_boot_simps(2) by (auto simp: s1_def mem_boot_simps(1) ulmk_sched_current_def ulmk_percpu_def percpu_ix_def)
  define s2 where "s2 = upd_set 4096 (\<lambda>x. \<lparr>as_list = [p], as_count = as_count x + 1\<rparr>) (upd_area p (\<lambda>_. \<lparr>ar_parent = NULL, ar_children = [], ar_set = 4096,
    ar_base = 0x40000000, ar_size = 4096, ar_perms = 3, ar_type = ULMK_REGION_SHARED, ar_flags = 0\<rparr>) s1)"
  have eq: "mem_shared = unlock LArea s2"
    using p by (simp add: mem_shared_def ulmk_kern_mem_map_def Let_def ulmk_area_insert_def mem_boot_simps(1-3) al s2_def)
  have "ulmk_sched_current (unlock LArea s2) = 4096"
    unfolding s2_def upd_set_def upd_area_def using f(1) by (auto simp: ulmk_sched_current_def ulmk_percpu_def percpu_ix_def)
  then show thesis
    by (intro that [of p]) (simp_all add: eq s2_def upd_set_def upd_area_def f mem_boot_simps(6) pr)
qed

section \<open>The properties\<close>

text \<open>C2. The invariant of memory areas holds across every memory system call, thread death and inheritance: the derivation
  forest, the holders' sorted and disjoint lists, derived areas within their origin, and the exact account of heap blocks,
  with \<open>V\<close> the blocks of the rest of the kernel untouched. So no record or block is freed twice or leaked. The
  hypothesis on the size keeps \<^verbatim>\<open>ulmk_heap_aligned_alloc\<close> from overflowing.\<close>

theorem mem_calls_keep_invariant:
  assumes "mem_inv x e V s" "child \<noteq> NULL"
    and "64 < region_align (cfg s) \<longrightarrow> unat (map_len (cfg s) z) + unat (region_align (cfg s)) + 128 \<le> 2 ^ 32"
  shows "mem_inv x e V (snd (ulmk_kern_mem_map hint z perms fl s)) \<and>
    mem_inv x e V (snd (ulmk_kern_mem_unmap p sz s)) \<and>
    mem_inv x e V (snd (ulmk_kern_mem_grant p sz td perms s)) \<and>
    mem_inv x e V (snd (ulmk_kern_mem_revoke p td s)) \<and>
    mem_inv x e V (ulmk_mem_thread_release th s) \<and>
    mem_inv x e V (snd (ulmk_mem_thread_inherit child th s))"
proof (intro conjI)
  show "mem_inv x e V (snd (ulmk_kern_mem_map hint z perms fl s))" by (rule mem_map_ok(1) [OF assms(1) surjective_pairing refl assms(3)])
  show "mem_inv x e V (snd (ulmk_kern_mem_unmap p sz s))" by (rule mem_unmap_ok(1) [OF assms(1) surjective_pairing refl])
  show "mem_inv x e V (snd (ulmk_kern_mem_grant p sz td perms s))" by (rule mem_grant_ok(1) [OF assms(1) surjective_pairing refl refl])
  show "mem_inv x e V (snd (ulmk_kern_mem_revoke p td s))" by (rule mem_revoke_ok(1) [OF assms(1) surjective_pairing refl refl])
  show "mem_inv x e V (ulmk_mem_thread_release th s)" by (rule mem_release_ok(1) [OF assms(1)])
  show "mem_inv x e V (snd (ulmk_mem_thread_inherit child th s))" by (rule mem_inherit_ok(1) [OF assms(1,2)])
qed

theorem mem_calls_keep_invariant_witness:
  "mem_inv pool_lo pool_hi {} (snd (ulmk_kern_mem_unmap 0x40000000 4096 mem_shared))"
proof -
  obtain a where "cfg mem_shared = up_cfg" by (rule mem_shared_area)
  then show ?thesis
    using mem_calls_keep_invariant [OF mem_shared_inv, of 8192 4096] by (simp add: up_cfg_def)
qed

text \<open>C6. Unmapping succeeds exactly on the base of an area the caller holds, and then takes away that area and everything derived from it,
  from every thread, and nothing else; the loop over the subtree always ends.\<close>

theorem unmap_takes_subtree:
  assumes "mem_inv x e V s" "ulmk_sched_current s = cur" "cur \<noteq> NULL" "p \<noteq> 0" "a \<in> set (set_list s cur)" "ar_base (ars s a) = p"
  shows "fst (ulmk_kern_mem_unmap p sz s) = ret_u32 ULMK_OK \<and>
    only_lost s (snd (ulmk_kern_mem_unmap p sz s)) (\<lambda>b. derived (ars s) b a)"
proof -
  note u = mem_unmap_ok [OF assms(1) surjective_pairing assms(2) [symmetric], of p sz]
  have "a' = a" if "a' \<in> set (set_list s cur)" "ar_base (ars s a') = p" for a'
    using find_base_ok(2) [OF assms(1) that(1)] find_base_ok(2) [OF assms(1,5)] that(2) assms(6) by simp
  then have "(cur \<noteq> NULL \<and> p \<noteq> 0 \<and> (\<exists>a\<in>set (set_list s cur). ar_base (ars s a) = p \<and> derived (ars s) b a)) \<longleftrightarrow> derived (ars s) b a" for b
    using assms(3-6) by blast
  with u(2) have "only_lost s (snd (ulmk_kern_mem_unmap p sz s)) (\<lambda>b. derived (ars s) b a)" by simp
  moreover have "fst (ulmk_kern_mem_unmap p sz s) = ret_u32 ULMK_OK" unfolding u(3) using assms(3-6) by (subst if_P) blast+
  ultimately show ?thesis by blast
qed

theorem unmap_takes_subtree_witness:
  "fst (ulmk_kern_mem_unmap 0x40000000 0 mem_shared) = ret_u32 ULMK_OK"
proof -
  obtain a where a: "set_list mem_shared 4096 = [a]" "ar_base (ars mem_shared a) = 0x40000000" "ulmk_sched_current mem_shared = 4096"
    by (rule mem_shared_area)
  from unmap_takes_subtree [OF mem_shared_inv a(3) _ _ _ a(2), of 0] a(1) show ?thesis by simp
qed

definition may_revoke :: "kstate \<Rightarrow> addr \<Rightarrow> addr \<Rightarrow> addr \<Rightarrow> addr \<Rightarrow> bool" where
  "may_revoke s cur tgt p t \<longleftrightarrow> cur \<noteq> NULL \<and> p \<noteq> 0 \<and> tgt \<noteq> NULL \<and> t \<in> set (set_list s tgt) \<and> ar_base (ars s t) = p \<and>
     ar_parent (ars s t) \<noteq> NULL \<and> (\<exists>a\<in>set (set_list s cur). ar_base (ars s a) = p \<and> derived (ars s) (ar_parent (ars s t)) a)"

text \<open>C7. Revoking takes from the target the area at the given base exactly when it was derived, in one or more steps, from
  the area the caller holds there; then all that was derived from the target's area goes with it, and nothing else.\<close>

theorem revoke_takes_derived_only:
  assumes "mem_inv x e V s" "ulmk_sched_current s = cur" "ulmk_thread_by_tid td s = tgt"
  shows "(fst (ulmk_kern_mem_revoke p td s) = ret_u32 ULMK_OK \<longleftrightarrow> (\<exists>t. may_revoke s cur tgt p t)) \<and>
    only_lost s (snd (ulmk_kern_mem_revoke p td s)) (\<lambda>b. \<exists>t. may_revoke s cur tgt p t \<and> derived (ars s) b t)"
  unfolding may_revoke_def
  using mem_revoke_ok(2,3) [OF assms(1) surjective_pairing assms(2,3) [symmetric], of p] by blast

theorem revoke_takes_derived_only_witness:
  "fst (ulmk_kern_mem_revoke 0x40000000 4096 mem_shared) \<noteq> ret_u32 ULMK_OK"
proof -
  obtain a where a: "set_list mem_shared 4096 = [a]" "ar_parent (ars mem_shared a) = NULL" "ulmk_sched_current mem_shared = 4096" by (rule mem_shared_area)
  have "ar_parent (ars mem_shared t) = NULL" if "t \<in> set (set_list mem_shared (ulmk_thread_by_tid 4096 mem_shared))" "ulmk_thread_by_tid 4096 mem_shared \<noteq> NULL" for t
  proof -
    have "ulmk_thread_by_tid 4096 mem_shared \<in> {NULL, 4096}" by (simp add: ulmk_thread_by_tid_def Let_def)
    with that a(1,2) show ?thesis by auto
  qed
  then show ?thesis using revoke_takes_derived_only [OF mem_shared_inv a(3) refl, of "0x40000000" 4096] unfolding may_revoke_def by blast
qed



text \<open>C4. The protection fault handler opens only what the running thread holds: whenever it loads a window, the faulting
  address is in an area of the running thread whose rights include the access, and the window covers the address, lies
  inside that area, has its rights, and is encodable: a naturally aligned power of two no smaller than the granule, or a
  whole number of granules.\<close>

theorem fault_loads_inside:
  assumes "mem_inv x e V s" "win_cfg (cfg s) k" "ulmk_kern_mem_fault p access s = (ok, s')" "ulmk_sched_current s = cur"
  shows "trace s' = trace s \<and> \<not> ok \<or>
    (\<exists>w a. trace s' = EvMpuLoad w # trace s \<and> a \<in> set (set_list s cur) \<and> privilege (tcb s cur) \<noteq> ULMK_PRIV_KERNEL \<and>
      contains (ars s a) p \<and> ar_perms (ars s a) AND access = access \<and> inside w (ars s a) \<and> covers_addr w p \<and> r_perms w = ar_perms (ars s a) \<and>
      (if mpu_win_pow2 (cfg s) then \<exists>m\<ge>k. m < 32 \<and> r_size w = 2 ^ m \<and> 2 ^ m dvd unat (r_base w)
       else 2 ^ k dvd unat (r_base w) \<and> 2 ^ k dvd unat (r_size w)))"
proof -
  obtain r L where ok: "mem_ok x e V r L s" using assms(1) by (auto simp: mem_inv_def)
  note I = area_invD [OF mem_okD(1) [OF ok]]
  define a where "a = ulmk_area_find cur p (lock LArea s)"
  have a: "a \<in> set (set_list s cur) \<and> contains (ars s a) p" if "a \<noteq> NULL"
    using find_list [of "lock LArea s" p "set_list s cur" a] that contains_word by (simp add: a_def ulmk_area_find_def)
  have eq: "(ok, s') = (if cur = NULL \<or> privilege (tcb s cur) = ULMK_PRIV_KERNEL then (False, s)
     else if a \<noteq> NULL \<and> ar_perms (ars s a) AND access = access
     then (case ulmk_area_window (cfg s) (ars s a) p of Some win \<Rightarrow> (arch_mpu_load (cfg s) win, unlock LArea (emit (EvMpuLoad win) (lock LArea s)))
           | None \<Rightarrow> (False, unlock LArea (lock LArea s)))
     else (False, unlock LArea (lock LArea s)))"
    unfolding assms(3) [symmetric] ulmk_kern_mem_fault_def Let_def assms(4) a_def [symmetric] lock_frame by (simp split: option.split)
  show ?thesis
  proof (cases "\<exists>w. cur \<noteq> NULL \<and> privilege (tcb s cur) \<noteq> ULMK_PRIV_KERNEL \<and> a \<noteq> NULL \<and> ar_perms (ars s a) AND access = access \<and>
      ulmk_area_window (cfg s) (ars s a) p = Some w")
    case True
    then obtain w where w: "cur \<noteq> NULL" "privilege (tcb s cur) \<noteq> ULMK_PRIV_KERNEL" "a \<noteq> NULL" "ar_perms (ars s a) AND access = access"
      "ulmk_area_window (cfg s) (ars s a) p = Some w" by blast
    have nw: "unat (ar_base (ars s a)) + unat (ar_size (ars s a)) < 2 ^ 32" using I(7) [of cur] a [OF w(3)] by (auto simp: spaced_def)
    have tr: "trace s' = EvMpuLoad w # trace s" using eq w by simp
    show ?thesis
    proof (cases "mpu_win_pow2 (cfg s)")
      case True
      from window_pow2 [OF True assms(2) nw w(5)] show ?thesis using a [OF w(3)] tr True w(2,4) by (intro disjI2 exI [of _ w] exI [of _ a]) auto
    next
      case False
      from window_range [OF False assms(2) nw w(5)] show ?thesis using a [OF w(3)] tr False w(2,4) by (intro disjI2 exI [of _ w] exI [of _ a]) auto
    qed
  qed (use eq in \<open>auto split: if_splits option.splits\<close>)
qed

lemma win_up_cfg: "win_cfg up_cfg 6"
  by (simp add: win_cfg_def up_cfg_def)

theorem fault_loads_inside_witness:
  "\<exists>w. trace (snd (ulmk_kern_mem_fault 0x40000123 1 mem_shared)) = [EvMpuLoad w] \<and> covers_addr w 0x40000123"
proof -
  obtain a where a: "set_list mem_shared 4096 = [a]" "ar_base (ars mem_shared a) = 0x40000000" "ar_size (ars mem_shared a) = 4096"
    "ar_perms (ars mem_shared a) = 3" "ulmk_sched_current mem_shared = 4096" "cfg mem_shared = up_cfg" "trace mem_shared = []" "privilege (tcb mem_shared 4096) = ULMK_PRIV_USER" by (rule mem_shared_area)
  have "privilege (tcb mem_shared 4096) \<noteq> ULMK_PRIV_KERNEL \<and> a \<noteq> NULL"
    using find_base_ok(3) [OF mem_shared_inv, of a 4096] a(1,8) by simp
  moreover have "ulmk_area_window up_cfg (ars mem_shared a) 0x40000123 \<noteq> None"
    using a(2,3) by (simp add: ulmk_area_window_def up_cfg_def Let_def split: prod.split)
  then obtain w where "ulmk_area_window up_cfg (ars mem_shared a) 0x40000123 = Some w" by blast
  moreover have "arch_mpu_load up_cfg w" by (simp add: up_cfg_def)
  ultimately have "fst (ulmk_kern_mem_fault 0x40000123 1 mem_shared)"
    using a by (simp add: ulmk_kern_mem_fault_def ulmk_area_find_def Let_def)
  with fault_loads_inside [OF mem_shared_inv _ surjective_pairing a(5), of 6 "0x40000123" 1] a(6,7) win_up_cfg show ?thesis by auto
qed

text \<open>C24. On ports with power-of-two windows the window is the largest one: no larger aligned power-of-two block around the address fits the
  area. It is refused only when the address is outside or its smallest block sticks out.\<close>

theorem window_largest:
  assumes "mpu_win_pow2 cf" "win_cfg cf k" "unat (ar_base a) + unat (ar_size a) < 2 ^ 32"
  shows "case ulmk_area_window cf a p of
      Some w \<Rightarrow> \<exists>m. r_size w = 2 ^ m \<and> unat (r_base w) = unat p div 2 ^ m * 2 ^ m \<and> block_fits m p (ar_base a) (ar_size a) \<and>
        (\<forall>j. m < j \<and> j < 32 \<longrightarrow> \<not> block_fits j p (ar_base a) (ar_size a))
    | None \<Rightarrow> \<not> contains a p \<or> \<not> block_fits k p (ar_base a) (ar_size a)"
proof (cases "ulmk_area_window cf a p")
  case None
  have k: "k < 32" "mpu_win_min cf = 2 ^ k" using assms(2) by (simp_all add: win_cfg_def)
  have "contains a p \<longleftrightarrow> \<not> (p < ar_base a \<or> p - ar_base a \<ge> ar_size a)" using contains_word [of a p] by (simp add: not_le not_less)
  with None fits_words [OF k(1) assms(3), of p] assms(1) show ?thesis
    by (auto simp: ulmk_area_window_def k(2) Let_def pow2_minus_1_mask split: if_splits prod.splits)
next
  case (Some w)
  from window_pow2(1) [OF assms Some] obtain m where m: "m < 32" "r_size w = 2 ^ m" "2 ^ m dvd unat (r_base w)" "inside w a" "covers_addr w p"
    "\<forall>j. m < j \<and> j < 32 \<longrightarrow> \<not> block_fits j p (ar_base a) (ar_size a)" by blast
  obtain q where q: "unat (r_base w) = 2 ^ m * q" using m(3) by auto
  have "q = unat p div 2 ^ m"
    using m(5) unat_pow2 [OF m(1)] by (intro div_nat_eqI [symmetric]) (auto simp: covers_addr_def m(2) q mult.commute)
  then have b: "unat (r_base w) = unat p div 2 ^ m * 2 ^ m" by (simp add: q mult.commute)
  then have "block_fits m p (ar_base a) (ar_size a)" using m(4) unat_pow2 [OF m(1)] by (simp add: inside_def block_fits_def m(2))
  with Some m(2,6) b show ?thesis by auto
qed

theorem window_largest_witness:
  "case ulmk_area_window up_cfg \<lparr>ar_parent = NULL, ar_children = [], ar_set = NULL, ar_base = 0x40000040, ar_size = 0x1000, ar_perms = 3, ar_type = 0, ar_flags = 0\<rparr> 0x40000123 of
      Some w \<Rightarrow> \<exists>m. r_size w = 2 ^ m \<and> unat (r_base w) = unat (0x40000123 :: addr) div 2 ^ m * 2 ^ m
    | None \<Rightarrow> False"
proof -
  let ?a = "\<lparr>ar_parent = NULL, ar_children = [], ar_set = NULL, ar_base = 0x40000040, ar_size = 0x1000, ar_perms = 3, ar_type = 0, ar_flags = 0\<rparr>"
  have "mpu_win_pow2 up_cfg" "unat (ar_base ?a) + unat (ar_size ?a) < 2 ^ 32" by (simp_all add: up_cfg_def)
  note w = window_largest [OF this(1) win_up_cfg this(2), of "0x40000123"]
  show ?thesis using w by (auto simp: contains_def block_fits_def split: option.splits)
qed

text \<open>C21. A grant succeeds only on the base of an area the caller holds, and gives the target one area more: the same range, no rights
  the caller's area lacks, derived from it and so revocable. A grant that fails changes nothing.\<close>

theorem grant_gives_no_more:
  assumes "mem_inv x e V s" "ulmk_sched_current s = cur" "ulmk_thread_by_tid td s = tgt" "ulmk_kern_mem_grant p sz td perms s = (rc, s')"
  shows "if rc = ret_u32 ULMK_OK
    then \<exists>a\<in>set (set_list s cur). ar_base (ars s a) = p \<and>
      gained s s' tgt \<lparr>ar_parent = a, ar_children = [], ar_set = tgt, ar_base = p, ar_size = ar_size (ars s a),
        ar_perms = perms AND ar_perms (ars s a),
        ar_type = (if ar_type (ars s a) = ULMK_REGION_HEAP then ULMK_REGION_GRANT else ar_type (ars s a)), ar_flags = 0\<rparr>
    else ars s' = ars s \<and> (\<forall>th. set_list s' th = set_list s th) \<and> heap s' = heap s"
proof -
  note g = mem_grant_ok [OF assms(1,4) assms(2,3) [symmetric]]
  show ?thesis
  proof (cases "rc = ret_u32 ULMK_OK")
    case False
    from g(2) [OF False] have "ars s' = ars s" "\<forall>th. set_list s' th = set_list s th" "heap s' = heap s" by (auto simp: av_def fun_eq_iff)
    with False show ?thesis by simp
  qed (use g(3) in simp)
qed

lemma gained_other: "gained s s' th x \<Longrightarrow> t \<noteq> th \<Longrightarrow> set_list s' t = set_list s t"
  by (auto simp: gained_def)

theorem grant_gives_no_more_witness:
  "set_list (snd (ulmk_kern_mem_grant 0x40000000 4096 8192 7 mem_shared)) 4096 = set_list mem_shared 4096"
proof -
  obtain rc s' where r: "ulmk_kern_mem_grant 0x40000000 4096 8192 7 mem_shared = (rc, s')" by fastforce
  note g = grant_gives_no_more [OF mem_shared_inv refl refl r]
  have n: "4096 \<noteq> ulmk_thread_by_tid 8192 mem_shared" by (simp add: ulmk_thread_by_tid_def)
  have "set_list s' 4096 = set_list mem_shared 4096"
    using g gained_other [OF _ n] by (cases "rc = ret_u32 ULMK_OK") (simp_all only: if_True if_False simp_thms, blast)
  then show ?thesis by (simp add: r)
qed

text \<open>C25. The lookup of the fault handler and the range check are exact: the area found is the one area of the thread that contains the
  address, and a range is accepted exactly when it is empty or lies inside one area of the thread with the rights asked for.\<close>

theorem area_lookup_exact:
  assumes "mem_inv x e V s"
  shows "(ulmk_area_find th p s \<noteq> NULL \<longleftrightarrow> (\<exists>a\<in>set (set_list s th). contains (ars s a) p)) \<and>
    (\<forall>a\<in>set (set_list s th). contains (ars s a) p \<longrightarrow> ulmk_area_find th p s = a) \<and>
    (ulmk_area_range_ok th p len perms s \<longleftrightarrow> len = 0 \<or>
      (\<exists>a\<in>set (set_list s th). unat (ar_base (ars s a)) \<le> unat p \<and>
        unat p + unat len \<le> unat (ar_base (ars s a)) + unat (ar_size (ars s a)) \<and> ar_perms (ars s a) AND perms = perms))"
proof -
  obtain r L where ok: "mem_ok x e V r L s" using assms(1) by (auto simp: mem_inv_def)
  note I = area_invD [OF mem_okD(1) [OF ok]]
  let ?a = "ulmk_area_find th p s"
  have sound: "?a \<in> set (set_list s th) \<and> contains (ars s ?a) p" if "?a \<noteq> NULL"
    using find_list [of s p "set_list s th" ?a] that contains_word by (simp add: ulmk_area_find_def)
  have comp: "?a = a" if "a \<in> set (set_list s th)" "contains (ars s a) p" for a
    using find_complete [OF I(7) that] by (simp add: ulmk_area_find_def)
  have nn: "a \<noteq> NULL" if "a \<in> set (set_list s th)" for a using I(2,8) that by auto
  have rng: "len \<le> ar_size y - (p - ar_base y) \<longleftrightarrow> unat p + unat len \<le> unat (ar_base y) + unat (ar_size y)" if "contains y p" for y
  proof -
    have "ar_base y \<le> p" "p - ar_base y < ar_size y" using contains_word [of y p] that by auto
    then have "unat (ar_size y - (p - ar_base y)) = unat (ar_size y) - (unat p - unat (ar_base y))"
      by (subst unat_sub) (auto simp: unat_sub)
    with that show ?thesis by (auto simp: contains_def word_le_nat_alt)
  qed
  have cont: "contains y p" if "len \<noteq> 0" "unat (ar_base y) \<le> unat p" "unat p + unat len \<le> unat (ar_base y) + unat (ar_size y)" for y
    using that unat_gt_0 [of len] unfolding contains_def by linarith
  have "ulmk_area_range_ok th p len perms s \<longleftrightarrow> len = 0 \<or>
      (\<exists>a\<in>set (set_list s th). unat (ar_base (ars s a)) \<le> unat p \<and>
        unat p + unat len \<le> unat (ar_base (ars s a)) + unat (ar_size (ars s a)) \<and> ar_perms (ars s a) AND perms = perms)" (is "?l \<longleftrightarrow> _ \<or> ?r")
  proof (cases "len = 0")
    case False
    have "?l \<longleftrightarrow> ?a \<noteq> NULL \<and> ar_perms (ars s ?a) AND perms = perms \<and> len \<le> ar_size (ars s ?a) - (p - ar_base (ars s ?a))"
      using False by (auto simp: ulmk_area_range_ok_def Let_def)
    also have "\<dots> \<longleftrightarrow> ?r"
    proof
      assume h: "?a \<noteq> NULL \<and> ar_perms (ars s ?a) AND perms = perms \<and> len \<le> ar_size (ars s ?a) - (p - ar_base (ars s ?a))"
      then show ?r using sound rng [of "ars s ?a"] by (intro bexI [of _ ?a]) (auto simp: contains_def)
    next
      assume ?r
      then obtain a where a: "a \<in> set (set_list s th)" "unat (ar_base (ars s a)) \<le> unat p"
        "unat p + unat len \<le> unat (ar_base (ars s a)) + unat (ar_size (ars s a))" "ar_perms (ars s a) AND perms = perms" by blast
      note c = cont [OF False a(2,3)]
      with comp [OF a(1)] nn [OF a(1)] rng [OF c] a(3,4)
      show "?a \<noteq> NULL \<and> ar_perms (ars s ?a) AND perms = perms \<and> len \<le> ar_size (ars s ?a) - (p - ar_base (ars s ?a))" by simp
    qed
    finally show ?thesis using False by simp
  qed (simp add: ulmk_area_range_ok_def)
  moreover have "?a \<noteq> NULL \<longleftrightarrow> (\<exists>a\<in>set (set_list s th). contains (ars s a) p)" using sound comp nn by metis
  ultimately show ?thesis using comp by blast
qed

theorem area_lookup_exact_witness:
  "ulmk_area_find 4096 0x40000123 mem_shared \<noteq> NULL \<and> \<not> ulmk_area_range_ok 4096 0x40000FFF 2 1 mem_shared"
proof -
  obtain a where a: "set_list mem_shared 4096 = [a]" "ar_base (ars mem_shared a) = 0x40000000" "ar_size (ars mem_shared a) = 4096" by (rule mem_shared_area)
  show ?thesis
    using area_lookup_exact [OF mem_shared_inv, of 4096 "0x40000123" 0 0] area_lookup_exact [OF mem_shared_inv, of 4096 "0x40000FFF" 2 1] a
    by (auto simp: contains_def)
qed



text \<open>C23. The loops over the derivation forest end: the depth-first walk of a revocation, the release of orphaned ancestors, the release of a dead
  thread's areas, and the ancestry walk of \<^verbatim>\<open>mem_revoke\<close>. So no memory call makes the kernel spin.\<close>

theorem area_loops_terminate:
  assumes "mem_inv x e V s" "a \<in> set (set_list s th)"
  shows "\<exists>s1 s2 s3 d. revoke_loop a a s = Some s1 \<and> release_up a (set_unlink a s1) = Some s2 \<and>
    set_release_loop th s = Some s3 \<and> derived_from s (ar_parent (ars s a)) b = Some d"
proof -
  obtain r L where ok: "mem_ok x e V r L s" "anchored (ars s) L" using assms(1) by (auto simp: mem_inv_def)
  note I = area_invD [OF mem_okD(1) [OF ok(1)]]
  have a: "a \<in> L" using I(8) [OF assms(2)] by blast
  obtain s1 s2 where "revoke_loop a a s = Some s1" "release_up a (set_unlink a s1) = Some s2" using area_revoke_ok [OF ok a] by blast
  moreover obtain s3 where "set_release_loop th s = Some s3" using set_release_loop_ok [OF ok] by blast
  moreover have "ar_parent (ars s a) = NULL \<or> ar_parent (ars s a) \<in> L" using I(3) [OF a] by blast
  then obtain d where "derived_from s (ar_parent (ars s a)) b = Some d" using derived_from_ok [OF mem_okD(1) [OF ok(1)]] by blast
  ultimately show ?thesis by blast
qed

theorem area_loops_terminate_witness:
  "\<exists>s1. revoke_loop (hd (set_list mem_shared 4096)) (hd (set_list mem_shared 4096)) mem_shared = Some s1"
proof -
  obtain a where "set_list mem_shared 4096 = [a]" by (rule mem_shared_area)
  then show ?thesis using area_loops_terminate [OF mem_shared_inv, of a 4096] by auto
qed

end
