(* ===== verification/Ipc_Ep.thy ===== *)
theory Ipc_Ep
  imports Thread_Registry
begin

text \<open>
  Endpoints, \<^verbatim>\<open>kernel/ipc/ep.c\<close>: rendezvous between callers and servers with priority inheritance.
  The two lookups the endpoint and notification code share stand first. A message of the calling process
  is an entry of \<open>umsg\<close>; the core functions return the C \<^verbatim>\<open>int\<close>, and \<^verbatim>\<open>-ULMK_EINVAL\<close> is written as in the
  source (it is +1, since the error codes are negative).
\<close>

section \<open>Lookups\<close>

definition ulmk_ep_init :: "addr \<Rightarrow> addr \<Rightarrow> kstate \<Rightarrow> kstate" where
  "ulmk_ep_init ep i s =
     (let s = upd_ep ep (\<lambda>x. x\<lparr>ep_id := i, ep_active := True\<rparr>) s;
          s = upd_ipcq (q_init (SendQ ep)) s
      in upd_ipcq (q_init (RecvQ ep)) s)"

definition ulmk_ep_by_id :: "addr \<Rightarrow> kstate \<Rightarrow> addr" where
  "ulmk_ep_by_id i s = (if i = NULL \<or> \<not> ep_active (eps s i) then NULL else i)"

definition ulmk_notif_by_id :: "addr \<Rightarrow> kstate \<Rightarrow> addr" where
  "ulmk_notif_by_id i s = (if i = NULL \<or> \<not> n_active (notifs s i) then NULL else i)"

definition ipc_node_unlink :: "addr \<Rightarrow> kstate \<Rightarrow> kstate" where
  "ipc_node_unlink th s = (if q_linked th (ipcq s) then upd_ipcq (q_remove th) s else s)"

definition ulmk_ep_recv_queue_remove :: "addr \<Rightarrow> kstate \<Rightarrow> kstate" where
  "ulmk_ep_recv_queue_remove th s =
     (if blocked_ep (tcb s th) = ULMK_EP_INVALID then s
      else upd_tcb th (\<lambda>x. x\<lparr>blocked_ep := ULMK_EP_INVALID\<rparr>) (ipc_node_unlink th s))"

text \<open>Leaving the waiter slot of a notification, the block that \<^verbatim>\<open>clear_server_block\<close>,
  \<^verbatim>\<open>wake_blocked_on_destroy\<close> and \<^verbatim>\<open>thread_kill_local\<close> share.\<close>

definition leave_waiter_slot :: "addr \<Rightarrow> kstate \<Rightarrow> kstate" where
  "leave_waiter_slot th s =
     (if blocked_notif (tcb s th) \<noteq> ULMK_NOTIF_INVALID
      then
        let n = ulmk_notif_by_id (blocked_notif (tcb s th)) s;
            s = (if n \<noteq> NULL \<and> waiter (notifs s n) = th
                 then upd_notif n (\<lambda>x. x\<lparr>waiter := NULL\<rparr>) s else s)
        in upd_tcb th (\<lambda>x. x\<lparr>blocked_notif := ULMK_NOTIF_INVALID\<rparr>) s
      else s)"

section \<open>Helpers\<close>

definition ipc_pop_head :: "ipc_head \<Rightarrow> kstate \<Rightarrow> addr \<times> kstate" where
  "ipc_pop_head h s =
     (case q_get h (ipcq s) of
        (None, _) \<Rightarrow> (NULL, s)
      | (Some th, q) \<Rightarrow> (th, upd_ipcq (q_node_init th) (s\<lparr>ipcq := q\<rparr>)))"

definition ipc_enqueue_tail :: "ipc_head \<Rightarrow> addr \<Rightarrow> kstate \<Rightarrow> kstate" where
  "ipc_enqueue_tail h th s = upd_ipcq (q_append h th) s"

definition apply_prio_inherit :: "addr \<Rightarrow> addr \<Rightarrow> kstate \<Rightarrow> kstate" where
  "apply_prio_inherit server caller s =
     (let s = upd_tcb server (\<lambda>x. x\<lparr>saved_prio := priority x\<rparr>) s
      in if priority (tcb s caller) < priority (tcb s server)
         then upd_tcb server (\<lambda>x. x\<lparr>priority := priority (tcb s caller)\<rparr>) s else s)"

definition clear_server_block :: "addr \<Rightarrow> kstate \<Rightarrow> kstate" where
  "clear_server_block server s =
     leave_waiter_slot server
       (upd_tcb server (\<lambda>x. x\<lparr>blocked_reason := BLOCKED_NONE, blocked_ep := ULMK_EP_INVALID\<rparr>) s)"

definition caller_request :: "addr \<Rightarrow> kstate \<Rightarrow> ulmk_msg" where
  "caller_request caller s =
     (if ipc_msg_outptr (tcb s caller) \<noteq> NULL then umsg s (ipc_msg_outptr (tcb s caller))
      else ipc_msg (tcb s caller))"

definition prepare_server_delivery :: "addr \<Rightarrow> addr \<Rightarrow> addr \<Rightarrow> kstate \<Rightarrow> kstate" where
  "prepare_server_delivery server caller msg s =
     (let m = umsg s msg;
          s = upd_tcb server (\<lambda>x. x\<lparr>ipc_sender := tid (tcb s caller)\<rparr>) s;
          s = apply_prio_inherit server caller s;
          s = clear_server_block server s;
          s = upd_tcb server (\<lambda>x. x\<lparr>ipc_msg := m\<rparr>) s;
          s = (if ipc_msg_outptr (tcb s server) \<noteq> NULL
               then upd_tcb server (\<lambda>x. x\<lparr>ipc_msg_outptr := NULL\<rparr>)
                      (upd_umsg (ipc_msg_outptr (tcb s server)) m s)
               else s);
          s = (if ipc_sender_outptr (tcb s server) \<noteq> NULL
               then upd_tcb server (\<lambda>x. x\<lparr>ipc_sender_outptr := NULL\<rparr>)
                      (upd_uword (ipc_sender_outptr (tcb s server)) (tid (tcb s caller)) s)
               else s);
          rn = rn_result_outptr (tcb s server)
      in if rn \<noteq> NULL
         then upd_tcb server (\<lambda>x. x\<lparr>rn_result_outptr := NULL\<rparr>)
                (upd_urn rn (\<lambda>r. r\<lparr>rn_is_notif := 0, rn_msg := m, rn_sender := tid (tcb s caller),
                   rn_notif_bits := 0\<rparr>) s)
         else s)"

definition wake_blocked_on_destroy :: "addr \<Rightarrow> int \<Rightarrow> kstate \<Rightarrow> kstate" where
  "wake_blocked_on_destroy th status s =
     (let s = ulmk_timeout_disarm th s;
          s = ipc_node_unlink th s;
          s = leave_waiter_slot th s;
          s = upd_tcb th (\<lambda>x. x\<lparr>block_status := status, blocked_reason := BLOCKED_NONE,
                blocked_ep := ULMK_EP_INVALID, state := READY\<rparr>) s
      in ulmk_sched_enqueue th s)"

definition ep_call_timeout_cb :: "addr \<Rightarrow> kstate \<Rightarrow> kstate" where
  "ep_call_timeout_cb th s =
     (let s = lock LIpc s;
          s = (if th = NULL \<or> state (tcb s th) \<noteq> BLOCKED \<or> blocked_reason (tcb s th) \<noteq> BLOCKED_IPC_CALL then s
               else
                 let s = ulmk_ep_recv_queue_remove th s;
                     s = upd_tcb th (\<lambda>x. x\<lparr>block_status := ULMK_ETIMEOUT, blocked_reason := BLOCKED_NONE,
                           state := READY\<rparr>) s
                 in ulmk_sched_enqueue th s)
      in ulmk_sched_kick_pending (unlock LIpc s))"

section \<open>Core functions\<close>

text \<open>The part of \<^verbatim>\<open>ep_call_impl\<close> and \<^verbatim>\<open>ep_call_timeout_impl\<close> under the lock, from staging the request to
  blocking the caller; it returns the server to wake.\<close>

definition ep_call_rendezvous :: "addr \<Rightarrow> addr \<Rightarrow> addr \<Rightarrow> addr \<Rightarrow> kstate \<Rightarrow> addr \<times> kstate" where
  "ep_call_rendezvous ep ep_i cur msg s =
     (let s = upd_tcb cur (\<lambda>x. x\<lparr>ipc_sender := ULMK_TID_INVALID, blocked_reason := BLOCKED_IPC_CALL,
                blocked_ep := ep_i, ipc_msg_outptr := msg, block_status := 0\<rparr>) s;
          (srv, s) =
            (if \<not> q_empty (RecvQ ep) (ipcq s)
             then
               let (srv, s) = ipc_pop_head (RecvQ ep) s;
                   s = prepare_server_delivery srv cur msg s
               in (srv, upd_tcb srv (\<lambda>x. x\<lparr>state := READY\<rparr>) s)
             else (NULL, ipc_enqueue_tail (SendQ ep) cur s))
      in (srv, upd_tcb cur (\<lambda>x. x\<lparr>state := BLOCKED\<rparr>) s))"

definition ep_call_impl :: "addr \<Rightarrow> addr \<Rightarrow> kstate \<Rightarrow> int \<times> kstate" where
  "ep_call_impl ep_i msg s =
     (if msg = NULL then (- ULMK_EINVAL, s)
      else
        let s = lock LIpc s; ep = ulmk_ep_by_id ep_i s
        in if ep = NULL then (- ULMK_EINVAL, unlock LIpc s)
           else
             let cur = ulmk_sched_current s
             in if cur = NULL then (- ULMK_EINVAL, unlock LIpc s)
                else
                  let (srv, s) = ep_call_rendezvous ep ep_i cur msg s;
                      s = unlock LIpc s;
                      s = ulmk_sched_dequeue cur s;
                      s = (if srv \<noteq> NULL then ulmk_sched_enqueue srv s else s)
                  in (0, ulmk_sched_kick_pending s))"

definition ep_call_timeout_impl :: "addr \<Rightarrow> addr \<Rightarrow> u32 \<Rightarrow> kstate \<Rightarrow> int \<times> kstate" where
  "ep_call_timeout_impl ep_i msg timeout_ms s =
     (if msg = NULL \<or> ulmk_ms_to_ticks timeout_ms s = 0 then (- ULMK_EINVAL, s)
      else
        let s = lock LIpc s; ep = ulmk_ep_by_id ep_i s
        in if ep = NULL then (- ULMK_EINVAL, unlock LIpc s)
           else
             let cur = ulmk_sched_current s
             in if cur = NULL then (- ULMK_EINVAL, unlock LIpc s)
                else
                  let (srv, s) = ep_call_rendezvous ep ep_i cur msg s;
                      s = unlock LIpc s;
                      (rc, s) = ulmk_timeout_arm cur timeout_ms ep_call_timeout_CB s;
                      s = (if rc \<noteq> ULMK_OK
                           then
                             let s = lock LIpc s;
                                 s = (if state (tcb s cur) = BLOCKED \<and>
                                         blocked_reason (tcb s cur) = BLOCKED_IPC_CALL \<and> q_linked cur (ipcq s)
                                      then
                                        let s = ulmk_ep_recv_queue_remove cur s;
                                            s = upd_tcb cur (\<lambda>x. x\<lparr>blocked_reason := BLOCKED_NONE,
                                                  ipc_msg_outptr := NULL, state := READY\<rparr>) s
                                        in ulmk_sched_enqueue cur s
                                      else s)
                             in unlock LIpc s
                           else s);
                      s = ulmk_sched_dequeue cur s;
                      s = (if srv \<noteq> NULL then ulmk_sched_enqueue srv s else s)
                  in (if rc \<noteq> ULMK_OK then - ULMK_EINVAL else 0, ulmk_sched_kick_pending s))"

text \<open>Taking the first waiting caller, in \<^verbatim>\<open>ep_recv_impl\<close> and \<^verbatim>\<open>ep_reply_recv_impl\<close>.\<close>

definition recv_from_sender :: "addr \<Rightarrow> addr \<Rightarrow> addr \<Rightarrow> addr \<Rightarrow> kstate \<Rightarrow> kstate" where
  "recv_from_sender ep cur msg sender s =
     (let (caller, s) = ipc_pop_head (SendQ ep) s;
          s = upd_umsg msg (caller_request caller s) s;
          s = upd_tcb cur (\<lambda>x. x\<lparr>ipc_sender := tid (tcb s caller)\<rparr>) s;
          s = apply_prio_inherit cur caller s
      in if sender \<noteq> NULL then upd_uword sender (tid (tcb s caller)) s else s)"

definition ep_recv_impl :: "addr \<Rightarrow> addr \<Rightarrow> addr \<Rightarrow> kstate \<Rightarrow> int \<times> kstate" where
  "ep_recv_impl ep_i msg sender s =
     (if msg = NULL then (- ULMK_EINVAL, s)
      else
        let s = lock LIpc s; ep = ulmk_ep_by_id ep_i s
        in if ep = NULL then (- ULMK_EINVAL, unlock LIpc s)
           else
             let cur = ulmk_sched_current s
             in if cur = NULL then (- ULMK_EINVAL, unlock LIpc s)
                else if \<not> q_empty (SendQ ep) (ipcq s)
                then (0, unlock LIpc (recv_from_sender ep cur msg sender s))
                else
                  let s = upd_tcb cur (\<lambda>x. x\<lparr>ipc_msg_outptr := msg, ipc_sender_outptr := sender,
                            blocked_reason := BLOCKED_IPC_RECV, blocked_ep := ep_i, block_status := 0\<rparr>) s;
                      s = ipc_enqueue_tail (RecvQ ep) cur s;
                      s = upd_tcb cur (\<lambda>x. x\<lparr>state := BLOCKED\<rparr>) s;
                      s = unlock LIpc s;
                      s = ulmk_sched_dequeue cur s
                  in (0, ulmk_sched_kick_pending s))"

definition ep_reply_impl :: "addr \<Rightarrow> addr \<Rightarrow> kstate \<Rightarrow> int \<times> kstate" where
  "ep_reply_impl sender_tid reply s =
     (let cur = ulmk_sched_current s
      in if reply = NULL then (- ULMK_EINVAL, s)
         else
           let s = lock LIpc s;
               caller = ulmk_thread_by_tid sender_tid s
           in if caller = NULL \<or> blocked_reason (tcb s caller) \<noteq> BLOCKED_IPC_CALL
              then (- ULMK_EINVAL, unlock LIpc s)
              else
                let s = (if cur \<noteq> NULL then upd_tcb cur (\<lambda>x. x\<lparr>priority := saved_prio x\<rparr>) s else s);
                    s = (if ipc_msg_outptr (tcb s caller) \<noteq> NULL
                         then upd_tcb caller (\<lambda>x. x\<lparr>ipc_msg_outptr := NULL\<rparr>)
                                (upd_umsg (ipc_msg_outptr (tcb s caller)) (umsg s reply) s)
                         else upd_tcb caller (\<lambda>x. x\<lparr>ipc_msg := umsg s reply\<rparr>) s);
                    s = upd_tcb caller (\<lambda>x. x\<lparr>state := READY, blocked_reason := BLOCKED_NONE,
                          blocked_ep := ULMK_EP_INVALID\<rparr>) s;
                    s = unlock LIpc s;
                    s = ulmk_timeout_disarm caller s;
                    s = ulmk_sched_enqueue caller s
                in (0, ulmk_sched_kick_pending s))"

definition ep_reply_recv_impl :: "addr \<Rightarrow> addr \<Rightarrow> addr \<Rightarrow> addr \<Rightarrow> addr \<Rightarrow> kstate \<Rightarrow> int \<times> kstate" where
  "ep_reply_recv_impl ep_i sender_tid reply nxt next_sender s =
     (if nxt = NULL then (- ULMK_EINVAL, s)
      else
        let s = (if sender_tid \<noteq> ULMK_TID_INVALID then snd (ep_reply_impl sender_tid reply s) else s);
            ep = ulmk_ep_by_id ep_i s
        in if ep = NULL then (- ULMK_EINVAL, s)
           else
             let cur = ulmk_sched_current s
             in if cur = NULL then (- ULMK_EINVAL, s)
                else
                  let s = lock LIpc s
                  in if \<not> q_empty (SendQ ep) (ipcq s)
                     then (0, unlock LIpc (recv_from_sender ep cur nxt next_sender s))
                     else ep_recv_impl ep_i nxt next_sender (unlock LIpc s))"

definition ep_grant_impl :: "addr \<Rightarrow> addr \<Rightarrow> kstate \<Rightarrow> int" where
  "ep_grant_impl ep_i target_tid s =
     (if ulmk_ep_by_id ep_i s = NULL then - ULMK_EINVAL
      else if ulmk_thread_by_tid target_tid s = NULL then - ULMK_EINVAL
      else 0)"

definition ep_recv_or_notif_impl :: "addr \<Rightarrow> addr \<Rightarrow> u32 \<Rightarrow> addr \<Rightarrow> kstate \<Rightarrow> int \<times> kstate" where
  "ep_recv_or_notif_impl ep_i notif_i msk res s =
     (if res = NULL then (- ULMK_EINVAL, s)
      else
        let ep = ulmk_ep_by_id ep_i s; n = ulmk_notif_by_id notif_i s; cur = ulmk_sched_current s
        in if ep = NULL \<or> n = NULL \<or> cur = NULL then (- ULMK_EINVAL, s)
           else
             let s = lock LIpc s;
                 matched = n_bits (notifs s n) AND msk
             in if matched \<noteq> 0
                then
                  let s = upd_notif n (\<lambda>x. x\<lparr>n_bits := n_bits x AND NOT matched\<rparr>) s;
                      s = upd_urn res (\<lambda>r. r\<lparr>rn_is_notif := 1, rn_notif_bits := matched,
                            rn_sender := ULMK_TID_INVALID\<rparr>) s
                  in (1, unlock LIpc s)
                else if \<not> q_empty (SendQ ep) (ipcq s)
                then
                  let (caller, s) = ipc_pop_head (SendQ ep) s;
                      s = apply_prio_inherit cur caller s;
                      s = upd_tcb cur (\<lambda>x. x\<lparr>ipc_sender := tid (tcb s caller)\<rparr>) s;
                      s = upd_tcb cur (\<lambda>x. x\<lparr>ipc_msg := caller_request caller s\<rparr>) s;
                      s = upd_urn res (\<lambda>r. r\<lparr>rn_is_notif := 0, rn_msg := ipc_msg (tcb s cur),
                            rn_sender := ipc_sender (tcb s cur)\<rparr>) s
                  in (0, unlock LIpc s)
                else
                  let s = upd_tcb cur (\<lambda>x. x\<lparr>ipc_sender := ULMK_TID_INVALID,
                            blocked_reason := BLOCKED_IPC_OR_NOTIF, blocked_ep := ep_i,
                            blocked_notif := notif_i, notif_wait_mask := msk, ipc_msg_outptr := NULL,
                            ipc_sender_outptr := NULL, rn_result_outptr := res, block_status := 0\<rparr>) s;
                      s = ipc_enqueue_tail (RecvQ ep) cur s;
                      s = upd_notif n (\<lambda>x. x\<lparr>waiter := cur, wait_mask := msk\<rparr>) s;
                      s = upd_tcb cur (\<lambda>x. x\<lparr>state := BLOCKED\<rparr>) s;
                      s = ulmk_sched_dequeue cur s;
                      s = unlock LIpc s
                  in (0, ulmk_sched_kick_pending s))"

text \<open>The two draining loops of \<^verbatim>\<open>ep_destroy_impl\<close>: each turn takes a thread off the queue, and waking it
  puts none on it, so the length of the queue bounds them.\<close>

fun destroy_drain :: "nat \<Rightarrow> ipc_head \<Rightarrow> kstate \<Rightarrow> kstate" where
  "destroy_drain 0 h s = (if q_empty h (ipcq s) then s else s\<lparr>hang := True\<rparr>)"
| "destroy_drain (Suc n) h s =
     (case ipc_pop_head h s of
        (th, s') \<Rightarrow>
          (if th = NULL then s'
           else destroy_drain n h (lock LIpc (wake_blocked_on_destroy th ULMK_EINVAL (unlock LIpc s')))))"

definition ep_destroy_impl :: "addr \<Rightarrow> kstate \<Rightarrow> int \<times> kstate" where
  "ep_destroy_impl ep_i s =
     (let s = lock LIpc s; ep = ulmk_ep_by_id ep_i s
      in if ep = NULL then (- ULMK_EINVAL, unlock LIpc s)
         else
           let s = upd_ep ep (\<lambda>x. x\<lparr>ep_active := False\<rparr>) s;
               s = destroy_drain (length (q_of (ipcq s) (SendQ ep))) (SendQ ep) s;
               s = destroy_drain (length (q_of (ipcq s) (RecvQ ep))) (RecvQ ep) s;
               s = unlock LIpc s;
               s = k_heap_free ep s
           in (0, ulmk_sched_kick_pending s))"

section \<open>System calls\<close>

definition ulmk_kern_ep_create :: "kstate \<Rightarrow> u32 \<times> kstate" where
  "ulmk_kern_ep_create s =
     (let (ep, s) = k_heap_alloc (sizeof_endpoint (cfg s)) s
      in if ep = NULL then (ULMK_EP_INVALID, s) else (ep, ulmk_ep_init ep ep s))"

definition u32_result :: "int \<times> kstate \<Rightarrow> u32 \<times> kstate" where
  "u32_result r = (case r of (rc, s) \<Rightarrow> (ret_u32 rc, s))"

definition ulmk_kern_ep_call :: "u32 \<Rightarrow> u32 \<Rightarrow> kstate \<Rightarrow> u32 \<times> kstate" where
  "ulmk_kern_ep_call ep_i msg_ptr s = u32_result (ep_call_impl ep_i msg_ptr s)"

definition ulmk_kern_ep_call_timeout :: "u32 \<Rightarrow> u32 \<Rightarrow> u32 \<Rightarrow> kstate \<Rightarrow> u32 \<times> kstate" where
  "ulmk_kern_ep_call_timeout ep_i msg_ptr timeout_ms s =
     u32_result (ep_call_timeout_impl ep_i msg_ptr timeout_ms s)"

definition ulmk_kern_ep_recv :: "u32 \<Rightarrow> u32 \<Rightarrow> u32 \<Rightarrow> kstate \<Rightarrow> u32 \<times> kstate" where
  "ulmk_kern_ep_recv ep_i msg_ptr sender_ptr s = u32_result (ep_recv_impl ep_i msg_ptr sender_ptr s)"

definition ulmk_kern_ep_reply :: "u32 \<Rightarrow> u32 \<Rightarrow> kstate \<Rightarrow> u32 \<times> kstate" where
  "ulmk_kern_ep_reply sender_tid reply_ptr s = u32_result (ep_reply_impl sender_tid reply_ptr s)"

definition ulmk_kern_ep_reply_recv :: "u32 \<Rightarrow> u32 \<Rightarrow> u32 \<Rightarrow> kstate \<Rightarrow> u32 \<times> kstate" where
  "ulmk_kern_ep_reply_recv ep_i sender_tid args_ptr s =
     (if args_ptr = NULL then (ret_u32 (- ULMK_EINVAL), s)
      else let args = uargs s args_ptr
           in u32_result (ep_reply_recv_impl ep_i sender_tid (ra_reply args) (ra_next args)
                (ra_next_sender args) s))"

definition ulmk_kern_ep_grant :: "u32 \<Rightarrow> u32 \<Rightarrow> kstate \<Rightarrow> u32 \<times> kstate" where
  "ulmk_kern_ep_grant ep_i target_tid s = (ret_u32 (ep_grant_impl ep_i target_tid s), s)"

definition ulmk_kern_ep_recv_or_notif :: "u32 \<Rightarrow> u32 \<Rightarrow> u32 \<Rightarrow> u32 \<Rightarrow> kstate \<Rightarrow> u32 \<times> kstate" where
  "ulmk_kern_ep_recv_or_notif ep_i notif_i msk result_ptr s =
     u32_result (ep_recv_or_notif_impl ep_i notif_i msk result_ptr s)"

definition ulmk_kern_ep_destroy :: "u32 \<Rightarrow> kstate \<Rightarrow> u32 \<times> kstate" where
  "ulmk_kern_ep_destroy ep_i s = u32_result (ep_destroy_impl ep_i s)"

end
