(* ===== verification/Notif.thy ===== *)
theory Notif
  imports Ipc_Ep
begin

text \<open>
  Notifications, \<^verbatim>\<open>kernel/notif/notif.c\<close>: a word of sticky bits with one waiter slot. The lookup
  \<^verbatim>\<open>ulmk_notif_by_id\<close> is in theory Ipc\_Ep, which shares it.
\<close>

section \<open>Operations\<close>

definition notif_wait_timeout_cb :: "addr \<Rightarrow> kstate \<Rightarrow> kstate" where
  "notif_wait_timeout_cb th s =
     (let s = lock LIpc s;
          s = (if th = NULL \<or> state (tcb s th) \<noteq> BLOCKED \<or> blocked_reason (tcb s th) \<noteq> BLOCKED_NOTIF then s
               else
                 let n = ulmk_notif_by_id (blocked_notif (tcb s th)) s;
                     s = (if n \<noteq> NULL \<and> waiter (notifs s n) = th
                          then upd_notif n (\<lambda>x. x\<lparr>waiter := NULL\<rparr>) s else s);
                     s = upd_tcb th (\<lambda>x. x\<lparr>blocked_notif := ULMK_NOTIF_INVALID, block_status := ULMK_ETIMEOUT,
                           blocked_reason := BLOCKED_NONE, state := READY\<rparr>) s
                 in ulmk_sched_enqueue th s)
      in ulmk_sched_kick_pending (unlock LIpc s))"

definition ulmk_notif_obj_init :: "addr \<Rightarrow> addr \<Rightarrow> kstate \<Rightarrow> kstate" where
  "ulmk_notif_obj_init n i s =
     upd_notif n (\<lambda>_. \<lparr>n_id = i, n_active = True, n_bits = 0, waiter = NULL, wait_mask = 0\<rparr>) s"

definition notif_signal_impl :: "addr \<Rightarrow> u32 \<Rightarrow> kstate \<Rightarrow> int \<times> kstate" where
  "notif_signal_impl notif_i bits s =
     (let s = lock LIpc s; n = ulmk_notif_by_id notif_i s
      in if n = NULL then (- ULMK_EINVAL, unlock LIpc s)
         else
           let s = upd_notif n (\<lambda>x. x\<lparr>n_bits := n_bits x OR bits\<rparr>) s;
               w = waiter (notifs s n)
           in if w = NULL \<or> state (tcb s w) \<noteq> BLOCKED then (0, unlock LIpc s)
              else
                let delivered = n_bits (notifs s n) AND notif_wait_mask (tcb s w)
                in if delivered = 0 then (0, unlock LIpc s)
                   else
                     let s = upd_notif n (\<lambda>x. x\<lparr>n_bits := n_bits x AND NOT delivered, waiter := NULL\<rparr>) s;
                         s = upd_tcb w (\<lambda>x. x\<lparr>notif_received := delivered\<rparr>) s;
                         need_disarm = (cb (timeout (tcb s w)) \<noteq> CB_NULL);
                         s = (if blocked_reason (tcb s w) = BLOCKED_IPC_OR_NOTIF
                              then
                                let rn = rn_result_outptr (tcb s w);
                                    s = ulmk_ep_recv_queue_remove w s;
                                    s = upd_tcb w (\<lambda>x. x\<lparr>blocked_notif := ULMK_NOTIF_INVALID\<rparr>) s;
                                    s = (if rn \<noteq> NULL
                                         then upd_tcb w (\<lambda>x. x\<lparr>rn_result_outptr := NULL\<rparr>)
                                                (upd_urn rn (\<lambda>r. r\<lparr>rn_is_notif := 1, rn_notif_bits := delivered,
                                                   rn_sender := ULMK_TID_INVALID\<rparr>) s)
                                         else s)
                                in upd_tcb w (\<lambda>x. x\<lparr>syscall_wake_ret := 1, syscall_wake_ret_valid := True\<rparr>) s
                              else if notif_bits_outptr (tcb s w) \<noteq> NULL
                              then upd_tcb w (\<lambda>x. x\<lparr>notif_bits_outptr := NULL\<rparr>)
                                     (upd_uword (notif_bits_outptr (tcb s w)) delivered s)
                              else s);
                         s = upd_tcb w (\<lambda>x. x\<lparr>blocked_reason := BLOCKED_NONE, state := READY\<rparr>) s;
                         s = ulmk_sched_enqueue w s;
                         s = unlock LIpc s;
                         s = (if need_disarm then ulmk_timeout_disarm w s else s)
                     in (0, ulmk_sched_kick_pending s))"

text \<open>The part of \<^verbatim>\<open>notif_wait_impl\<close> and \<^verbatim>\<open>notif_wait_timeout_impl\<close> under the lock. The first component
  says whether the call is over (with its result) or the caller now waits.\<close>

definition notif_wait_block :: "addr \<Rightarrow> u32 \<Rightarrow> addr \<Rightarrow> kstate \<Rightarrow> int option \<times> kstate" where
  "notif_wait_block notif_i msk out s =
     (let s = lock LIpc s; n = ulmk_notif_by_id notif_i s
      in if n = NULL \<or> out = NULL then (Some (- ULMK_EINVAL), unlock LIpc s)
         else
           let matched = n_bits (notifs s n) AND msk
           in if matched \<noteq> 0
              then
                let s = upd_notif n (\<lambda>x. x\<lparr>n_bits := n_bits x AND NOT matched\<rparr>) s;
                    s = upd_uword out matched s
                in (Some 0, unlock LIpc s)
              else
                let cur = ulmk_sched_current s
                in if cur = NULL then (Some (- ULMK_EINVAL), unlock LIpc s)
                   else
                     let s = upd_tcb cur (\<lambda>x. x\<lparr>blocked_reason := BLOCKED_NOTIF, notif_wait_mask := msk,
                               blocked_notif := notif_i, notif_bits_outptr := out, block_status := 0,
                               state := BLOCKED\<rparr>) s;
                         s = ulmk_sched_dequeue cur s;
                         s = upd_notif n (\<lambda>x. x\<lparr>waiter := cur, wait_mask := msk\<rparr>) s;
                         matched = n_bits (notifs s n) AND msk
                     in if matched \<noteq> 0
                        then
                          let s = upd_notif n (\<lambda>x. x\<lparr>n_bits := n_bits x AND NOT matched, waiter := NULL\<rparr>) s;
                              s = upd_tcb cur (\<lambda>x. x\<lparr>state := READY, blocked_reason := BLOCKED_NONE,
                                    blocked_notif := ULMK_NOTIF_INVALID\<rparr>) s;
                              s = ulmk_sched_enqueue cur s;
                              s = upd_uword out matched s
                          in (Some 0, unlock LIpc s)
                        else (None, unlock LIpc s))"

definition notif_wait_impl :: "addr \<Rightarrow> u32 \<Rightarrow> addr \<Rightarrow> kstate \<Rightarrow> int \<times> kstate" where
  "notif_wait_impl notif_i msk out s =
     (case notif_wait_block notif_i msk out s of
        (Some rc, s) \<Rightarrow> (rc, s)
      | (None, s) \<Rightarrow> (0, s))"

definition notif_wait_timeout_impl :: "addr \<Rightarrow> u32 \<Rightarrow> addr \<Rightarrow> u32 \<Rightarrow> kstate \<Rightarrow> int \<times> kstate" where
  "notif_wait_timeout_impl notif_i msk out timeout_ms s =
     (if ulmk_ms_to_ticks timeout_ms s = 0 then (- ULMK_EINVAL, s)
      else
        case notif_wait_block notif_i msk out s of
          (Some rc, s) \<Rightarrow> (rc, s)
        | (None, s) \<Rightarrow>
            (let cur = ulmk_sched_current s;
                 n = notif_i;
                 (rc, s) = ulmk_timeout_arm cur timeout_ms notif_wait_timeout_CB s
             in if rc \<noteq> ULMK_OK
                then
                  let s = lock LIpc s;
                      s = (if state (tcb s cur) = BLOCKED \<and> blocked_reason (tcb s cur) = BLOCKED_NOTIF \<and>
                              waiter (notifs s n) = cur
                           then
                             let s = upd_notif n (\<lambda>x. x\<lparr>waiter := NULL\<rparr>) s;
                                 s = upd_tcb cur (\<lambda>x. x\<lparr>blocked_reason := BLOCKED_NONE,
                                       blocked_notif := ULMK_NOTIF_INVALID, notif_bits_outptr := NULL,
                                       state := READY\<rparr>) s
                             in ulmk_sched_enqueue cur s
                           else s);
                      s = unlock LIpc s
                  in (- ULMK_EINVAL, ulmk_sched_kick_pending s)
                else (0, s)))"

definition notif_poll_impl :: "addr \<Rightarrow> u32 \<Rightarrow> kstate \<Rightarrow> u32 \<times> kstate" where
  "notif_poll_impl notif_i msk s =
     (let n = ulmk_notif_by_id notif_i s
      in if n = NULL then (0, s)
         else let matched = n_bits (notifs s n) AND msk
              in (matched, upd_notif n (\<lambda>x. x\<lparr>n_bits := n_bits x AND NOT matched\<rparr>) s))"

definition notif_destroy_impl :: "addr \<Rightarrow> kstate \<Rightarrow> int \<times> kstate" where
  "notif_destroy_impl notif_i s =
     (let n = ulmk_notif_by_id notif_i s
      in if n = NULL then (- ULMK_EINVAL, s)
         else
           let w = waiter (notifs s n);
               s = upd_notif n (\<lambda>x. x\<lparr>waiter := NULL\<rparr>) s;
               s = (if w \<noteq> NULL
                    then
                      let s = ulmk_timeout_disarm w s;
                          s = (if blocked_reason (tcb s w) = BLOCKED_IPC_OR_NOTIF
                               then ulmk_ep_recv_queue_remove w s else s);
                          s = upd_tcb w (\<lambda>x. x\<lparr>blocked_notif := ULMK_NOTIF_INVALID,
                                blocked_ep := ULMK_EP_INVALID, block_status := ULMK_EINVAL,
                                blocked_reason := BLOCKED_NONE, state := READY\<rparr>) s
                      in ulmk_sched_enqueue w s
                    else s);
               s = upd_notif n (\<lambda>x. x\<lparr>n_active := False\<rparr>) s
           in (0, k_heap_free n s))"

section \<open>System calls\<close>

definition ulmk_kern_notif_create :: "kstate \<Rightarrow> u32 \<times> kstate" where
  "ulmk_kern_notif_create s =
     (let (n, s) = k_heap_alloc (sizeof_notif (cfg s)) s
      in if n = NULL then (ULMK_NOTIF_INVALID, s) else (n, ulmk_notif_obj_init n n s))"

definition ulmk_kern_notif_destroy :: "u32 \<Rightarrow> kstate \<Rightarrow> u32 \<times> kstate" where
  "ulmk_kern_notif_destroy notif_i s = u32_result (notif_destroy_impl notif_i s)"

definition ulmk_kern_notif_signal :: "u32 \<Rightarrow> u32 \<Rightarrow> kstate \<Rightarrow> u32 \<times> kstate" where
  "ulmk_kern_notif_signal notif_i bits s = u32_result (notif_signal_impl notif_i bits s)"

definition ulmk_kern_notif_wait :: "u32 \<Rightarrow> u32 \<Rightarrow> u32 \<Rightarrow> kstate \<Rightarrow> u32 \<times> kstate" where
  "ulmk_kern_notif_wait notif_i msk bits_ptr s = u32_result (notif_wait_impl notif_i msk bits_ptr s)"

definition ulmk_kern_notif_wait_timeout :: "u32 \<Rightarrow> u32 \<Rightarrow> u32 \<Rightarrow> u32 \<Rightarrow> kstate \<Rightarrow> u32 \<times> kstate" where
  "ulmk_kern_notif_wait_timeout notif_i msk bits_ptr timeout_ms s =
     u32_result (notif_wait_timeout_impl notif_i msk bits_ptr timeout_ms s)"

definition ulmk_kern_notif_poll :: "u32 \<Rightarrow> u32 \<Rightarrow> kstate \<Rightarrow> u32 \<times> kstate" where
  "ulmk_kern_notif_poll notif_i msk s = notif_poll_impl notif_i msk s"

end
