(* ===== verification/Dispatch.thy ===== *)
theory Dispatch
  imports Mem
begin

text \<open>
  The context-switching half of \<^verbatim>\<open>kernel/sched/sched.c\<close>, with \<^verbatim>\<open>ulmk_thread_free\<close> of
  \<^verbatim>\<open>kernel/thread/thread.c\<close>, which reaping a dead thread calls. A switch records the arch call and makes
  the next thread the running one: the state after it is the one the incoming thread continues in.
\<close>

definition ulmk_thread_free :: "addr \<Rightarrow> kstate \<Rightarrow> kstate" where
  "ulmk_thread_free th s =
     (let s = ulmk_timeout_disarm th s;
          s = (if q_linked th (regq s) then upd_regq (q_remove th) s else s);
          s = ulmk_mem_thread_release th s
      in if stack_alloc (tcb s th) = NULL then s
         else k_heap_free th (k_heap_free (stack_alloc (tcb s th)) s))"

definition sched_reap_dead :: "addr \<Rightarrow> kstate \<Rightarrow> kstate" where
  "sched_reap_dead prev s =
     (let d = dead_for_cleanup (ulmk_percpu s)
      in if d = NULL \<or> d = prev then s
         else
           let s = emit (EvCtxFree d) s;
               s = ulmk_thread_free d s
           in upd_this_cpu (\<lambda>pc. pc\<lparr>dead_for_cleanup := NULL\<rparr>) s)"

definition sched_switch_to :: "addr \<Rightarrow> addr \<Rightarrow> kstate \<Rightarrow> kstate" where
  "sched_switch_to prev nxt s =
     (let nxt = (if nxt = NULL then idle (ulmk_percpu s) else nxt);
          s = ulmk_thread_ensure_ctx nxt s
      in if prev \<noteq> NULL \<and> prev = nxt
         then
           let s = upd_this_cpu (\<lambda>pc. pc\<lparr>current := nxt\<rparr>) s;
               s = upd_tcb nxt (\<lambda>x. x\<lparr>state := RUNNING\<rparr>) s
           in if q_linked prev (rqs s)
              then upd_tcb prev (\<lambda>x. x\<lparr>state := RUNNING\<rparr>) (class_dequeue prev s)
              else s
         else
           let s = ulmk_sched_mpu_switch nxt s;
               s = upd_this_cpu (\<lambda>pc. pc\<lparr>current := nxt\<rparr>) s;
               s = upd_tcb nxt (\<lambda>x. x\<lparr>state := RUNNING\<rparr>) s
           in emit (EvCtxSwitch prev nxt) s)"

definition ulmk_sched_set_dead_for_cleanup :: "addr \<Rightarrow> kstate \<Rightarrow> kstate" where
  "ulmk_sched_set_dead_for_cleanup th s =
     (let d = dead_for_cleanup (ulmk_percpu s);
          s = (if d \<noteq> NULL then ulmk_thread_free d (emit (EvCtxFree d) s) else s)
      in upd_this_cpu (\<lambda>pc. pc\<lparr>dead_for_cleanup := th\<rparr>) s)"

definition ulmk_sched_start :: "kstate \<Rightarrow> kstate" where
  "ulmk_sched_start s =
     (let (first, s) = class_pick_next s;
          s = ulmk_thread_ensure_ctx first s;
          s = upd_this_cpu (\<lambda>pc. pc\<lparr>current := first\<rparr>) s;
          s = upd_tcb first (\<lambda>x. x\<lparr>state := RUNNING\<rparr>) s;
          s = upd_this_cpu (\<lambda>pc. pc\<lparr>online := True\<rparr>) s;
          s = (if smp (cfg s)
               then (if cpu_id s \<noteq> 0 then emit EvSecondaryReady s else s)
               else upd_this_cpu (\<lambda>pc. pc\<lparr>needs_resched := False\<rparr>) s);
          s = ulmk_sched_mpu_switch first s
      in emit (EvCtxSwitch NULL first) s)"

definition ulmk_sched_resched :: "kstate \<Rightarrow> kstate" where
  "ulmk_sched_resched s =
     (let prev = current (ulmk_percpu s);
          s = upd_this_cpu (\<lambda>pc. pc\<lparr>needs_resched := False\<rparr>) s;
          s = sched_reap_dead prev s;
          (nxt, s) = class_pick_next s
      in sched_switch_to prev nxt s)"

definition ulmk_sched_trap_dispatch :: "bool \<Rightarrow> kstate \<Rightarrow> kstate" where
  "ulmk_sched_trap_dispatch from_isr s =
     (let s = ulmk_sched_kick_pending s;
          cur = current (ulmk_percpu s)
      in if cur = NULL \<or> sched_class s = None then s
         else
           let want = needs_resched (ulmk_percpu s);
               s = upd_this_cpu (\<lambda>pc. pc\<lparr>needs_resched := False\<rparr>) s
           in if state (tcb s cur) \<noteq> RUNNING
              then
                let s = sched_reap_dead cur s;
                    (nxt, s) = class_pick_next s
                in sched_switch_to cur nxt s
              else
                let (stay, s) =
                      (if want then (False, s)
                       else let (nxt, s) = class_peek_next s
                            in (nxt = NULL \<or> nxt = cur \<or> priority (tcb s nxt) \<ge> priority (tcb s cur), s))
                in if stay then s
                   else if from_isr
                   then
                     let s = upd_tcb cur (\<lambda>x. x\<lparr>state := READY\<rparr>) s;
                         s = (if q_linked cur (rqs s) then class_dequeue cur s else s);
                         s = class_enqueue cur s;
                         (nxt, s) = class_pick_next s
                     in if isr_preempt_deferred (cfg s)
                        then
                          let s = ulmk_thread_ensure_ctx nxt s;
                              s = upd_this_cpu (\<lambda>pc. pc\<lparr>current := nxt\<rparr>) s;
                              s = upd_tcb nxt (\<lambda>x. x\<lparr>state := RUNNING\<rparr>) s;
                              s = ulmk_sched_mpu_switch nxt s
                          in emit (EvSchedSwitch cur nxt) s
                        else sched_switch_to cur nxt s
                   else
                     let s = (if q_linked cur (rqs s) then class_dequeue cur s else s);
                         s = upd_tcb cur (\<lambda>x. x\<lparr>state := READY\<rparr>) s;
                         s = class_enqueue cur s;
                         (nxt, s) = class_pick_next s
                     in sched_switch_to cur nxt s)"

end
