(* ===== verification/Thread.thy ===== *)
theory Thread
  imports Notif Dispatch
begin

text \<open>
  The thread system calls, \<^verbatim>\<open>kernel/thread/thread.c\<close>: spawning, exit, killing, suspending and resuming,
  priorities and the granting of capabilities.
\<close>

definition ulmk_kern_thread_self :: "kstate \<Rightarrow> u32 \<times> kstate" where
  "ulmk_kern_thread_self s =
     (let t = ulmk_sched_current s in (if t \<noteq> NULL then t else ULMK_TID_INVALID, s))"

definition ulmk_kern_yield :: "kstate \<Rightarrow> u32 \<times> kstate" where
  "ulmk_kern_yield s =
     (let cur = ulmk_sched_current s
      in if cur \<noteq> NULL
         then
           let s = upd_tcb cur (\<lambda>x. x\<lparr>state := READY\<rparr>) s;
               s = ulmk_sched_dequeue cur s;
               s = ulmk_sched_enqueue cur s
           in (0, ulmk_sched_request_resched s)
         else (0, s))"

definition ulmk_kern_exit :: "kstate \<Rightarrow> u32 \<times> kstate" where
  "ulmk_kern_exit s =
     (let cur = ulmk_sched_current s
      in if cur \<noteq> NULL
         then
           let s = upd_tcb cur (\<lambda>x. x\<lparr>state := DEAD\<rparr>) s;
               s = ulmk_sched_dequeue cur s
           in (0, ulmk_sched_set_dead_for_cleanup cur s)
         else (0, s))"

text \<open>The doubling loop of \<^verbatim>\<open>stack_alloc\<close>: \<open>None\<close> when it never ends.\<close>

partial_function (option) pow2_grow :: "u32 \<Rightarrow> u32 \<Rightarrow> u32 option" where
  "pow2_grow s sz = (if s < sz then pow2_grow (push_bit 1 s) sz else Some s)"

definition stack_alloc_k :: "u32 \<Rightarrow> kstate \<Rightarrow> (addr \<times> u32) option \<times> kstate" where
  "stack_alloc_k sz s =
     (if mpu_win_pow2 (cfg s)
      then case pow2_grow (mpu_win_min (cfg s)) sz of
             None \<Rightarrow> (None, s\<lparr>hang := True\<rparr>)
           | Some sz \<Rightarrow> (let (p, s) = k_heap_aligned_alloc sz sz s in (Some (p, sz), s))
      else
        let al = region_align (cfg s);
            sz = (sz + al - 1) AND NOT (al - 1);
            (p, s) = k_heap_aligned_alloc al sz s
        in (Some (p, sz), s))"

text \<open>The second half of \<^verbatim>\<open>ulmk_kern_thread_spawn\<close>: initialising the TCB on its stack, with the capabilities and areas
  it gets from its parent.\<close>

definition spawn_tail :: "addr \<Rightarrow> addr \<Rightarrow> ulmk_thread_attr \<Rightarrow> addr \<Rightarrow> kstate \<Rightarrow> u32 \<times> kstate" where
  "spawn_tail cur th attr stack s =
     (let (ret, s) = ulmk_thread_init th attr stack s
      in if ret \<noteq> ULMK_OK then (ULMK_TID_INVALID, k_heap_free th (k_heap_free stack s))
         else
           let s = upd_tcb th (\<lambda>x. x\<lparr>stack_alloc := stack\<rparr>) s;
               (ret, s) =
                 (if at_caps attr = ULMK_CAP_INHERIT
                  then ulmk_mem_thread_inherit th cur
                         (upd_tcb th (\<lambda>x. x\<lparr>cap_flags := cap_flags (tcb s cur)\<rparr>) s)
                  else (ret, upd_tcb th (\<lambda>x. x\<lparr>cap_flags :=
                           cap_flags (tcb s cur) AND ucast (at_caps attr)\<rparr>) s))
           in if ret \<noteq> ULMK_OK
              then (ULMK_TID_INVALID, ulmk_thread_free th (emit (EvCtxFree th) s))
              else (th, ulmk_sched_enqueue th s))"

definition spawn_attr :: "kconfig \<Rightarrow> ulmk_thread_attr \<Rightarrow> ulmk_thread_attr" where
  "spawn_attr cf attr =
     (let attr = (if smp cf then attr else attr\<lparr>at_cpu := 0\<rparr>)
      in attr\<lparr>at_stack_size := at_stack_size attr + kstack_size cf\<rparr>)"

definition ulmk_kern_thread_spawn :: "u32 \<Rightarrow> kstate \<Rightarrow> u32 \<times> kstate" where
  "ulmk_kern_thread_spawn attr_ptr s =
     (let cur = ulmk_sched_current s; attr = uattr s attr_ptr
      in if cur = NULL \<or> attr_ptr = NULL \<or> at_entry attr = NULL \<or> at_stack_size attr = 0
         then (ULMK_TID_INVALID, s)
         else if at_privilege attr > privilege (tcb s cur) then (ULMK_TID_INVALID, s)
         else if smp (cfg s) \<and> unat (at_cpu attr) \<ge> nr_cpus (cfg s) then (ULMK_TID_INVALID, s)
         else
           let attr = spawn_attr (cfg s) attr;
               (th, s) = k_heap_alloc (sizeof_thread (cfg s)) s
           in if th = NULL then (ULMK_TID_INVALID, s)
              else
                case stack_alloc_k (at_stack_size attr) s of
                  (None, s) \<Rightarrow> (ULMK_TID_INVALID, s)
                | (Some (stack, sz), s) \<Rightarrow>
                    (if stack = NULL then (ULMK_TID_INVALID, k_heap_free th s)
                     else spawn_tail cur th (attr\<lparr>at_stack_size := sz\<rparr>) stack s))"

definition thread_kill_local :: "u32 \<Rightarrow> kstate \<Rightarrow> u32 \<times> kstate" where
  "thread_kill_local t s =
     (let th = ulmk_thread_by_tid t s
      in if th = NULL \<or> state (tcb s th) = DEAD then (ret_u32 ULMK_ESRCH, s)
         else
           let s = ulmk_timeout_disarm th s;
               s = (if blocked_reason (tcb s th) = BLOCKED_IPC_CALL \<or>
                       blocked_reason (tcb s th) = BLOCKED_IPC_RECV \<or>
                       blocked_reason (tcb s th) = BLOCKED_IPC_OR_NOTIF
                    then ulmk_ep_recv_queue_remove th s else s);
               s = leave_waiter_slot th s;
               s = (if ipc_sender (tcb s th) \<noteq> ULMK_TID_INVALID
                    then
                      let peer = ulmk_thread_by_tid (ipc_sender (tcb s th)) s;
                          s = (if peer \<noteq> NULL \<and> state (tcb s peer) = BLOCKED \<and>
                                  blocked_reason (tcb s peer) = BLOCKED_IPC_CALL
                               then
                                 let s = ipc_node_unlink peer s;
                                     s = ulmk_timeout_disarm peer s;
                                     s = upd_tcb peer (\<lambda>x. x\<lparr>block_status := ULMK_ESRCH,
                                           blocked_reason := BLOCKED_NONE, blocked_ep := ULMK_EP_INVALID,
                                           state := READY\<rparr>) s
                                 in ulmk_sched_enqueue peer s
                               else s)
                      in upd_tcb th (\<lambda>x. x\<lparr>ipc_sender := ULMK_TID_INVALID\<rparr>) s
                    else s);
               s = upd_tcb th (\<lambda>x. x\<lparr>state := DEAD\<rparr>) s;
               s = ulmk_sched_dequeue th s
           in if th \<noteq> ulmk_sched_current s
              then (0, ulmk_thread_free th (emit (EvCtxFree th) s))
              else (0, ulmk_sched_set_dead_for_cleanup th s))"

definition ulmk_kern_thread_kill :: "u32 \<Rightarrow> kstate \<Rightarrow> u32 \<times> kstate" where
  "ulmk_kern_thread_kill t s =
     (let th = ulmk_thread_by_tid t s
      in if smp (cfg s) \<and> th \<noteq> NULL \<and> cpu (tcb s th) \<noteq> word_of_nat (cpu_id s)
         then ulmk_xcall (unat (cpu (tcb s th))) (thread_kill_local t) s
         else thread_kill_local t s)"

definition ulmk_kern_thread_suspend :: "u32 \<Rightarrow> kstate \<Rightarrow> u32 \<times> kstate" where
  "ulmk_kern_thread_suspend t s =
     (let th = ulmk_thread_by_tid t s
      in if th = NULL then (ret_u32 ULMK_ESRCH, s)
         else if state (tcb s th) = DEAD then (ret_u32 ULMK_EINVAL, s)
         else (0, ulmk_sched_dequeue th (upd_tcb th (\<lambda>x. x\<lparr>state := SUSPENDED\<rparr>) s)))"

definition ulmk_kern_thread_resume :: "u32 \<Rightarrow> kstate \<Rightarrow> u32 \<times> kstate" where
  "ulmk_kern_thread_resume t s =
     (let th = ulmk_thread_by_tid t s
      in if th = NULL then (ret_u32 ULMK_ESRCH, s)
         else if state (tcb s th) \<noteq> SUSPENDED then (ret_u32 ULMK_EINVAL, s)
         else (0, ulmk_sched_enqueue th s))"

definition ulmk_kern_thread_set_prio :: "u32 \<Rightarrow> u32 \<Rightarrow> kstate \<Rightarrow> u32 \<times> kstate" where
  "ulmk_kern_thread_set_prio t prio s =
     (let th = ulmk_thread_by_tid t s
      in if th = NULL then (ret_u32 ULMK_ESRCH, s)
         else if state (tcb s th) = READY
         then (0, ulmk_sched_enqueue th
                    (upd_tcb th (\<lambda>x. x\<lparr>priority := ucast prio\<rparr>) (ulmk_sched_dequeue th s)))
         else (0, upd_tcb th (\<lambda>x. x\<lparr>priority := ucast prio\<rparr>) s))"

definition ulmk_kern_thread_get_prio :: "u32 \<Rightarrow> kstate \<Rightarrow> u32 \<times> kstate" where
  "ulmk_kern_thread_get_prio t s =
     (let th = ulmk_thread_by_tid t s
      in if th = NULL \<or> state (tcb s th) = DEAD then (ret_u32 ULMK_ESRCH, s)
         else (ucast (priority (tcb s th)), s))"

definition ulmk_kern_cap_grant :: "u32 \<Rightarrow> u32 \<Rightarrow> kstate \<Rightarrow> u32 \<times> kstate" where
  "ulmk_kern_cap_grant target_tid caps s =
     (let cur = ulmk_sched_current s; target = ulmk_thread_by_tid target_tid s
      in if cur = NULL \<or> target = NULL then (ret_u32 ULMK_ESRCH, s)
         else if cap_flags (tcb s cur) AND ucast caps \<noteq> ucast caps then (ret_u32 ULMK_EPERM, s)
         else (ret_u32 ULMK_OK, upd_tcb target (\<lambda>x. x\<lparr>cap_flags := cap_flags x OR ucast caps\<rparr>) s))"

end
