(* ===== verification/Irq.thy ===== *)
theory Irq
  imports Thread
begin

text \<open>
  Interrupt routing, \<^verbatim>\<open>kernel/irq/irq.c\<close>: the binding table, the system calls on it, the dispatch of an
  interrupt to a notification or an attached callback, and the fault path of a callback. A pointer into the
  table is an index.
\<close>

abbreviation ULMK_CONFIG_MAX_IRQ_BINDINGS :: nat where "ULMK_CONFIG_MAX_IRQ_BINDINGS \<equiv> 16"

definition board_irq_connect :: "u8 \<Rightarrow> kstate \<Rightarrow> kstate" where
  "board_irq_connect srpn s = (if board_irq_ctrl (cfg s) then emit (EvBoardIrqConnect srpn) s else s)"

definition board_irq_disconnect :: "u8 \<Rightarrow> kstate \<Rightarrow> kstate" where
  "board_irq_disconnect srpn s = (if board_irq_ctrl (cfg s) then emit (EvBoardIrqDisconnect srpn) s else s)"

definition upd_binding :: "nat \<Rightarrow> (irq_binding \<Rightarrow> irq_binding) \<Rightarrow> kstate \<Rightarrow> kstate" where
  "upd_binding i f s = s\<lparr>irq_table := (irq_table s)[i := f (irq_table s ! i)]\<rparr>"

definition ulmk_irq_table_init :: "kstate \<Rightarrow> kstate" where
  "ulmk_irq_table_init s = s\<lparr>irq_table := replicate ULMK_CONFIG_MAX_IRQ_BINDINGS binding_zero\<rparr>"

definition ulmk_irq_in_attach :: "kstate \<Rightarrow> bool" where
  "ulmk_irq_in_attach s = in_irq_attach (ulmk_percpu s)"

definition ulmk_irq_binding_add :: "u8 \<Rightarrow> addr \<Rightarrow> u32 \<Rightarrow> kstate \<Rightarrow> int \<times> kstate" where
  "ulmk_irq_binding_add srpn notif b s =
     (let s = lock LIrq s;
          (ret, s) =
            (case find (\<lambda>i. b_notif (irq_table s ! i) = NULL) [0..<ULMK_CONFIG_MAX_IRQ_BINDINGS] of
               None \<Rightarrow> (-1, s)
             | Some i \<Rightarrow>
                 (int i, upd_binding i (\<lambda>_. \<lparr>b_srpn = srpn, b_notif = notif, b_bit = b, b_enabled = False,
                    b_attach_fn = NULL, b_attach_data = NULL, b_owner = NULL, b_owned_notif = False\<rparr>) s))
      in (ret, unlock LIrq s))"

definition ulmk_irq_binding_by_srpn :: "u8 \<Rightarrow> kstate \<Rightarrow> nat option" where
  "ulmk_irq_binding_by_srpn srpn s =
     find (\<lambda>i. b_notif (irq_table s ! i) \<noteq> NULL \<and> b_srpn (irq_table s ! i) = srpn)
       [0..<ULMK_CONFIG_MAX_IRQ_BINDINGS]"

definition irq_binding_clear :: "nat \<Rightarrow> kstate \<Rightarrow> kstate" where
  "irq_binding_clear i s = upd_binding i (\<lambda>_. binding_zero) s"

definition irq_attach_common :: "u32 \<Rightarrow> u32 \<Rightarrow> u32 \<Rightarrow> u32 \<Rightarrow> bool \<Rightarrow> kstate \<Rightarrow> u32 \<times> kstate" where
  "irq_attach_common srpn fn_addr data_addr src_reg have_src s =
     (if \<not> irq_attach_enabled (cfg s) then (ret_u32 ULMK_ENOTSUP, s)
      else if srpn = 0 \<or> srpn \<ge> 256 \<or> fn_addr = 0 then (ULMK_NOTIF_INVALID, s)
      else if have_src \<and> src_reg = 0 then (ULMK_NOTIF_INVALID, s)
      else if ulmk_irq_binding_by_srpn (ucast srpn) s \<noteq> None then (ULMK_NOTIF_INVALID, s)
      else
        let cur = ulmk_sched_current s
        in if cur = NULL then (ULMK_NOTIF_INVALID, s)
           else
             let (nid, s) = ulmk_kern_notif_create s
             in if nid = ULMK_NOTIF_INVALID then (ULMK_NOTIF_INVALID, s)
                else
                  let notif = ulmk_notif_by_id nid s
                  in if notif = NULL then (ULMK_NOTIF_INVALID, snd (ulmk_kern_notif_destroy nid s))
                     else
                       let (ret, s) = ulmk_irq_binding_add (ucast srpn) notif 0 s
                       in if ret < 0 then (ULMK_NOTIF_INVALID, snd (ulmk_kern_notif_destroy nid s))
                          else
                            let s = upd_binding (nat ret) (\<lambda>b. b\<lparr>b_attach_fn := fn_addr,
                                      b_attach_data := data_addr, b_owner := cur, b_owned_notif := True\<rparr>) s;
                                s = board_irq_connect (ucast srpn) s;
                                s = (if have_src then emit (EvIrqRegister (ucast srpn) src_reg) s
                                     else emit (EvIrqConfigure (ucast srpn)) s)
                            in (nid, s))"

definition ulmk_kern_irq_bind :: "u32 \<Rightarrow> u32 \<Rightarrow> u32 \<Rightarrow> kstate \<Rightarrow> u32 \<times> kstate" where
  "ulmk_kern_irq_bind srpn notif_i b s =
     (if srpn = 0 \<or> srpn \<ge> 256 \<or> b > 31 then (ret_u32 ULMK_EINVAL, s)
      else if ulmk_irq_binding_by_srpn (ucast srpn) s \<noteq> None then (ret_u32 ULMK_EINVAL, s)
      else
        let notif = ulmk_notif_by_id notif_i s
        in if notif = NULL then (ret_u32 ULMK_EINVAL, s)
           else
             let (ret, s) = ulmk_irq_binding_add (ucast srpn) notif b s
             in if ret < 0 then (ret_u32 ULMK_ENOSPC, s)
                else (0, emit (EvIrqConfigure (ucast srpn)) (board_irq_connect (ucast srpn) s)))"

definition ulmk_kern_irq_bind_hw :: "u32 \<Rightarrow> u32 \<Rightarrow> u32 \<Rightarrow> u32 \<Rightarrow> kstate \<Rightarrow> u32 \<times> kstate" where
  "ulmk_kern_irq_bind_hw srpn notif_i b src_reg s =
     (if srpn = 0 \<or> srpn \<ge> 256 \<or> b > 31 \<or> src_reg = 0 then (ret_u32 ULMK_EINVAL, s)
      else if ulmk_irq_binding_by_srpn (ucast srpn) s \<noteq> None then (ret_u32 ULMK_EINVAL, s)
      else
        let notif = ulmk_notif_by_id notif_i s
        in if notif = NULL then (ret_u32 ULMK_EINVAL, s)
           else
             let (ret, s) = ulmk_irq_binding_add (ucast srpn) notif b s
             in if ret < 0 then (ret_u32 ULMK_ENOSPC, s)
                else (0, emit (EvIrqRegister (ucast srpn) src_reg) (board_irq_connect (ucast srpn) s)))"

definition ulmk_kern_irq_attach :: "u32 \<Rightarrow> u32 \<Rightarrow> u32 \<Rightarrow> kstate \<Rightarrow> u32 \<times> kstate" where
  "ulmk_kern_irq_attach srpn fn data s = irq_attach_common srpn fn data 0 False s"

definition ulmk_kern_irq_attach_hw :: "u32 \<Rightarrow> u32 \<Rightarrow> u32 \<Rightarrow> u32 \<Rightarrow> kstate \<Rightarrow> u32 \<times> kstate" where
  "ulmk_kern_irq_attach_hw srpn fn data src_reg s = irq_attach_common srpn fn data src_reg True s"

definition ulmk_kern_irq_detach :: "u32 \<Rightarrow> kstate \<Rightarrow> u32 \<times> kstate" where
  "ulmk_kern_irq_detach srpn s =
     (if \<not> irq_attach_enabled (cfg s) then (ret_u32 ULMK_ENOTSUP, s)
      else if srpn = 0 \<or> srpn \<ge> 256 then (ret_u32 ULMK_EINVAL, s)
      else case ulmk_irq_binding_by_srpn (ucast srpn) s of
             None \<Rightarrow> (ret_u32 ULMK_EINVAL, s)
           | Some i \<Rightarrow>
               (if b_attach_fn (irq_table s ! i) = NULL then (ret_u32 ULMK_EINVAL, s)
                else
                  let s = upd_binding i (\<lambda>b. b\<lparr>b_enabled := False\<rparr>) s;
                      s = emit (EvIrqDisable (ucast srpn)) s;
                      s = emit (EvIrqAck (ucast srpn)) s;
                      s = board_irq_disconnect (ucast srpn) s;
                      b = irq_table s ! i;
                      nid = (if b_notif b \<noteq> NULL then n_id (notifs s (b_notif b)) else ULMK_NOTIF_INVALID);
                      s = irq_binding_clear i s;
                      s = (if b_owned_notif b \<and> nid \<noteq> ULMK_NOTIF_INVALID
                           then snd (ulmk_kern_notif_destroy nid s) else s)
                  in (0, s)))"

definition ulmk_kern_irq_enable :: "u32 \<Rightarrow> kstate \<Rightarrow> u32 \<times> kstate" where
  "ulmk_kern_irq_enable srpn s =
     (if srpn = 0 \<or> srpn \<ge> 256 then (ret_u32 ULMK_EINVAL, s)
      else case ulmk_irq_binding_by_srpn (ucast srpn) s of
             None \<Rightarrow> (ret_u32 ULMK_EINVAL, s)
           | Some i \<Rightarrow> (0, emit (EvIrqEnable (ucast srpn)) (upd_binding i (\<lambda>b. b\<lparr>b_enabled := True\<rparr>) s)))"

definition ulmk_kern_irq_disable :: "u32 \<Rightarrow> kstate \<Rightarrow> u32 \<times> kstate" where
  "ulmk_kern_irq_disable srpn s =
     (if srpn = 0 \<or> srpn \<ge> 256 then (ret_u32 ULMK_EINVAL, s)
      else case ulmk_irq_binding_by_srpn (ucast srpn) s of
             None \<Rightarrow> (ret_u32 ULMK_EINVAL, s)
           | Some i \<Rightarrow> (0, emit (EvIrqAck (ucast srpn)) (emit (EvIrqDisable (ucast srpn))
                          (upd_binding i (\<lambda>b. b\<lparr>b_enabled := False\<rparr>) s))))"

definition ulmk_kern_irq_ack :: "u32 \<Rightarrow> kstate \<Rightarrow> u32 \<times> kstate" where
  "ulmk_kern_irq_ack srpn s =
     (if srpn = 0 \<or> srpn \<ge> 256 then (ret_u32 ULMK_EINVAL, s)
      else case ulmk_irq_binding_by_srpn (ucast srpn) s of
             None \<Rightarrow> (ret_u32 ULMK_EINVAL, s)
           | Some i \<Rightarrow>
               (let s = emit (EvIrqAck (ucast srpn)) s;
                    b = irq_table s ! i
                in (0, if b_enabled b \<and> b_attach_fn b = NULL then emit (EvIrqEnable (ucast srpn)) s else s)))"

definition ulmk_kern_irq_attach_fault :: "kstate \<Rightarrow> kstate" where
  "ulmk_kern_irq_attach_fault s =
     (let owner = irq_attach_owner (ulmk_percpu s);
          srpn = irq_attach_srpn (ulmk_percpu s);
          s = upd_this_cpu (\<lambda>pc. pc\<lparr>in_irq_attach := False, irq_attach_owner := NULL, irq_attach_srpn := 0\<rparr>) s;
          s = (case ulmk_irq_binding_by_srpn srpn s of
                 None \<Rightarrow> s
               | Some i \<Rightarrow>
                   (let s = upd_binding i (\<lambda>b. b\<lparr>b_enabled := False\<rparr>) s;
                        s = emit (EvIrqDisable srpn) s;
                        s = emit (EvIrqAck srpn) s;
                        b = irq_table s ! i;
                        nid = (if b_notif b \<noteq> NULL then n_id (notifs s (b_notif b)) else ULMK_NOTIF_INVALID);
                        s = irq_binding_clear i s
                    in if b_owned_notif b \<and> nid \<noteq> ULMK_NOTIF_INVALID
                       then snd (ulmk_kern_notif_destroy nid s) else s));
          s = (if owner \<noteq> NULL \<and> state (tcb s owner) \<noteq> DEAD
               then
                 let s = upd_tcb owner (\<lambda>x. x\<lparr>state := DEAD\<rparr>) s;
                     s = ulmk_sched_dequeue owner s
                 in ulmk_sched_set_dead_for_cleanup owner s
               else s);
          s = emit (EvMpuSwitch None False) s
      in ulmk_sched_resched s)"

definition ulmk_kern_irq_dispatch :: "u8 \<Rightarrow> kstate \<Rightarrow> kstate" where
  "ulmk_kern_irq_dispatch srpn s =
     (case ulmk_irq_binding_by_srpn srpn s of
        None \<Rightarrow> s
      | Some i \<Rightarrow>
          (let b = irq_table s ! i
           in if \<not> b_enabled b \<or> b_notif b = NULL then s
              else if b_attach_fn b \<noteq> NULL
              then
                (if irq_attach_enabled (cfg s)
                 then
                   let s = upd_this_cpu (\<lambda>pc. pc\<lparr>irq_attach_owner := b_owner b, irq_attach_srpn := srpn,
                             in_irq_attach := True\<rparr>) s;
                       s = emit (EvAttachCall (b_attach_fn b) (b_attach_data b)) s;
                       do_notify = attach_call (cfg s) (b_attach_fn b) (b_attach_data b);
                       s = upd_this_cpu (\<lambda>pc. pc\<lparr>in_irq_attach := False, irq_attach_owner := NULL,
                             irq_attach_srpn := 0\<rparr>) s
                   in if do_notify
                      then
                        let s = emit (EvIrqAck srpn) s
                        in snd (notif_signal_impl (n_id (notifs s (b_notif b))) (push_bit (unat (b_bit b)) 1) s)
                      else s
                 else snd (notif_signal_impl (n_id (notifs s (b_notif b))) (push_bit (unat (b_bit b)) 1) s))
              else
                let s = emit (EvIrqDisable srpn) s
                in snd (notif_signal_impl (n_id (notifs s (b_notif b))) (push_bit (unat (b_bit b)) 1) s)))"

end
