(* ===== verification/Sleep.thy ===== *)
theory Sleep
  imports Thread_Registry
begin

text \<open>
  \<^verbatim>\<open>kernel/time/sleep.c\<close>: the sleep system calls and the callback that wakes a sleeper. The
  conversion to ticks and the arming of timers are in theory Timer\_Wheel.
\<close>

definition sleep_timeout_cb :: "addr \<Rightarrow> kstate \<Rightarrow> kstate" where
  "sleep_timeout_cb th s =
     (let s = lock LThread s
      in if th = NULL \<or> state (tcb s th) \<noteq> BLOCKED \<or> blocked_reason (tcb s th) \<noteq> BLOCKED_SLEEP
         then unlock LThread s
         else
           let s = upd_tcb th (\<lambda>x. x\<lparr>block_status := ULMK_OK, blocked_reason := BLOCKED_NONE, state := READY\<rparr>) s;
               s = ulmk_sched_enqueue th s;
               s = unlock LThread s
           in ulmk_sched_kick_pending (ulmk_sched_request_resched s))"

definition ulmk_kern_sleep :: "u32 \<Rightarrow> kstate \<Rightarrow> u32 \<times> kstate" where
  "ulmk_kern_sleep ms s =
     (if ulmk_ms_to_ticks ms s = 0 then (ret_u32 ULMK_EINVAL, s)
      else
        let cur = ulmk_sched_current s
        in if cur = NULL then (ret_u32 ULMK_EINVAL, s)
           else
             let s = lock LThread s;
                 s = upd_tcb cur (\<lambda>x. x\<lparr>blocked_reason := BLOCKED_SLEEP, block_status := 0, state := BLOCKED\<rparr>) s;
                 s = ulmk_sched_dequeue cur s;
                 s = unlock LThread s;
                 (rc, s) = ulmk_timeout_arm cur ms sleep_timeout_CB s
             in if rc \<noteq> ULMK_OK
                then
                  let s = lock LThread s;
                      s = (if state (tcb s cur) = BLOCKED \<and> blocked_reason (tcb s cur) = BLOCKED_SLEEP
                           then ulmk_sched_enqueue cur
                                  (upd_tcb cur (\<lambda>x. x\<lparr>state := READY, blocked_reason := BLOCKED_NONE\<rparr>) s)
                           else s);
                      s = unlock LThread s
                  in (ret_u32 ULMK_EINVAL, ulmk_sched_kick_pending s)
                else (0, s))"

definition ulmk_kern_sleep_cancel :: "u32 \<Rightarrow> kstate \<Rightarrow> u32 \<times> kstate" where
  "ulmk_kern_sleep_cancel t s =
     (let th = ulmk_thread_by_tid t s
      in if th = NULL then (ret_u32 ULMK_ESRCH, s)
         else
           let s = lock LThread s
           in if state (tcb s th) \<noteq> BLOCKED \<or> blocked_reason (tcb s th) \<noteq> BLOCKED_SLEEP
              then (ret_u32 ULMK_EINVAL, unlock LThread s)
              else
                let s = upd_tcb th (\<lambda>x. x\<lparr>block_status := ULMK_ECANCELED, blocked_reason := BLOCKED_NONE,
                          state := READY\<rparr>) s;
                    s = ulmk_sched_enqueue th s;
                    s = unlock LThread s;
                    s = ulmk_timeout_disarm th s;
                    s = ulmk_sched_request_resched s
                in (ret_u32 ULMK_OK, ulmk_sched_kick_pending s))"

end
