(* ===== verification/Syscall.thy ===== *)
theory Syscall
  imports Irq Sleep
begin

text \<open>
  The system-call router, \<^verbatim>\<open>kernel/syscall/syscall_router.c\<close>, with its privilege and capability gates,
  and the entries of \<^verbatim>\<open>kernel/kernel_main.c\<close>: the timer tick with the real timeout callbacks, the return
  value of a resumed thread, the fault path and the boot sequence. The WCET instrumentation
  (\<^verbatim>\<open>ULMK_CONFIG_SYSCALL_WCET\<close>) is off, which is the default.
\<close>

section \<open>Arch callbacks\<close>

text \<open>The function pointer stored in a timeout.\<close>

definition run_timeout_cb :: "timeout_cb \<Rightarrow> addr \<Rightarrow> kstate \<Rightarrow> kstate" where
  "run_timeout_cb c th s =
     (case c of
        CB_NULL \<Rightarrow> s
      | sleep_timeout_CB \<Rightarrow> sleep_timeout_cb th s
      | ep_call_timeout_CB \<Rightarrow> ep_call_timeout_cb th s
      | notif_wait_timeout_CB \<Rightarrow> notif_wait_timeout_cb th s)"

definition ulmk_kern_sched_dispatch :: "bool \<Rightarrow> kstate \<Rightarrow> kstate" where
  "ulmk_kern_sched_dispatch from_isr s = ulmk_sched_trap_dispatch from_isr s"

text \<open>Serving the cross-call slot happens inside \<open>ulmk_xcall\<close> of the caller in this model, so the
  interrupt handlers find the slot empty.\<close>

definition ulmk_kern_ipi_resched :: "kstate \<Rightarrow> kstate" where
  "ulmk_kern_ipi_resched s = ulmk_sched_request_resched s"

definition ulmk_kern_ipi_from_isr :: "kstate \<Rightarrow> kstate" where
  "ulmk_kern_ipi_from_isr s =
     (let s = ulmk_sched_request_resched s
      in if ulmk_sched_current s = NULL then s
         else ulmk_kern_sched_dispatch True (emit EvIpiNote s))"

definition ulmk_kern_timer_pulse :: "kstate \<Rightarrow> kstate" where
  "ulmk_kern_timer_pulse s = ulmk_timer_tick run_timeout_cb s"

definition ulmk_kern_timer_tick :: "kstate \<Rightarrow> kstate" where
  "ulmk_kern_timer_tick s =
     (let s = ulmk_kern_timer_pulse (emit EvTickAck s)
      in if ulmk_sched_current s = NULL then s else ulmk_kern_sched_dispatch True s)"

definition ulmk_kern_tick_start :: "kstate \<Rightarrow> u32 \<times> kstate" where
  "ulmk_kern_tick_start s =
     (ret_u32 ULMK_OK,
      if tick_started s then s else emit (EvTickInit (tick_hz (cfg s))) (s\<lparr>tick_started := True\<rparr>))"

definition ulmk_kern_syscall_ret_resolve :: "u32 \<Rightarrow> kstate \<Rightarrow> u32 \<times> kstate" where
  "ulmk_kern_syscall_ret_resolve ret s =
     (let cur = ulmk_sched_current s
      in if cur = NULL then (ret, s)
         else if block_status (tcb s cur) \<noteq> 0
         then (ret_u32 (block_status (tcb s cur)),
               upd_tcb cur (\<lambda>x. x\<lparr>block_status := 0, syscall_wake_ret_valid := False, ipc_msg_outptr := NULL,
                 ipc_sender_outptr := NULL, notif_bits_outptr := NULL, rn_result_outptr := NULL\<rparr>) s)
         else if syscall_wake_ret_valid (tcb s cur)
         then (ret_u32 (syscall_wake_ret (tcb s cur)), upd_tcb cur (\<lambda>x. x\<lparr>syscall_wake_ret_valid := False\<rparr>) s)
         else (ret, s))"

definition ulmk_kern_trap_mpu_restore :: "kstate \<Rightarrow> kstate" where
  "ulmk_kern_trap_mpu_restore s =
     (let cur = ulmk_sched_current s in if cur \<noteq> NULL then ulmk_sched_mpu_switch cur s else s)"

text \<open>The endless loops behind a fault: the faulting context spins unless another thread took over.\<close>

definition spin_unless_switched :: "addr \<Rightarrow> kstate \<Rightarrow> kstate" where
  "spin_unless_switched cur s = (if ulmk_sched_current s \<noteq> cur then s else s\<lparr>hang := True\<rparr>)"

definition ulmk_kern_trap_recoverable :: "kstate \<Rightarrow> kstate" where
  "ulmk_kern_trap_recoverable s =
     (let cur = ulmk_sched_current s
      in if ulmk_irq_in_attach s then spin_unless_switched cur (ulmk_kern_irq_attach_fault s)
         else
           let s = (if cur \<noteq> NULL
                    then
                      let s = upd_tcb cur (\<lambda>x. x\<lparr>state := DEAD\<rparr>) s;
                          s = ulmk_sched_dequeue cur s;
                          s = ulmk_sched_set_dead_for_cleanup cur s
                      in ulmk_sched_resched s
                    else s)
           in if ulmk_sched_current s \<noteq> cur then s
              else spin_unless_switched cur (ulmk_kern_sched_dispatch False s))"

definition ulmk_kern_trap_panic :: "kstate \<Rightarrow> kstate" where
  "ulmk_kern_trap_panic s = s\<lparr>hang := True\<rparr>"

section \<open>The router\<close>

abbreviation ULMK_SYS_MMAP :: u32 where "ULMK_SYS_MMAP \<equiv> 1"
abbreviation ULMK_SYS_MUNMAP :: u32 where "ULMK_SYS_MUNMAP \<equiv> 2"
abbreviation ULMK_SYS_MEM_GRANT :: u32 where "ULMK_SYS_MEM_GRANT \<equiv> 3"
abbreviation ULMK_SYS_DCACHE_CLEAN :: u32 where "ULMK_SYS_DCACHE_CLEAN \<equiv> 4"
abbreviation ULMK_SYS_DCACHE_INVALIDATE :: u32 where "ULMK_SYS_DCACHE_INVALIDATE \<equiv> 5"
abbreviation ULMK_SYS_DCACHE_CLEAN_INV :: u32 where "ULMK_SYS_DCACHE_CLEAN_INV \<equiv> 6"
abbreviation ULMK_SYS_MEM_REVOKE :: u32 where "ULMK_SYS_MEM_REVOKE \<equiv> 9"
abbreviation ULMK_SYS_YIELD :: u32 where "ULMK_SYS_YIELD \<equiv> 10"
abbreviation ULMK_SYS_EXIT :: u32 where "ULMK_SYS_EXIT \<equiv> 11"
abbreviation ULMK_SYS_SLEEP :: u32 where "ULMK_SYS_SLEEP \<equiv> 12"
abbreviation ULMK_SYS_SLEEP_CANCEL :: u32 where "ULMK_SYS_SLEEP_CANCEL \<equiv> 13"
abbreviation ULMK_SYS_EP_CALL_TIMEOUT :: u32 where "ULMK_SYS_EP_CALL_TIMEOUT \<equiv> 14"
abbreviation ULMK_SYS_TICK_START :: u32 where "ULMK_SYS_TICK_START \<equiv> 15"
abbreviation ULMK_SYS_THREAD_SELF :: u32 where "ULMK_SYS_THREAD_SELF \<equiv> 20"
abbreviation ULMK_SYS_CPU_ID :: u32 where "ULMK_SYS_CPU_ID \<equiv> 21"
abbreviation ULMK_SYS_WCET_BIND :: u32 where "ULMK_SYS_WCET_BIND \<equiv> 22"
abbreviation ULMK_SYS_EP_CREATE :: u32 where "ULMK_SYS_EP_CREATE \<equiv> 30"
abbreviation ULMK_SYS_EP_CALL :: u32 where "ULMK_SYS_EP_CALL \<equiv> 31"
abbreviation ULMK_SYS_EP_RECV :: u32 where "ULMK_SYS_EP_RECV \<equiv> 32"
abbreviation ULMK_SYS_EP_REPLY :: u32 where "ULMK_SYS_EP_REPLY \<equiv> 33"
abbreviation ULMK_SYS_EP_REPLY_RECV :: u32 where "ULMK_SYS_EP_REPLY_RECV \<equiv> 34"
abbreviation ULMK_SYS_EP_GRANT :: u32 where "ULMK_SYS_EP_GRANT \<equiv> 35"
abbreviation ULMK_SYS_EP_RECV_OR_NOTIF :: u32 where "ULMK_SYS_EP_RECV_OR_NOTIF \<equiv> 36"
abbreviation ULMK_SYS_EP_DESTROY :: u32 where "ULMK_SYS_EP_DESTROY \<equiv> 37"
abbreviation ULMK_SYS_NOTIF_CREATE :: u32 where "ULMK_SYS_NOTIF_CREATE \<equiv> 40"
abbreviation ULMK_SYS_NOTIF_SIGNAL :: u32 where "ULMK_SYS_NOTIF_SIGNAL \<equiv> 41"
abbreviation ULMK_SYS_NOTIF_WAIT :: u32 where "ULMK_SYS_NOTIF_WAIT \<equiv> 42"
abbreviation ULMK_SYS_NOTIF_POLL :: u32 where "ULMK_SYS_NOTIF_POLL \<equiv> 43"
abbreviation ULMK_SYS_NOTIF_DESTROY :: u32 where "ULMK_SYS_NOTIF_DESTROY \<equiv> 44"
abbreviation ULMK_SYS_NOTIF_WAIT_TIMEOUT :: u32 where "ULMK_SYS_NOTIF_WAIT_TIMEOUT \<equiv> 45"
abbreviation ULMK_SYS_IRQ_BIND :: u32 where "ULMK_SYS_IRQ_BIND \<equiv> 60"
abbreviation ULMK_SYS_IRQ_ENABLE :: u32 where "ULMK_SYS_IRQ_ENABLE \<equiv> 61"
abbreviation ULMK_SYS_IRQ_DISABLE :: u32 where "ULMK_SYS_IRQ_DISABLE \<equiv> 62"
abbreviation ULMK_SYS_IRQ_ACK :: u32 where "ULMK_SYS_IRQ_ACK \<equiv> 63"
abbreviation ULMK_SYS_IRQ_BIND_HW :: u32 where "ULMK_SYS_IRQ_BIND_HW \<equiv> 64"
abbreviation ULMK_SYS_IRQ_ATTACH :: u32 where "ULMK_SYS_IRQ_ATTACH \<equiv> 65"
abbreviation ULMK_SYS_IRQ_ATTACH_HW :: u32 where "ULMK_SYS_IRQ_ATTACH_HW \<equiv> 66"
abbreviation ULMK_SYS_IRQ_DETACH :: u32 where "ULMK_SYS_IRQ_DETACH \<equiv> 67"
abbreviation ULMK_SYS_THREAD_SPAWN :: u32 where "ULMK_SYS_THREAD_SPAWN \<equiv> 70"
abbreviation ULMK_SYS_THREAD_KILL :: u32 where "ULMK_SYS_THREAD_KILL \<equiv> 71"
abbreviation ULMK_SYS_THREAD_SUSPEND :: u32 where "ULMK_SYS_THREAD_SUSPEND \<equiv> 72"
abbreviation ULMK_SYS_THREAD_RESUME :: u32 where "ULMK_SYS_THREAD_RESUME \<equiv> 73"
abbreviation ULMK_SYS_THREAD_SET_PRIO :: u32 where "ULMK_SYS_THREAD_SET_PRIO \<equiv> 74"
abbreviation ULMK_SYS_THREAD_GET_PRIO :: u32 where "ULMK_SYS_THREAD_GET_PRIO \<equiv> 75"
abbreviation ULMK_SYS_PROC_GRANT_CAP :: u32 where "ULMK_SYS_PROC_GRANT_CAP \<equiv> 83"
abbreviation ULMK_SYS_MAX :: u32 where "ULMK_SYS_MAX \<equiv> 128"

definition caller_priv :: "kstate \<Rightarrow> ulmk_privilege" where
  "caller_priv s =
     (let t = ulmk_sched_current s in if t \<noteq> NULL then privilege (tcb s t) else ULMK_PRIV_USER)"

text \<open>The macros \<^verbatim>\<open>REQUIRE_DRIVER\<close> and \<^verbatim>\<open>REQUIRE_CAP\<close>, with the rest of the case as their last argument.\<close>

definition require_driver :: "kstate \<Rightarrow> u32 \<times> kstate \<Rightarrow> u32 \<times> kstate" where
  "require_driver s r = (if caller_priv s < ULMK_PRIV_DRIVER then (ret_u32 ULMK_EPERM, s) else r)"

definition require_cap :: "u32 \<Rightarrow> kstate \<Rightarrow> u32 \<times> kstate \<Rightarrow> u32 \<times> kstate" where
  "require_cap cap s r =
     (let t = ulmk_sched_current s
      in if t = NULL \<or> ucast (cap_flags (tcb s t)) AND cap = 0 then (ret_u32 ULMK_EPERM, s) else r)"

definition mmap_gate :: "u32 \<Rightarrow> kstate \<Rightarrow> u32 \<times> kstate \<Rightarrow> u32 \<times> kstate" where
  "mmap_gate fl s r =
     (let r = (if fl AND ULMK_MMAP_ANON \<noteq> 0 then require_cap ULMK_CAP_HEAP s r else r);
          r = (if fl AND ULMK_MMAP_SHARED \<noteq> 0 then require_cap ULMK_CAP_MAP_SHARED s r else r)
      in if fl AND ULMK_MMAP_PERIPH \<noteq> 0 then require_cap ULMK_CAP_MAP_PERIPH s r else r)"

definition dcache_op :: "arch_ev \<Rightarrow> kstate \<Rightarrow> u32 \<times> kstate" where
  "dcache_op ev s = (if has_cache (cfg s) then (ret_u32 ULMK_OK, emit ev s) else (ret_u32 ULMK_ENOTSUP, s))"

definition ulmk_kern_wcet_bind :: "u32 \<Rightarrow> kstate \<Rightarrow> u32 \<times> kstate" where
  "ulmk_kern_wcet_bind slot_ptr s = (ret_u32 ULMK_EINVAL, s)"

definition ulmk_syscall_router :: "u32 \<Rightarrow> u32 \<Rightarrow> u32 \<Rightarrow> u32 \<Rightarrow> u32 \<Rightarrow> kstate \<Rightarrow> u32 \<times> kstate" where
  "ulmk_syscall_router nr a0 a1 a2 a3 s =
     (if nr = 0 \<or> nr \<ge> ULMK_SYS_MAX then (ret_u32 ULMK_EINVAL, s)
      else if ulmk_irq_in_attach s then (ret_u32 ULMK_EPERM, s)
      else if nr = ULMK_SYS_MMAP then mmap_gate a3 s (ulmk_kern_mem_map a0 a1 a2 a3 s)
      else if nr = ULMK_SYS_MUNMAP then ulmk_kern_mem_unmap a0 a1 s
      else if nr = ULMK_SYS_MEM_GRANT then ulmk_kern_mem_grant a0 a1 a2 a3 s
      else if nr = ULMK_SYS_MEM_REVOKE then ulmk_kern_mem_revoke a0 a1 s
      else if nr = ULMK_SYS_DCACHE_CLEAN then require_driver s (dcache_op (EvDcacheClean a0 a1) s)
      else if nr = ULMK_SYS_DCACHE_INVALIDATE then require_driver s (dcache_op (EvDcacheInvalidate a0 a1) s)
      else if nr = ULMK_SYS_DCACHE_CLEAN_INV then require_driver s (dcache_op (EvDcacheCleanInv a0 a1) s)
      else if nr = ULMK_SYS_YIELD then ulmk_kern_yield s
      else if nr = ULMK_SYS_EXIT then ulmk_kern_exit s
      else if nr = ULMK_SYS_SLEEP then ulmk_kern_sleep a0 s
      else if nr = ULMK_SYS_SLEEP_CANCEL then require_driver s (ulmk_kern_sleep_cancel a0 s)
      else if nr = ULMK_SYS_EP_CALL_TIMEOUT then ulmk_kern_ep_call_timeout a0 a1 a2 s
      else if nr = ULMK_SYS_TICK_START then require_driver s (ulmk_kern_tick_start s)
      else if nr = ULMK_SYS_THREAD_SELF then ulmk_kern_thread_self s
      else if nr = ULMK_SYS_CPU_ID then (word_of_nat (cpu_id s), s)
      else if nr = ULMK_SYS_WCET_BIND then ulmk_kern_wcet_bind a0 s
      else if nr = ULMK_SYS_EP_CREATE then ulmk_kern_ep_create s
      else if nr = ULMK_SYS_EP_CALL then ulmk_kern_ep_call a0 a1 s
      else if nr = ULMK_SYS_EP_RECV then ulmk_kern_ep_recv a0 a1 a2 s
      else if nr = ULMK_SYS_EP_REPLY then ulmk_kern_ep_reply a0 a1 s
      else if nr = ULMK_SYS_EP_REPLY_RECV then ulmk_kern_ep_reply_recv a0 a1 a2 s
      else if nr = ULMK_SYS_EP_GRANT then ulmk_kern_ep_grant a0 a1 s
      else if nr = ULMK_SYS_EP_RECV_OR_NOTIF then ulmk_kern_ep_recv_or_notif a0 a1 a2 a3 s
      else if nr = ULMK_SYS_EP_DESTROY then ulmk_kern_ep_destroy a0 s
      else if nr = ULMK_SYS_NOTIF_CREATE then ulmk_kern_notif_create s
      else if nr = ULMK_SYS_NOTIF_SIGNAL then ulmk_kern_notif_signal a0 a1 s
      else if nr = ULMK_SYS_NOTIF_WAIT then ulmk_kern_notif_wait a0 a1 a2 s
      else if nr = ULMK_SYS_NOTIF_WAIT_TIMEOUT then ulmk_kern_notif_wait_timeout a0 a1 a2 a3 s
      else if nr = ULMK_SYS_NOTIF_POLL then ulmk_kern_notif_poll a0 a1 s
      else if nr = ULMK_SYS_NOTIF_DESTROY then ulmk_kern_notif_destroy a0 s
      else if nr = ULMK_SYS_IRQ_BIND then require_driver s (require_cap ULMK_CAP_IRQ s (ulmk_kern_irq_bind a0 a1 a2 s))
      else if nr = ULMK_SYS_IRQ_ENABLE then require_driver s (ulmk_kern_irq_enable a0 s)
      else if nr = ULMK_SYS_IRQ_DISABLE then require_driver s (ulmk_kern_irq_disable a0 s)
      else if nr = ULMK_SYS_IRQ_ACK then require_driver s (ulmk_kern_irq_ack a0 s)
      else if nr = ULMK_SYS_IRQ_BIND_HW then require_driver s (require_cap ULMK_CAP_IRQ s (ulmk_kern_irq_bind_hw a0 a1 a2 a3 s))
      else if nr = ULMK_SYS_IRQ_ATTACH then require_driver s (require_cap ULMK_CAP_IRQ s (ulmk_kern_irq_attach a0 a1 a2 s))
      else if nr = ULMK_SYS_IRQ_ATTACH_HW then require_driver s (require_cap ULMK_CAP_IRQ s (ulmk_kern_irq_attach_hw a0 a1 a2 a3 s))
      else if nr = ULMK_SYS_IRQ_DETACH then require_driver s (require_cap ULMK_CAP_IRQ s (ulmk_kern_irq_detach a0 s))
      else if nr = ULMK_SYS_THREAD_SPAWN then require_driver s (require_cap ULMK_CAP_SPAWN s (ulmk_kern_thread_spawn a0 s))
      else if nr = ULMK_SYS_THREAD_KILL then require_driver s (require_cap ULMK_CAP_KILL s (ulmk_kern_thread_kill a0 s))
      else if nr = ULMK_SYS_THREAD_SUSPEND then require_driver s (ulmk_kern_thread_suspend a0 s)
      else if nr = ULMK_SYS_THREAD_RESUME then require_driver s (ulmk_kern_thread_resume a0 s)
      else if nr = ULMK_SYS_THREAD_SET_PRIO then require_driver s (ulmk_kern_thread_set_prio a0 a1 s)
      else if nr = ULMK_SYS_THREAD_GET_PRIO then require_driver s (ulmk_kern_thread_get_prio a0 s)
      else if nr = ULMK_SYS_PROC_GRANT_CAP then require_driver s (require_cap ULMK_CAP_GRANT_CAP s (ulmk_kern_cap_grant a0 a1 s))
      else (ret_u32 ULMK_EINVAL, s))"

definition ulmk_kern_trap_syscall :: "u8 \<Rightarrow> u32 \<times> u32 \<times> u32 \<times> u32 \<Rightarrow> kstate \<Rightarrow> u32 \<times> kstate" where
  "ulmk_kern_trap_syscall tin args s =
     (case args of (a0, a1, a2, a3) \<Rightarrow> ulmk_syscall_router (ucast tin) a0 a1 a2 a3 s)"

section \<open>Boot\<close>

text \<open>The static objects and linker symbols \<^verbatim>\<open>ulmk_kern_main\<close> refers to.\<close>

record boot_layout =
  bl_idle :: "nat \<Rightarrow> addr"
  bl_idle_stack :: "nat \<Rightarrow> addr"
  bl_root :: addr
  bl_root_stack :: addr
  bl_root_stack_size :: u32
  bl_pool_start :: addr
  bl_pool_end :: addr
  bl_idle_entry :: addr
  bl_root_entry :: addr
  bl_info :: addr

definition idle_attr :: "boot_layout \<Rightarrow> nat \<Rightarrow> kconfig \<Rightarrow> ulmk_thread_attr" where
  "idle_attr bl c cf = \<lparr>at_entry = bl_idle_entry bl, at_arg = NULL, at_priority = 255,
     at_stack_size = 4096 + kstack_size cf, at_privilege = ULMK_PRIV_KERNEL, at_caps = 0,
     at_cpu = word_of_nat c\<rparr>"

definition root_attr :: "boot_layout \<Rightarrow> ulmk_thread_attr" where
  "root_attr bl = \<lparr>at_entry = bl_root_entry bl, at_arg = bl_info bl, at_priority = 0,
     at_stack_size = bl_root_stack_size bl, at_privilege = ULMK_PRIV_DRIVER, at_caps = 0, at_cpu = 0\<rparr>"

definition boot_idle :: "boot_layout \<Rightarrow> nat \<Rightarrow> kstate \<Rightarrow> kstate" where
  "boot_idle bl c s =
     (let s = snd (ulmk_thread_init (bl_idle bl c) (idle_attr bl c (cfg s)) (bl_idle_stack bl c) s);
          s = upd_percpu (percpu_ix c s) (\<lambda>pc. pc\<lparr>idle := bl_idle bl c\<rparr>) s
      in ulmk_sched_enqueue (bl_idle bl c) s)"

definition boot_root :: "boot_layout \<Rightarrow> kstate \<Rightarrow> kstate" where
  "boot_root bl s =
     (let s = snd (ulmk_thread_init (bl_root bl) (root_attr bl) (bl_root_stack bl) s);
          s = upd_tcb (bl_root bl) (\<lambda>x. x\<lparr>cap_flags := ULMK_CAP_ALL\<rparr>) s
      in ulmk_sched_enqueue (bl_root bl) s)"

definition ulmk_kern_main :: "boot_layout \<Rightarrow> kstate \<Rightarrow> kstate" where
  "ulmk_kern_main bl s =
     (let s = ulmk_sched_init s;
          s = ulmk_sched_set_class bitmap_rt_class s;
          s = ulmk_timer_init s;
          s = ulmk_irq_table_init s;
          s = emit EvCpuIrqEnable (emit EvMpuInit s);
          s = s\<lparr>heap := ulmk_heap_init (bl_pool_start bl) (bl_pool_end bl - bl_pool_start bl) (heap s)\<rparr>;
          s = fold (boot_idle bl) [0..<nr_cpus (cfg s)] s;
          s = boot_root bl s;
          s = emit EvSmpReady (emit EvMpuEnable s);
          s = (if smp (cfg s) then fold (\<lambda>c. emit (EvStartSecondary c)) [1..<nr_cpus (cfg s)] s else s)
      in ulmk_sched_start s)"

definition ulmk_kern_secondary_main :: "kstate \<Rightarrow> kstate" where
  "ulmk_kern_secondary_main s =
     (if smp (cfg s)
      then ulmk_sched_start (emit (EvTickInit (tick_hz (cfg s))) (emit EvSecondaryInit s))
      else s\<lparr>hang := True\<rparr>)"

end
