(* ===== verification/Lock_Discipline.thy ===== *)
theory Lock_Discipline
  imports Syscall
begin

text \<open>
  The lock discipline of \<^verbatim>\<open>kernel/include/ulmk_klock.h\<close>: every operation of the kernel takes its spinlocks
  in the documented order, never takes the timer lock under the ipc lock, and leaves no lock held. One rule
  per operation, collected in \<open>lock_rules\<close>, says which locks may be held when it is called.
\<close>

named_theorems lock_rules

definition lk_ok :: "klock list \<Rightarrow> kstate \<Rightarrow> bool" where
  "lk_ok H s \<longleftrightarrow> held (lk s) = H \<and> order_ok (lk s) \<and> bclass s"

lemma lk_ok_lock [lock_rules]: "may_take l H \<Longrightarrow> lk_ok H s \<Longrightarrow> lk_ok (l # H) (lock l s)"
  by (simp add: lk_ok_def)

lemma lk_ok_unlock [lock_rules]: "lk_ok (l # H) s \<Longrightarrow> lk_ok H (unlock l s)"
  by (simp add: lk_ok_def)

lemma lk_ok_frame [lock_rules]:
  "lk_ok H (upd_tcb t f s) \<longleftrightarrow> lk_ok H s"
  "lk_ok H (upd_ep t ef s) \<longleftrightarrow> lk_ok H s"
  "lk_ok H (upd_notif t nf s) \<longleftrightarrow> lk_ok H s"
  "lk_ok H (upd_percpu c pf s) \<longleftrightarrow> lk_ok H s"
  "lk_ok H (upd_this_cpu pf s) \<longleftrightarrow> lk_ok H s"
  "lk_ok H (upd_rqs rf s) \<longleftrightarrow> lk_ok H s"
  "lk_ok H (upd_ipcq qf s) \<longleftrightarrow> lk_ok H s"
  "lk_ok H (upd_regq gf s) \<longleftrightarrow> lk_ok H s"
  "lk_ok H (upd_tmq tf s) \<longleftrightarrow> lk_ok H s"
  "lk_ok H (upd_wheel w whf s) \<longleftrightarrow> lk_ok H s"
  "lk_ok H (upd_umsg p m s) \<longleftrightarrow> lk_ok H s"
  "lk_ok H (upd_uword p x s) \<longleftrightarrow> lk_ok H s"
  "lk_ok H (upd_urn p uf s) \<longleftrightarrow> lk_ok H s"
  "lk_ok H (upd_area a af s) \<longleftrightarrow> lk_ok H s"
  "lk_ok H (upd_set t sf s) \<longleftrightarrow> lk_ok H s"
  "lk_ok H (upd_binding i bf s) \<longleftrightarrow> lk_ok H s"
  "lk_ok H (emit e s) \<longleftrightarrow> lk_ok H s"
  "lk_ok H (s\<lparr>heap := h\<rparr>) \<longleftrightarrow> lk_ok H s"
  "lk_ok H (s\<lparr>hang := g\<rparr>) \<longleftrightarrow> lk_ok H s"
  "lk_ok H (s\<lparr>cpu_id := c\<rparr>) \<longleftrightarrow> lk_ok H s"
  "lk_ok H (s\<lparr>ipcq := q\<rparr>) \<longleftrightarrow> lk_ok H s"
  "lk_ok H (s\<lparr>tmq := tq\<rparr>) \<longleftrightarrow> lk_ok H s"
  "lk_ok H (s\<lparr>irq_table := it\<rparr>) \<longleftrightarrow> lk_ok H s"
  "lk_ok H (s\<lparr>reg_inited := ri\<rparr>) \<longleftrightarrow> lk_ok H s"
  "lk_ok H (s\<lparr>tick_started := ts\<rparr>) \<longleftrightarrow> lk_ok H s"
  by (simp_all add: lk_ok_def upd_regq_def upd_area_def upd_set_def upd_binding_def)

lemma lk_ok_if [lock_rules]: "lk_ok H (if b then x else y) \<longleftrightarrow> (if b then lk_ok H x else lk_ok H y)"
  by simp

lemma snd_if [lock_rules]: "snd (if b then x else y) = (if b then snd x else snd y)"
  by simp

section \<open>Scheduler and timers\<close>

lemma lk_ok_sched [lock_rules]:
  assumes "lk_ok H s"
  shows "lk_ok H (ulmk_sched_kick_pending s)" "lk_ok H (ulmk_sched_request_resched s)"
    "lk_ok H (ulmk_sched_mpu_switch t s)"
    "may_take LRq H \<Longrightarrow> lk_ok H (ulmk_sched_enqueue t s)"
    "may_take LRq H \<Longrightarrow> lk_ok H (ulmk_sched_dequeue t s)"
    "may_take LRq H \<Longrightarrow> lk_ok H (class_enqueue t s)"
    "may_take LRq H \<Longrightarrow> lk_ok H (class_dequeue t s)"
    "may_take LRq H \<Longrightarrow> lk_ok H (snd (class_pick_next s))"
    "may_take LRq H \<Longrightarrow> lk_ok H (snd (class_peek_next s))"
  using assms
  by (simp_all add: lk_ok_def sched_enqueue_bitmap sched_dequeue_bitmap class_op_bitmap
      ulmk_sched_mpu_switch_def Let_def)

lemma lk_ok_timer [lock_rules]:
  assumes "lk_ok H s" "may_take LTimer H"
  shows "lk_ok H (snd (ulmk_timer_add t d s))" "lk_ok H (snd (ulmk_timer_cancel t s))"
    "lk_ok H (ulmk_timeout_disarm t s)" "lk_ok H (snd (ulmk_timeout_arm t ms c s))"
  using assms
  by (simp_all add: ulmk_timer_add_def ulmk_timer_cancel_def ulmk_timeout_disarm_def
      ulmk_timeout_arm_def Let_def case_prod_beta lock_rules)

section \<open>Heap and areas\<close>

lemma lk_ok_heap [lock_rules]:
  assumes "lk_ok H s" "may_take LMem H"
  shows "lk_ok H (snd (k_heap_alloc sz s))" "lk_ok H (k_heap_free p s)"
    "lk_ok H (snd (k_heap_aligned_alloc al sz s))"
  using assms
  by (simp_all add: k_heap_alloc_def k_heap_free_def k_heap_aligned_alloc_def Let_def case_prod_beta lock_rules)

lemma lk_ok_area [lock_rules]:
  assumes "lk_ok H s"
  shows "lk_ok H (ulmk_kern_area_dropped t s)" "lk_ok H (ulmk_kern_area_retire a s)"
    "lk_ok H (set_unlink a s)" "lk_ok H (parent_unlink a s)" "lk_ok H (ulmk_area_set_init t s)"
  using assms
  by (simp_all add: ulmk_kern_area_dropped_def ulmk_kern_area_retire_def set_unlink_def parent_unlink_def
      ulmk_area_set_init_def Let_def lock_rules)

lemma lk_ok_insert [lock_rules]:
  assumes "lk_ok H s" "may_take LMem H"
  shows "lk_ok H (snd (snd (ulmk_area_insert t b sz p ty fl par s)))"
  using assms
  by (simp add: ulmk_area_insert_def Let_def case_prod_beta lock_rules split: option.splits)

lemma release_up_lk_ok:
  assumes "may_take LMem H"
  shows "release_up a s = Some s' \<Longrightarrow> lk_ok H s \<longrightarrow> lk_ok H s'"
proof (induction rule: release_up.raw_induct [rotated, consumes 1, case_names step])
  case (step release_up a s s')
  with assms step show ?case by (auto simp: Let_def lock_rules split: if_splits)
qed

lemma revoke_loop_lk_ok:
  assumes "may_take LMem H"
  shows "revoke_loop a n s = Some s' \<Longrightarrow> lk_ok H s \<longrightarrow> lk_ok H s'"
proof (induction rule: revoke_loop.raw_induct [rotated, consumes 1, case_names step])
  case (step revoke_loop a n s s')
  with assms step show ?case by (auto simp: Let_def lock_rules split: if_splits list.splits)
qed

lemma set_release_loop_lk_ok:
  assumes "may_take LMem H"
  shows "set_release_loop t s = Some s' \<Longrightarrow> lk_ok H s \<longrightarrow> lk_ok H s'"
proof (induction rule: set_release_loop.raw_induct [rotated, consumes 1, case_names step])
  case (step set_release_loop t s s')
  show ?case
  proof (cases "set_list s t")
    case Nil
    with step(2) show ?thesis by simp
  next
    case (Cons a as)
    with step assms show ?thesis
      by (auto simp: Let_def lock_rules bind_eq_Some_conv dest!: release_up_lk_ok [OF assms] split: if_splits)
  qed
qed

lemma area_inherit_list_lk_ok:
  "may_take LMem H \<Longrightarrow> lk_ok H s \<Longrightarrow> lk_ok H (snd (area_inherit_list d as s))"
  by (induction as arbitrary: s) (simp_all add: Let_def case_prod_beta lock_rules)

lemma lk_ok_area_ops [lock_rules]:
  assumes "lk_ok H s" "may_take LMem H"
  shows "lk_ok H (ulmk_area_revoke a s)" "lk_ok H (ulmk_area_set_release t s)"
    "lk_ok H (snd (ulmk_area_inherit d t s))"
  using assms
  by (auto simp: ulmk_area_revoke_def ulmk_area_set_release_def ulmk_area_inherit_def or_hang_def
      bind_eq_Some_conv area_inherit_list_lk_ok lock_rules split: option.splits
      dest!: revoke_loop_lk_ok [OF assms(2)] release_up_lk_ok [OF assms(2)] set_release_loop_lk_ok [OF assms(2)])

section \<open>Memory, threads and dispatch\<close>

lemma lk_ok_fold: "(\<And>x s. lk_ok H s \<Longrightarrow> lk_ok H (f x s)) \<Longrightarrow> lk_ok H s \<Longrightarrow> lk_ok H (fold f xs s)"
  by (induction xs arbitrary: s) simp_all

lemma lk_ok_xcall [lock_rules]:
  "(\<And>s. lk_ok H s \<Longrightarrow> lk_ok H (snd (fn s))) \<Longrightarrow> lk_ok H s \<Longrightarrow> lk_ok H (snd (ulmk_xcall c fn s))"
  by (simp add: ulmk_xcall_def Let_def case_prod_beta lock_rules)

lemma lk_ok_settle [lock_rules]: "lk_ok [] s \<Longrightarrow> lk_ok [] (mem_settle s)"
  by (simp add: mem_settle_def mpu_flush_xcall_def Let_def lock_rules lk_ok_fold)

lemma lk_ok_mem [lock_rules]:
  assumes "lk_ok [] s"
  shows "lk_ok [] (snd (ulmk_kern_mem_fault p acc s))" "lk_ok [] (snd (ulmk_kern_mem_map a b c d s))"
    "lk_ok [] (snd (ulmk_kern_mem_unmap a b s))" "lk_ok [] (snd (ulmk_kern_mem_grant a b c d s))"
    "lk_ok [] (snd (ulmk_kern_mem_revoke a b s))" "lk_ok [] (ulmk_mem_thread_release t s)"
    "lk_ok [] (snd (ulmk_mem_thread_inherit t u s))"
  using assms
  by (simp_all add: ulmk_kern_mem_fault_def ulmk_kern_mem_map_def ulmk_kern_mem_unmap_def
      ulmk_kern_mem_grant_def ulmk_kern_mem_revoke_def ulmk_mem_thread_release_def
      ulmk_mem_thread_inherit_def Let_def case_prod_beta lock_rules split: option.splits bool.splits)

lemma lk_ok_thread_base [lock_rules]:
  assumes "lk_ok H s"
  shows "lk_ok H (snd (ulmk_thread_init t at st s))" "lk_ok H (ulmk_thread_ensure_ctx t s)"
  using assms
  by (simp_all add: ulmk_thread_init_def ulmk_thread_ensure_ctx_def tcb_registry_ensure_init_def Let_def lock_rules)

lemma lk_ok_thread_free [lock_rules]: "lk_ok [] s \<Longrightarrow> lk_ok [] (ulmk_thread_free t s)"
  by (simp add: ulmk_thread_free_def Let_def lock_rules)

lemma lk_ok_dispatch [lock_rules]:
  assumes "lk_ok [] s"
  shows "lk_ok [] (sched_reap_dead t s)" "lk_ok [] (sched_switch_to t u s)"
    "lk_ok [] (ulmk_sched_set_dead_for_cleanup t s)"
  using assms
  by (simp_all add: sched_reap_dead_def sched_switch_to_def ulmk_sched_set_dead_for_cleanup_def
      Let_def lock_rules)

lemma lk_ok_switching [lock_rules]:
  assumes "lk_ok [] s"
  shows "lk_ok [] (ulmk_sched_start s)" "lk_ok [] (ulmk_sched_resched s)"
    "lk_ok [] (ulmk_sched_trap_dispatch b s)"
  using assms
  by (simp_all add: ulmk_sched_start_def ulmk_sched_resched_def ulmk_sched_trap_dispatch_def
      Let_def case_prod_beta lock_rules)

section \<open>Sleep, endpoints and notifications\<close>

lemma lk_ok_sleep [lock_rules]:
  assumes "lk_ok [] s"
  shows "lk_ok [] (sleep_timeout_cb t s)" "lk_ok [] (snd (ulmk_kern_sleep ms s))"
    "lk_ok [] (snd (ulmk_kern_sleep_cancel t s))"
  using assms
  by (simp_all add: sleep_timeout_cb_def ulmk_kern_sleep_def ulmk_kern_sleep_cancel_def
      Let_def case_prod_beta lock_rules)

lemma lk_ok_ipc_helpers [lock_rules]:
  "lk_ok H (ipc_node_unlink t s) \<longleftrightarrow> lk_ok H s"
  "lk_ok H (ulmk_ep_recv_queue_remove t s) \<longleftrightarrow> lk_ok H s"
  "lk_ok H (leave_waiter_slot t s) \<longleftrightarrow> lk_ok H s"
  "lk_ok H (snd (ipc_pop_head h s)) \<longleftrightarrow> lk_ok H s"
  "lk_ok H (ipc_enqueue_tail h t s) \<longleftrightarrow> lk_ok H s"
  "lk_ok H (apply_prio_inherit t u s) \<longleftrightarrow> lk_ok H s"
  "lk_ok H (clear_server_block t s) \<longleftrightarrow> lk_ok H s"
  by (simp_all add: ipc_node_unlink_def ulmk_ep_recv_queue_remove_def leave_waiter_slot_def ipc_pop_head_def
      ipc_enqueue_tail_def apply_prio_inherit_def clear_server_block_def Let_def case_prod_beta lock_rules
      split: option.splits prod.splits)

lemma lk_ok_delivery [lock_rules]:
  "lk_ok H (prepare_server_delivery t u m s) \<longleftrightarrow> lk_ok H s"
  "lk_ok H (recv_from_sender e t m p s) \<longleftrightarrow> lk_ok H s"
  "lk_ok H (snd (ep_call_rendezvous e i t m s)) \<longleftrightarrow> lk_ok H s"
  by (simp_all add: prepare_server_delivery_def recv_from_sender_def ep_call_rendezvous_def Let_def
      case_prod_beta lock_rules)

lemma lk_ok_wake [lock_rules]: "lk_ok [] s \<Longrightarrow> lk_ok [] (wake_blocked_on_destroy t st s)"
  by (simp add: wake_blocked_on_destroy_def Let_def lock_rules)

lemma lk_ok_drain [lock_rules]: "lk_ok [LIpc] s \<Longrightarrow> lk_ok [LIpc] (destroy_drain n h s)"
  by (induction n arbitrary: s) (simp_all add: case_prod_beta lock_rules)

lemma lk_ok_ep [lock_rules]:
  assumes "lk_ok [] s"
  shows "lk_ok [] (ep_call_timeout_cb t s)" "lk_ok [] (snd (ep_call_impl e m s))"
    "lk_ok [] (snd (ep_call_timeout_impl e m ms s))" "lk_ok [] (snd (ep_recv_impl e m p s))"
    "lk_ok [] (snd (ep_reply_impl t m s))" "lk_ok [] (snd (ep_recv_or_notif_impl e n k r s))"
    "lk_ok [] (snd (ep_destroy_impl e s))" "lk_ok [] (snd (ulmk_kern_ep_create s))"
  using assms
  by (simp_all add: ep_call_timeout_cb_def ep_call_impl_def ep_call_timeout_impl_def ep_recv_impl_def
      ep_reply_impl_def ep_recv_or_notif_impl_def ep_destroy_impl_def ulmk_kern_ep_create_def ulmk_ep_init_def
      Let_def case_prod_beta lock_rules)

lemma lk_ok_reply_recv [lock_rules]:
  "lk_ok [] s \<Longrightarrow> lk_ok [] (snd (ep_reply_recv_impl e t m n p s))"
  by (simp add: ep_reply_recv_impl_def Let_def lock_rules)

lemma lk_ok_notif [lock_rules]:
  assumes "lk_ok [] s"
  shows "lk_ok [] (notif_wait_timeout_cb t s)" "lk_ok [] (snd (notif_signal_impl n b s))"
    "lk_ok [] (snd (notif_wait_block n k p s))" "lk_ok [] (snd (notif_poll_impl n k s))"
    "lk_ok [] (snd (notif_destroy_impl n s))" "lk_ok [] (snd (ulmk_kern_notif_create s))"
  using assms
  by (simp_all add: notif_wait_timeout_cb_def notif_signal_impl_def notif_wait_block_def notif_poll_impl_def
      notif_destroy_impl_def ulmk_kern_notif_create_def ulmk_notif_obj_init_def Let_def case_prod_beta lock_rules)

lemma lk_ok_notif_wait [lock_rules]:
  assumes "lk_ok [] s"
  shows "lk_ok [] (snd (notif_wait_impl n k p s))" "lk_ok [] (snd (notif_wait_timeout_impl n k p ms s))"
  using lk_ok_notif(3) [OF assms, of n k p] assms
  by (auto simp: notif_wait_impl_def notif_wait_timeout_impl_def Let_def case_prod_beta lock_rules
      split: option.splits prod.splits)

section \<open>Threads, interrupts and the router\<close>

lemma lk_ok_thread [lock_rules]:
  assumes "lk_ok [] s"
  shows "lk_ok [] (snd (ulmk_kern_yield s))" "lk_ok [] (snd (ulmk_kern_exit s))"
    "lk_ok [] (snd (thread_kill_local t s))" "lk_ok [] (snd (ulmk_kern_thread_suspend t s))"
    "lk_ok [] (snd (ulmk_kern_thread_resume t s))" "lk_ok [] (snd (ulmk_kern_thread_set_prio t p s))"
    "lk_ok [] (snd (ulmk_kern_cap_grant t c s))" "lk_ok [] (snd (stack_alloc_k sz s))"
  using assms
  by (simp_all add: ulmk_kern_yield_def ulmk_kern_exit_def thread_kill_local_def ulmk_kern_thread_suspend_def
      ulmk_kern_thread_resume_def ulmk_kern_thread_set_prio_def ulmk_kern_cap_grant_def stack_alloc_k_def
      Let_def case_prod_beta lock_rules split: option.splits)

lemma lk_ok_kill [lock_rules]: "lk_ok [] s \<Longrightarrow> lk_ok [] (snd (ulmk_kern_thread_kill t s))"
  by (simp add: ulmk_kern_thread_kill_def Let_def lock_rules)

lemma lk_ok_spawn_tail [lock_rules]: "lk_ok [] s \<Longrightarrow> lk_ok [] (snd (spawn_tail cur th at st s))"
  by (simp add: spawn_tail_def Let_def case_prod_beta lock_rules)

lemma lk_ok_spawn [lock_rules]: "lk_ok [] s \<Longrightarrow> lk_ok [] (snd (ulmk_kern_thread_spawn p s))"
  by (simp add: ulmk_kern_thread_spawn_def Let_def case_prod_beta lock_rules split: option.split)

lemma lk_ok_irq_helpers [lock_rules]:
  "lk_ok H (board_irq_connect b s) \<longleftrightarrow> lk_ok H s" "lk_ok H (board_irq_disconnect b s) \<longleftrightarrow> lk_ok H s"
  "lk_ok H (irq_binding_clear i s) \<longleftrightarrow> lk_ok H s"
  "lk_ok [] s \<Longrightarrow> lk_ok [] (snd (ulmk_irq_binding_add b n k s))"
  "snd (u32_result r) = snd r"
  by (simp_all add: board_irq_connect_def board_irq_disconnect_def irq_binding_clear_def
      ulmk_irq_binding_add_def u32_result_def Let_def case_prod_beta lock_rules split: option.splits)

lemma lk_ok_irq [lock_rules]:
  assumes "lk_ok [] s"
  shows "lk_ok [] (snd (irq_attach_common a b c d h s))" "lk_ok [] (snd (ulmk_kern_irq_bind a b c s))"
    "lk_ok [] (snd (ulmk_kern_irq_bind_hw a b c d s))" "lk_ok [] (snd (ulmk_kern_irq_detach a s))"
    "lk_ok [] (snd (ulmk_kern_irq_enable a s))" "lk_ok [] (snd (ulmk_kern_irq_disable a s))"
    "lk_ok [] (snd (ulmk_kern_irq_ack a s))" "lk_ok [] (ulmk_kern_irq_attach_fault s)"
    "lk_ok [] (ulmk_kern_irq_dispatch i s)"
  using assms
  by (simp_all add: irq_attach_common_def ulmk_kern_irq_bind_def ulmk_kern_irq_bind_hw_def
      ulmk_kern_irq_detach_def ulmk_kern_irq_enable_def ulmk_kern_irq_disable_def ulmk_kern_irq_ack_def
      ulmk_kern_irq_attach_fault_def ulmk_kern_irq_dispatch_def ulmk_kern_notif_destroy_def
      Let_def case_prod_beta lock_rules split: option.splits)

lemma lk_ok_gates [lock_rules]:
  "lk_ok H s \<Longrightarrow> lk_ok H (snd r) \<Longrightarrow> lk_ok H (snd (require_driver s r))"
  "lk_ok H s \<Longrightarrow> lk_ok H (snd r) \<Longrightarrow> lk_ok H (snd (require_cap c s r))"
  "lk_ok H s \<Longrightarrow> lk_ok H (snd r) \<Longrightarrow> lk_ok H (snd (mmap_gate fl s r))"
  by (simp_all add: require_driver_def require_cap_def mmap_gate_def Let_def)

lemma lk_ok_wrappers [lock_rules]:
  assumes "lk_ok [] s"
  shows "lk_ok [] (snd (ulmk_kern_ep_call a b s))" "lk_ok [] (snd (ulmk_kern_ep_call_timeout a b c s))"
    "lk_ok [] (snd (ulmk_kern_ep_recv a b c s))" "lk_ok [] (snd (ulmk_kern_ep_reply a b s))"
    "lk_ok [] (snd (ulmk_kern_ep_reply_recv a b c s))" "lk_ok [] (snd (ulmk_kern_ep_grant a b s))"
    "lk_ok [] (snd (ulmk_kern_ep_recv_or_notif a b c d s))" "lk_ok [] (snd (ulmk_kern_ep_destroy a s))"
    "lk_ok [] (snd (ulmk_kern_notif_destroy a s))" "lk_ok [] (snd (ulmk_kern_notif_signal a b s))"
    "lk_ok [] (snd (ulmk_kern_notif_wait a b c s))" "lk_ok [] (snd (ulmk_kern_notif_wait_timeout a b c d s))"
    "lk_ok [] (snd (ulmk_kern_notif_poll a b s))" "lk_ok [] (snd (ulmk_kern_irq_attach a b c s))"
    "lk_ok [] (snd (ulmk_kern_irq_attach_hw a b c d s))" "lk_ok [] (snd (ulmk_kern_thread_self s))"
    "lk_ok [] (snd (ulmk_kern_thread_get_prio a s))" "lk_ok [] (snd (ulmk_kern_wcet_bind a s))"
    "lk_ok [] (snd (ulmk_kern_tick_start s))" "lk_ok [] (snd (dcache_op e s))"
  using assms
  by (simp_all add: ulmk_kern_ep_call_def ulmk_kern_ep_call_timeout_def ulmk_kern_ep_recv_def
      ulmk_kern_ep_reply_def ulmk_kern_ep_reply_recv_def ulmk_kern_ep_grant_def ulmk_kern_ep_recv_or_notif_def
      ulmk_kern_ep_destroy_def ulmk_kern_notif_destroy_def ulmk_kern_notif_signal_def ulmk_kern_notif_wait_def
      ulmk_kern_notif_wait_timeout_def ulmk_kern_notif_poll_def ulmk_kern_irq_attach_def
      ulmk_kern_irq_attach_hw_def ulmk_kern_thread_self_def ulmk_kern_thread_get_prio_def
      ulmk_kern_wcet_bind_def ulmk_kern_tick_start_def dcache_op_def Let_def lock_rules)

lemma snd_if_intro:
  "(b \<Longrightarrow> P (snd x)) \<Longrightarrow> (\<not> b \<Longrightarrow> P (snd y)) \<Longrightarrow> P (snd (if b then x else y))"
  by simp

lemma lk_ok_syscall [lock_rules]:
  "lk_ok [] s \<Longrightarrow> lk_ok [] (snd (ulmk_syscall_router nr a0 a1 a2 a3 s))"
  unfolding ulmk_syscall_router_def
  by (intro snd_if_intro [of _ "lk_ok []"]) (simp_all add: lock_rules)

section \<open>Interrupt entries and boot\<close>

lemma lk_ok_callbacks [lock_rules]: "lk_ok [] s \<Longrightarrow> lk_ok [] (run_timeout_cb c t s)"
  by (simp add: run_timeout_cb_def lock_rules split: timeout_cb.splits)

lemma lk_ok_expire [lock_rules]: "lk_ok [] s \<Longrightarrow> lk_ok [] (expire_list n run_timeout_cb s)"
proof (induction n arbitrary: s)
  case (Suc n)
  show ?case
  proof (cases "q_get PendingQ (tmq s)")
    case (Pair o' q)
    with Suc show ?thesis by (cases o') (simp_all add: Let_def lock_rules)
  qed
qed (simp add: lock_rules)

lemma lk_ok_scan: "lk_ok H s \<Longrightarrow> lk_ok H (wheel_scan_level w l s)"
  by (simp add: wheel_scan_level_def collect_bucket_def Let_def lock_rules lk_ok_fold)

lemma lk_ok_tick [lock_rules]:
  assumes "lk_ok [] s"
  shows "lk_ok [] (ulmk_kern_timer_tick s)" "lk_ok [] (ulmk_kern_ipi_from_isr s)"
    "lk_ok [] (ulmk_kern_trap_recoverable s)"
  using assms
  by (simp_all add: ulmk_kern_timer_tick_def ulmk_kern_timer_pulse_def ulmk_timer_tick_def
      wheel_advance_collect_def ulmk_kern_ipi_from_isr_def ulmk_kern_sched_dispatch_def
      ulmk_kern_trap_recoverable_def spin_unless_switched_def Let_def lock_rules lk_ok_fold lk_ok_scan)

text \<open>C8. Lock discipline of the system calls. Whatever the system call and its arguments, if no spinlock
  is held on entry and the documented order (thread, ipc, rq, irq, timer, area, mem; the timer lock never
  under the ipc lock) has been kept so far, then on return no spinlock is held and the order has still been
  kept, on every path of every handler.\<close>

theorem syscall_lock_discipline:
  assumes "lk_clean (lk s)" and "sched_class s = Some bitmap_rt_class"
  shows "lk_clean (lk (snd (ulmk_syscall_router nr a0 a1 a2 a3 s)))"
  using lk_ok_syscall [of s nr a0 a1 a2 a3] assms by (simp add: lk_ok_def lk_clean_def)

theorem syscall_lock_discipline_witness:
  "lk_clean (lk (snd (ulmk_syscall_router 12 5 0 0 0 ((kzero up_cfg)\<lparr>sched_class := Some bitmap_rt_class, percpu := (\<lambda>_. percpu_zero\<lparr>current := 4096\<rparr>)\<rparr>))))"
  by (rule syscall_lock_discipline) (simp_all add: lk_clean_def)

text \<open>C29. Lock discipline of the interrupt entries: the timer tick with its timeout callbacks, the
  dispatch of a bound or attached interrupt, the inter-processor interrupt and the fault path keep the order
  and leave no lock held either.\<close>

theorem interrupt_lock_discipline:
  assumes "lk_clean (lk s)" and "sched_class s = Some bitmap_rt_class"
  shows "lk_clean (lk (ulmk_kern_timer_tick s)) \<and> lk_clean (lk (ulmk_kern_irq_dispatch srpn s)) \<and>
    lk_clean (lk (ulmk_kern_ipi_from_isr s)) \<and> lk_clean (lk (ulmk_kern_trap_recoverable s))"
proof -
  have "lk_ok [] s" using assms by (simp add: lk_ok_def lk_clean_def)
  from lk_ok_tick [OF this] lk_ok_irq(9) [OF this, of srpn] show ?thesis
    by (simp add: lk_ok_def lk_clean_def)
qed

theorem interrupt_lock_discipline_witness:
  "lk_clean (lk (ulmk_kern_timer_tick ((kzero up_cfg)\<lparr>sched_class := Some bitmap_rt_class, percpu := (\<lambda>_. percpu_zero\<lparr>current := 4096\<rparr>)\<rparr>)))"
  using interrupt_lock_discipline [of "(kzero up_cfg)\<lparr>sched_class := Some bitmap_rt_class, percpu := (\<lambda>_. percpu_zero\<lparr>current := 4096\<rparr>)\<rparr>" 0]
  by (simp add: lk_clean_def)

end
