(* ===== verification/Views.thy ===== *)
theory Views
  imports Lock_Discipline
begin

text \<open>
  What an operation leaves alone. A view of the kernel state that does not depend on anything but the
  capabilities and privileges of the threads and the interrupt table is kept by every operation that changes
  neither; the locale proves it once, operation by operation from the primitive updates, and each view that is
  interpreted in it (the authority of the threads in theory Authority, the interrupt table in theory Irq\_Props)
  gets one equation per operation, collected in \<open>view_rules\<close>.
\<close>

named_theorems view_rules

lemma snd_u32_result [view_rules]: "snd (u32_result r) = snd r"
  by (simp add: u32_result_def case_prod_beta)

locale kernel_view =
  fixes v :: "kstate \<Rightarrow> 'a"
  assumes v_upd_tcb [view_rules]: "(\<And>x. cap_flags (f x) = cap_flags x) \<Longrightarrow> (\<And>x. privilege (f x) = privilege x) \<Longrightarrow>
      v (upd_tcb t f s) = v s"
    and v_prims [view_rules]:
      "v (upd_ep e ef s) = v s"
      "v (upd_notif n nf s) = v s"
      "v (upd_percpu c pf s) = v s"
      "v (upd_this_cpu pf s) = v s"
      "v (upd_rqs rf s) = v s"
      "v (upd_ipcq qf s) = v s"
      "v (upd_regq gf s) = v s"
      "v (upd_tmq tf s) = v s"
      "v (upd_wheel w whf s) = v s"
      "v (upd_umsg p m s) = v s"
      "v (upd_uword p x s) = v s"
      "v (upd_urn p uf s) = v s"
      "v (upd_area a af s) = v s"
      "v (emit ev s) = v s"
      "v (lock l s) = v s"
      "v (unlock l s) = v s"
      "v (s\<lparr>heap := h\<rparr>) = v s"
      "v (s\<lparr>hang := g\<rparr>) = v s"
      "v (s\<lparr>cpu_id := c\<rparr>) = v s"
      "v (s\<lparr>ipcq := q\<rparr>) = v s"
      "v (s\<lparr>tmq := tq\<rparr>) = v s"
      "v (s\<lparr>reg_inited := ri\<rparr>) = v s"
      "v (s\<lparr>tick_started := ts\<rparr>) = v s"
      "v (s\<lparr>rq_bitmap := rb\<rparr>) = v s"
      "v (s\<lparr>rqs := rq\<rparr>) = v s"
begin

lemma v_if [view_rules]: "v (if b then x else y) = (if b then v x else v y)"
  by simp

lemma v_fold: "(\<And>x s. v (f x s) = v s) \<Longrightarrow> v (fold f xs s) = v s"
  by (induction xs arbitrary: s) simp_all

lemma v_set [view_rules]: "v (upd_set t sf s) = v s"
  by (simp add: upd_set_def view_rules)

lemma v_bitmap [view_rules]:
  "v (bitmap_set c p s) = v s" "v (bitmap_clear c p s) = v s"
  "v (bitmap_rt_enqueue t s) = v s" "v (bitmap_rt_dequeue t s) = v s"
  "v (snd (bitmap_rt_pick_next s)) = v s" "v (snd (bitmap_rt_peek_next s)) = v s"
  by (simp_all add: bitmap_set_def bitmap_clear_def bitmap_rt_enqueue_def bitmap_rt_dequeue_def
      bitmap_rt_pick_next_def bitmap_rt_peek_next_def Let_def view_rules split: prod.split option.split)

lemma v_fifo [view_rules]:
  "v (fifo_rt_enqueue t s) = v s" "v (fifo_rt_dequeue t s) = v s"
  "v (snd (fifo_rt_pick_next s)) = v s" "v (snd (fifo_rt_peek_next s)) = v s"
  by (simp_all add: fifo_rt_enqueue_def fifo_rt_dequeue_def fifo_rt_pick_next_def fifo_rt_peek_next_def
      Let_def view_rules)

lemma v_class [view_rules]:
  "v (class_enqueue t s) = v s" "v (class_dequeue t s) = v s" "v (snd (class_pick_next s)) = v s"
  "v (snd (class_peek_next s)) = v s"
  by (simp_all add: class_enqueue_def class_dequeue_def class_pick_next_def class_peek_next_def view_rules
      split: option.split sched_class_t.split)

lemma v_sched [view_rules]:
  "v (ulmk_sched_kick_pending s) = v s" "v (ulmk_sched_request_resched s) = v s"
  "v (ulmk_sched_mpu_switch t s) = v s" "v (sched_mark_preempt_if_higher t s) = v s"
  "v (ulmk_sched_enqueue t s) = v s" "v (ulmk_sched_dequeue t s) = v s"
  by (simp_all add: ulmk_sched_kick_pending_def ulmk_sched_request_resched_def ulmk_sched_mpu_switch_def
      sched_mark_preempt_if_higher_def ulmk_sched_enqueue_def ulmk_sched_dequeue_def Let_def view_rules v_fold)

lemma v_timer [view_rules]:
  "v (snd (ulmk_timer_add t d s)) = v s" "v (snd (ulmk_timer_cancel t s)) = v s"
  "v (ulmk_timeout_disarm t s) = v s" "v (snd (ulmk_timeout_arm t ms c s)) = v s"
  by (simp_all add: ulmk_timer_add_def ulmk_timer_cancel_def ulmk_timeout_disarm_def
      ulmk_timeout_arm_def Let_def case_prod_beta view_rules)

lemma v_heap [view_rules]:
  "v (snd (k_heap_alloc sz s)) = v s" "v (k_heap_free p s) = v s"
  "v (snd (k_heap_aligned_alloc al sz s)) = v s"
  by (simp_all add: k_heap_alloc_def k_heap_free_def k_heap_aligned_alloc_def Let_def case_prod_beta view_rules)

lemma v_area [view_rules]:
  "v (ulmk_kern_area_dropped t s) = v s" "v (ulmk_kern_area_retire a s) = v s"
  "v (set_unlink a s) = v s" "v (parent_unlink a s) = v s"
  "v (ulmk_area_set_init t s) = v s"
  "v (snd (snd (ulmk_area_insert t b sz p ty fl par s))) = v s"
  by (simp_all add: ulmk_kern_area_dropped_def ulmk_kern_area_retire_def set_unlink_def parent_unlink_def
      ulmk_area_set_init_def ulmk_area_insert_def Let_def case_prod_beta view_rules split: option.splits)

lemma release_up_v: "release_up a s = Some s' \<Longrightarrow> v s' = v s"
proof (induction rule: release_up.raw_induct [rotated, consumes 1, case_names step])
  case (step release_up a s s')
  then show ?case by (auto simp: Let_def view_rules split: if_splits)
qed

lemma revoke_loop_v: "revoke_loop a n s = Some s' \<Longrightarrow> v s' = v s"
proof (induction rule: revoke_loop.raw_induct [rotated, consumes 1, case_names step])
  case (step revoke_loop a n s s')
  then show ?case by (auto simp: Let_def view_rules split: if_splits list.splits)
qed

lemma set_release_loop_v: "set_release_loop t s = Some s' \<Longrightarrow> v s' = v s"
proof (induction rule: set_release_loop.raw_induct [rotated, consumes 1, case_names step])
  case (step set_release_loop t s s')
  then show ?case
    by (auto simp: Let_def view_rules bind_eq_Some_conv dest!: release_up_v split: if_splits list.splits)
qed

lemma area_inherit_list_v: "v (snd (area_inherit_list d as s)) = v s"
  by (induction as arbitrary: s) (simp_all add: Let_def case_prod_beta view_rules)

lemma v_area_ops [view_rules]:
  "v (ulmk_area_revoke a s) = v s" "v (ulmk_area_set_release t s) = v s"
  "v (snd (ulmk_area_inherit d t s)) = v s"
  by (auto simp: ulmk_area_revoke_def ulmk_area_set_release_def ulmk_area_inherit_def or_hang_def
      bind_eq_Some_conv area_inherit_list_v view_rules split: option.splits
      dest!: revoke_loop_v release_up_v set_release_loop_v)

lemma v_xcall [view_rules]:
  "(\<And>s. v (snd (fn s)) = v s) \<Longrightarrow> v (snd (ulmk_xcall c fn s)) = v s"
  by (simp add: ulmk_xcall_def Let_def case_prod_beta view_rules)

lemma v_settle [view_rules]: "v (mem_settle s) = v s"
  by (simp add: mem_settle_def mpu_flush_xcall_def Let_def view_rules v_fold)

lemma v_mem [view_rules]:
  "v (snd (ulmk_kern_mem_map a b c d s)) = v s"
  "v (snd (ulmk_kern_mem_unmap a b s)) = v s"
  "v (snd (ulmk_kern_mem_grant a b c d s)) = v s"
  "v (snd (ulmk_kern_mem_revoke a b s)) = v s"
  "v (ulmk_mem_thread_release t s) = v s"
  "v (snd (ulmk_mem_thread_inherit t u s)) = v s"
  by (simp_all add: ulmk_kern_mem_map_def ulmk_kern_mem_unmap_def
      ulmk_kern_mem_grant_def ulmk_kern_mem_revoke_def ulmk_mem_thread_release_def
      ulmk_mem_thread_inherit_def Let_def case_prod_beta view_rules split: option.splits bool.splits)

lemma v_dispatch [view_rules]:
  "v (ulmk_thread_ensure_ctx t s) = v s"
  "v (ulmk_thread_free t s) = v s"
  "v (ulmk_sched_set_dead_for_cleanup t s) = v s"
  by (simp_all add: ulmk_thread_ensure_ctx_def ulmk_thread_free_def ulmk_sched_set_dead_for_cleanup_def
      Let_def case_prod_beta view_rules)

lemma v_sleep [view_rules]:
  "v (snd (ulmk_kern_sleep ms s)) = v s" "v (snd (ulmk_kern_sleep_cancel t s)) = v s"
  by (simp_all add: ulmk_kern_sleep_def ulmk_kern_sleep_cancel_def Let_def case_prod_beta view_rules)

lemma v_ipc_helpers [view_rules]:
  "v (ipc_node_unlink t s) = v s"
  "v (ulmk_ep_recv_queue_remove t s) = v s"
  "v (leave_waiter_slot t s) = v s"
  "v (snd (ipc_pop_head h s)) = v s"
  "v (ipc_enqueue_tail h t s) = v s"
  "v (apply_prio_inherit t u s) = v s"
  "v (clear_server_block t s) = v s"
  by (simp_all add: ipc_node_unlink_def ulmk_ep_recv_queue_remove_def leave_waiter_slot_def ipc_pop_head_def
      ipc_enqueue_tail_def apply_prio_inherit_def clear_server_block_def Let_def case_prod_beta view_rules
      split: option.splits prod.splits)

lemma v_delivery [view_rules]:
  "v (prepare_server_delivery t u m s) = v s"
  "v (recv_from_sender e t m p s) = v s"
  "v (snd (ep_call_rendezvous e i t m s)) = v s"
  "v (wake_blocked_on_destroy t st s) = v s"
  by (simp_all add: prepare_server_delivery_def recv_from_sender_def ep_call_rendezvous_def
      wake_blocked_on_destroy_def Let_def case_prod_beta view_rules)

lemma v_drain [view_rules]: "v (destroy_drain n h s) = v s"
  by (induction n arbitrary: s) (simp_all add: case_prod_beta view_rules)

lemma v_ep [view_rules]:
  "v (snd (ep_call_impl e m s)) = v s"
  "v (snd (ep_call_timeout_impl e m ms s)) = v s"
  "v (snd (ep_recv_impl e m p s)) = v s"
  "v (snd (ep_reply_impl t m s)) = v s"
  "v (snd (ep_recv_or_notif_impl e n k r s)) = v s"
  "v (snd (ep_destroy_impl e s)) = v s"
  "v (snd (ulmk_kern_ep_create s)) = v s"
  by (simp_all add: ep_call_impl_def ep_call_timeout_impl_def ep_recv_impl_def
      ep_reply_impl_def ep_recv_or_notif_impl_def ep_destroy_impl_def ulmk_kern_ep_create_def ulmk_ep_init_def
      Let_def case_prod_beta view_rules)

lemma v_reply_recv [view_rules]: "v (snd (ep_reply_recv_impl e t m n p s)) = v s"
  by (simp add: ep_reply_recv_impl_def Let_def view_rules)

lemma v_notif [view_rules]:
  "v (snd (notif_signal_impl n b s)) = v s"
  "v (snd (notif_wait_block n k p s)) = v s"
  "v (snd (notif_poll_impl n k s)) = v s"
  "v (snd (notif_destroy_impl n s)) = v s"
  "v (snd (ulmk_kern_notif_create s)) = v s"
  by (simp_all add: notif_signal_impl_def notif_wait_block_def notif_poll_impl_def
      notif_destroy_impl_def ulmk_kern_notif_create_def ulmk_notif_obj_init_def Let_def case_prod_beta view_rules)

lemma v_notif_wait [view_rules]:
  "v (snd (notif_wait_impl n k p s)) = v s"
  "v (snd (notif_wait_timeout_impl n k p ms s)) = v s"
  using v_notif(2) [of n k p s]
  by (auto simp: notif_wait_impl_def notif_wait_timeout_impl_def Let_def case_prod_beta view_rules
      split: option.splits prod.splits)

lemma v_thread [view_rules]:
  "v (snd (ulmk_kern_yield s)) = v s"
  "v (snd (ulmk_kern_exit s)) = v s"
  "v (snd (thread_kill_local t s)) = v s"
  "v (snd (ulmk_kern_thread_suspend t s)) = v s"
  "v (snd (ulmk_kern_thread_resume t s)) = v s"
  "v (snd (ulmk_kern_thread_set_prio t p s)) = v s"
  "v (snd (stack_alloc_k sz s)) = v s"
  by (simp_all add: ulmk_kern_yield_def ulmk_kern_exit_def thread_kill_local_def ulmk_kern_thread_suspend_def
      ulmk_kern_thread_resume_def ulmk_kern_thread_set_prio_def stack_alloc_k_def
      Let_def case_prod_beta view_rules split: option.splits)

lemma v_kill [view_rules]: "v (snd (ulmk_kern_thread_kill t s)) = v s"
  by (simp add: ulmk_kern_thread_kill_def Let_def view_rules)

lemma v_wrappers [view_rules]:
  "v (snd (ulmk_kern_ep_call a b s)) = v s"
  "v (snd (ulmk_kern_ep_call_timeout a b c s)) = v s"
  "v (snd (ulmk_kern_ep_recv a b c s)) = v s"
  "v (snd (ulmk_kern_ep_reply a b s)) = v s"
  "v (snd (ulmk_kern_ep_reply_recv a b c s)) = v s"
  "v (snd (ulmk_kern_ep_grant a b s)) = v s"
  "v (snd (ulmk_kern_ep_recv_or_notif a b c d s)) = v s"
  "v (snd (ulmk_kern_ep_destroy a s)) = v s"
  "v (snd (ulmk_kern_notif_destroy a s)) = v s"
  "v (snd (ulmk_kern_notif_signal a b s)) = v s"
  "v (snd (ulmk_kern_notif_wait a b c s)) = v s"
  "v (snd (ulmk_kern_notif_wait_timeout a b c d s)) = v s"
  "v (snd (ulmk_kern_notif_poll a b s)) = v s"
  "v (snd (ulmk_kern_thread_self s)) = v s"
  "v (snd (ulmk_kern_thread_get_prio a s)) = v s"
  "v (snd (ulmk_kern_wcet_bind a s)) = v s"
  "v (snd (ulmk_kern_tick_start s)) = v s"
  "v (snd (dcache_op e s)) = v s"
  by (simp_all add: ulmk_kern_ep_call_def ulmk_kern_ep_call_timeout_def ulmk_kern_ep_recv_def
      ulmk_kern_ep_reply_def ulmk_kern_ep_reply_recv_def ulmk_kern_ep_grant_def ulmk_kern_ep_recv_or_notif_def
      ulmk_kern_ep_destroy_def ulmk_kern_notif_destroy_def ulmk_kern_notif_signal_def ulmk_kern_notif_wait_def
      ulmk_kern_notif_wait_timeout_def ulmk_kern_notif_poll_def ulmk_kern_thread_self_def ulmk_kern_thread_get_prio_def
      ulmk_kern_wcet_bind_def ulmk_kern_tick_start_def dcache_op_def Let_def view_rules)

lemma v_switch [view_rules]:
  "v (sched_reap_dead p s) = v s" "v (sched_switch_to p n s) = v s"
  by (simp_all add: sched_reap_dead_def sched_switch_to_def Let_def view_rules)

lemma v_resched [view_rules]:
  "v (ulmk_sched_resched s) = v s" "v (ulmk_sched_trap_dispatch b s) = v s"
  "v (ulmk_kern_sched_dispatch b s) = v s" "v (ulmk_kern_ipi_from_isr s) = v s" "v (ulmk_sched_start s) = v s"
  "v (ulmk_kern_secondary_main s) = v s"
  by (simp_all add: ulmk_sched_start_def ulmk_kern_secondary_main_def ulmk_sched_resched_def ulmk_sched_trap_dispatch_def ulmk_kern_sched_dispatch_def
      ulmk_kern_ipi_from_isr_def Let_def case_prod_beta view_rules)

lemma v_timeout_cb [view_rules]: "v (run_timeout_cb c t s) = v s"
  by (cases c) (simp_all add: run_timeout_cb_def sleep_timeout_cb_def ep_call_timeout_cb_def notif_wait_timeout_cb_def
      Let_def view_rules)

lemma v_expire_list: "(\<And>c t s. v (run c t s) = v s) \<Longrightarrow> v (expire_list n run s) = v s"
  by (induction n arbitrary: s) (simp_all add: Let_def view_rules split: prod.split option.split)

lemma v_wheel [view_rules]: "v (wheel_scan_level w l s) = v s"
  by (simp add: wheel_scan_level_def collect_bucket_def Let_def view_rules v_fold)

lemma v_entries [view_rules]:
  "v (ulmk_kern_timer_tick s) = v s" "v (snd (ulmk_kern_syscall_ret_resolve r s)) = v s"
  "v (ulmk_kern_trap_mpu_restore s) = v s" "v (snd (ulmk_kern_mem_fault a x s)) = v s"
  by (simp_all add: ulmk_kern_timer_tick_def ulmk_kern_timer_pulse_def ulmk_timer_tick_def wheel_advance_collect_def
      ulmk_kern_syscall_ret_resolve_def ulmk_kern_trap_mpu_restore_def ulmk_kern_mem_fault_def Let_def view_rules
      v_fold v_expire_list split: prod.split option.split)

end

text \<open>A view that does not depend on the interrupt table either.\<close>

locale irq_blind_view = kernel_view +
  assumes v_irq_prims [view_rules]:
      "v (upd_binding i bf s) = v s"
      "v (s\<lparr>irq_table := it\<rparr>) = v s"
begin

lemma v_irq_helpers [view_rules]:
  "v (board_irq_connect b s) = v s" "v (board_irq_disconnect b s) = v s"
  "v (irq_binding_clear i s) = v s" "v (snd (ulmk_irq_binding_add b n k s)) = v s"
  by (simp_all add: board_irq_connect_def board_irq_disconnect_def irq_binding_clear_def
      ulmk_irq_binding_add_def Let_def case_prod_beta view_rules split: option.splits)

lemma v_irq [view_rules]:
  "v (snd (irq_attach_common a b c d h s)) = v s"
  "v (snd (ulmk_kern_irq_bind a b c s)) = v s"
  "v (snd (ulmk_kern_irq_bind_hw a b c d s)) = v s"
  "v (snd (ulmk_kern_irq_detach a s)) = v s"
  "v (snd (ulmk_kern_irq_enable a s)) = v s"
  "v (snd (ulmk_kern_irq_disable a s)) = v s"
  "v (snd (ulmk_kern_irq_ack a s)) = v s"
  "v (snd (ulmk_kern_irq_attach a b c s)) = v s"
  "v (snd (ulmk_kern_irq_attach_hw a b c d s)) = v s"
  by (simp_all add: ulmk_kern_irq_attach_def ulmk_kern_irq_attach_hw_def irq_attach_common_def ulmk_kern_irq_bind_def ulmk_kern_irq_bind_hw_def
      ulmk_kern_irq_detach_def ulmk_kern_irq_enable_def ulmk_kern_irq_disable_def ulmk_kern_irq_ack_def
      ulmk_kern_notif_destroy_def Let_def case_prod_beta view_rules split: option.splits)

end

end
