(* ===== verification/Authority.thy ===== *)
theory Authority
  imports Views
begin

text \<open>
  Privilege and capabilities. \<open>authority\<close> is what a thread may do: its capability bits and its privilege
  level. It is a view of the state that the operations leave alone (interpretation \<open>au\<close>);
  only spawning and \<^verbatim>\<open>ulmk_kern_cap_grant\<close> do, and these hand on no more than the caller has. The router refuses what the
  caller's authority does not cover without touching the state.
\<close>

definition authority :: "kstate \<Rightarrow> addr \<Rightarrow> u8 \<times> ulmk_privilege" where
  "authority s = (\<lambda>t. (cap_flags (tcb s t), privilege (tcb s t)))"

interpretation au: irq_blind_view authority
  by unfold_locales (simp_all add: authority_def fun_eq_iff upd_regq_def upd_area_def upd_binding_def)

section \<open>Operations that hand authority on\<close>

text \<open>\<open>within C P s s'\<close>: in \<open>s'\<close> no thread has more than it had in \<open>s\<close> together with the capabilities \<open>C\<close> and the
  privilege \<open>P\<close>.\<close>

definition caps_le :: "u8 \<Rightarrow> u8 \<Rightarrow> bool" where
  "caps_le a b \<longleftrightarrow> a AND b = a"

definition within :: "u8 \<Rightarrow> ulmk_privilege \<Rightarrow> kstate \<Rightarrow> kstate \<Rightarrow> bool" where
  "within C P s s' \<longleftrightarrow> (\<forall>t. caps_le (cap_flags (tcb s' t)) (cap_flags (tcb s t) OR C) \<and>
     (privilege (tcb s' t) \<le> privilege (tcb s t) \<or> privilege (tcb s' t) \<le> P))"

lemma caps_le_or [simp]: "caps_le a (a OR b)" "caps_le b (a OR b)" "caps_le (b AND c) (a OR b)"
  "caps_le c b \<Longrightarrow> caps_le (a OR c) (a OR b)"
  by (auto simp: caps_le_def bit_eq_iff bit_simps)

lemma within_same: "authority s' = authority s \<Longrightarrow> within C P s s'"
  by (auto simp: within_def authority_def fun_eq_iff)

lemma thread_init_authority:
  "authority (snd (ulmk_thread_init th at st s)) u =
     (if u = th \<and> fst (ulmk_thread_init th at st s) = ULMK_OK
      then (if at_privilege at = ULMK_PRIV_KERNEL then ULMK_CAP_ALL else 0, at_privilege at) else authority s u)"
  by (simp add: ulmk_thread_init_def tcb_registry_ensure_init_def Let_def authority_def
      ulmk_area_set_init_def upd_set_def upd_regq_def)

lemma authority_fields: "cap_flags (tcb s t) = fst (authority s t)" "privilege (tcb s t) = snd (authority s t)"
  by (simp_all add: authority_def)

lemma authority_set_caps:
  "authority (upd_tcb th (\<lambda>x. x\<lparr>cap_flags := c\<rparr>) s) = (authority s)(th := (c, snd (authority s th)))"
  by (simp add: authority_def fun_eq_iff)

lemma thread_init_authority':
  "authority (snd (ulmk_thread_init th at st s)) = (if fst (ulmk_thread_init th at st s) = ULMK_OK
     then (authority s)(th := (if at_privilege at = ULMK_PRIV_KERNEL then ULMK_CAP_ALL else 0, at_privilege at))
     else authority s)"
  by (simp add: fun_eq_iff thread_init_authority)

lemma within_upd:
  "authority s' = (authority s)(th := (c, p)) \<Longrightarrow> caps_le c C \<Longrightarrow> p \<le> P \<Longrightarrow> within C P s s'"
  by (auto simp: within_def authority_fields)
    (auto simp: caps_le_def bit_eq_iff bit_simps)

lemma spawn_tail_authority:
  assumes "th \<noteq> cur"
  shows "authority (snd (spawn_tail cur th at st s)) = authority s \<or>
    (\<exists>c. authority (snd (spawn_tail cur th at st s)) = (authority s)(th := (c, at_privilege at)) \<and>
       caps_le c (cap_flags (tcb s cur)))"
proof -
  obtain r s1 where i: "ulmk_thread_init th at st s = (r, s1)" by fastforce
  have "caps_le (c AND d) c" "caps_le c c" for c d by (auto simp: caps_le_def bit_eq_iff bit_simps)
  moreover have "authority s1 = (authority s)(th := (if at_privilege at = ULMK_PRIV_KERNEL then ULMK_CAP_ALL else 0, at_privilege at))"
    if "r = ULMK_OK" using thread_init_authority' [of th at st s] i that by simp
  moreover have "authority s1 = authority s" if "r \<noteq> ULMK_OK" using thread_init_authority' [of th at st s] i that by simp
  ultimately show ?thesis
    using assms
    by (simp add: spawn_tail_def i Let_def case_prod_beta view_rules authority_set_caps authority_fields)
      (auto simp: view_rules authority_set_caps authority_fields intro!: exI)
qed

lemma spawn_within:
  assumes "ulmk_sched_current s = cur" "fst (k_heap_alloc (sizeof_thread (cfg s)) s) \<noteq> cur"
  shows "within (cap_flags (tcb s cur)) (privilege (tcb s cur)) s (snd (ulmk_kern_thread_spawn p s))"
proof (cases "at_privilege (uattr s p) > privilege (tcb s cur)")
  case True
  then show ?thesis
    using assms(1) by (auto simp: ulmk_kern_thread_spawn_def Let_def intro: within_same)
next
  case False
  define at where "at = spawn_attr (cfg s) (uattr s p)"
  obtain th s1 where al: "k_heap_alloc (sizeof_thread (cfg s)) s = (th, s1)" by fastforce
  have a1: "authority s1 = authority s" using au.v_heap(1) [of "sizeof_thread (cfg s)" s] al by simp
  obtain r s2 where st: "stack_alloc_k (at_stack_size at) s1 = (r, s2)" by fastforce
  have a2: "authority s2 = authority s" using au.v_thread(7) [of "at_stack_size at" s1] st a1 by simp
  have "th \<noteq> cur" using assms(2) al by simp
  note tail = spawn_tail_authority [OF this, where s = s2]
  have "within (cap_flags (tcb s cur)) (privilege (tcb s cur)) s (snd (spawn_tail cur th (at\<lparr>at_stack_size := sz\<rparr>) stack s2))" for sz stack
    using tail [of "at\<lparr>at_stack_size := sz\<rparr>" stack] False a2
    by (auto intro: within_same within_upd simp: at_def spawn_attr_def Let_def authority_fields)
  moreover have "within (cap_flags (tcb s cur)) (privilege (tcb s cur)) s s'" if "authority s' = authority s" for s'
    by (rule within_same [OF that])
  ultimately show ?thesis
    using a1 a2 False
    by (simp add: ulmk_kern_thread_spawn_def Let_def assms(1) al at_def [symmetric] st view_rules split: option.split)
qed

lemma cap_grant_within:
  assumes "ulmk_sched_current s = cur"
  shows "within (cap_flags (tcb s cur)) (privilege (tcb s cur)) s (snd (ulmk_kern_cap_grant t c s))"
proof (cases "cap_flags (tcb s cur) AND ucast c = (ucast c :: u8)")
  case True
  then have "caps_le (ucast c) (cap_flags (tcb s cur))" by (simp add: caps_le_def and.commute)
  then show ?thesis
    using assms by (simp add: ulmk_kern_cap_grant_def Let_def within_def caps_le_def [of x x for x])
next
  case False
  then show ?thesis
    using assms by (simp add: ulmk_kern_cap_grant_def Let_def within_same)
qed

lemma within_gates:
  "within C P s (snd r) \<Longrightarrow> within C P s (snd (require_driver s r))"
  "within C P s (snd r) \<Longrightarrow> within C P s (snd (require_cap c s r))"
  "within C P s (snd r) \<Longrightarrow> within C P s (snd (mmap_gate fl s r))"
  by (simp_all add: require_driver_def require_cap_def mmap_gate_def Let_def within_same)

lemma router_within:
  assumes "ulmk_sched_current s = cur" "fst (k_heap_alloc (sizeof_thread (cfg s)) s) \<noteq> cur"
  shows "within (cap_flags (tcb s cur)) (privilege (tcb s cur)) s (snd (ulmk_syscall_router nr a0 a1 a2 a3 s))"
  unfolding ulmk_syscall_router_def
  by (intro snd_if_intro [of _ "within (cap_flags (tcb s cur)) (privilege (tcb s cur)) s"])
    (simp_all add: within_gates within_same view_rules spawn_within [OF assms] cap_grant_within [OF assms(1)])

section \<open>The gates\<close>










text \<open>One running thread at \<open>0x1000\<close>, with the given privilege and capabilities, on an empty heap.\<close>

definition one_thread :: "ulmk_privilege \<Rightarrow> u8 \<Rightarrow> kstate" where
  "one_thread p c = (kzero up_cfg)\<lparr>tcb := (\<lambda>_. thread_zero)(4096 := thread_zero\<lparr>privilege := p, cap_flags := c, state := RUNNING\<rparr>),
     percpu := (\<lambda>_. percpu_zero\<lparr>current := 4096\<rparr>)\<rparr>"

lemma one_thread_simps:
  "ulmk_sched_current (one_thread p c) = 4096" "privilege (tcb (one_thread p c) 4096) = p"
  "cap_flags (tcb (one_thread p c) 4096) = c" "\<not> ulmk_irq_in_attach (one_thread p c)"
  "fst (k_heap_alloc z (one_thread p c)) = NULL"
  by (simp_all add: one_thread_def ulmk_sched_current_def ulmk_percpu_def percpu_zero_def ulmk_irq_in_attach_def
      k_heap_alloc_def ulmk_heap_alloc_def find_free_block_def Let_def split: prod.split)



text \<open>C1. Authority is confined: whatever system call a thread makes, no thread holds afterwards a
  capability that neither it nor the caller had, nor a privilege above both its own and the caller's. The hypothesis is the
  allocator's: a TCB for a new thread is not the caller's own.\<close>

theorem syscall_confines_authority:
  assumes "ulmk_sched_current s = cur" "fst (k_heap_alloc (sizeof_thread (cfg s)) s) \<noteq> cur"
  shows "within (cap_flags (tcb s cur)) (privilege (tcb s cur)) s (snd (ulmk_syscall_router nr a0 a1 a2 a3 s))"
  by (rule router_within [OF assms])

theorem syscall_confines_authority_witness:
  "within (ucast ULMK_CAP_GRANT_CAP) ULMK_PRIV_DRIVER (one_thread ULMK_PRIV_DRIVER (ucast ULMK_CAP_GRANT_CAP))
     (snd (ulmk_syscall_router ULMK_SYS_PROC_GRANT_CAP 8192 0xFF 0 0 (one_thread ULMK_PRIV_DRIVER (ucast ULMK_CAP_GRANT_CAP))))"
  using syscall_confines_authority [OF one_thread_simps(1), of ULMK_PRIV_DRIVER "ucast ULMK_CAP_GRANT_CAP"
      ULMK_SYS_PROC_GRANT_CAP 8192 "0xFF" 0 0]
  by (simp add: one_thread_simps)

end
