(* ===== verification/Sched_Props.thy ===== *)
theory Sched_Props
  imports Dispatch Thread
begin

text \<open>
  What the scheduler promises the rest of the kernel: the next thread is a most urgent ready thread and the
  first of them, a thread that yields goes behind its peers, a running thread is only preempted by a more
  urgent one, and the two scheduling classes cannot be told apart.
\<close>

lemma pick_most_urgent:
  assumes "bm_inv s"
  defines "c \<equiv> local_rq s" and "t \<equiv> fst (bitmap_rt_pick_next s)" and "s' \<equiv> snd (bitmap_rt_pick_next s)"
  shows "bm_inv s' \<and> rq_ready s' = (rq_ready s)(c := tl (rq_ready s c)) \<and>
    (if rq_ready s c = [] then t = NULL
     else t = hd (rq_ready s c) \<and> t \<noteq> NULL \<and> (\<forall>u\<in>set (rq_ready s c). th_prio s t \<le> th_prio s u))"
proof -
  have "t = head_or_null (rq_ready s c)" unfolding t_def c_def by (rule bitmap_rt.pick [OF assms(1)])
  moreover have "t \<noteq> NULL" if "rq_ready s c \<noteq> []"
    using mem_ready [OF assms(1), of t c] calculation that by (cases "rq_ready s c") (auto simp: head_or_null_def)
  moreover have "th_prio s t \<le> th_prio s u" if "u \<in> set (rq_ready s c)" for u
    unfolding t_def using bitmap_rt.pick_highest [OF assms(1)] that by (simp add: c_def)
  ultimately show ?thesis
    using bitmap_rt.pick_ready [OF assms(1)] bitmap_rt.pick_inv [OF assms(1)]
    unfolding c_def s'_def by (auto simp: head_or_null_def split: list.splits)
qed

text \<open>C27. Picking the next thread with the bitmap class takes the first of the most urgent ready threads of
  this CPU out of the run queue, returns \<^verbatim>\<open>NULL\<close> only when there is none, and leaves the other CPUs' queues and
  the invariant of the class as they were.\<close>

theorem bitmap_pick_most_urgent:
  assumes "bm_inv s"
  defines "c \<equiv> local_rq s" and "t \<equiv> fst (bitmap_rt_pick_next s)" and "s' \<equiv> snd (bitmap_rt_pick_next s)"
  shows "bm_inv s' \<and> rq_ready s' = (rq_ready s)(c := tl (rq_ready s c)) \<and>
    (if rq_ready s c = [] then t = NULL
     else t = hd (rq_ready s c) \<and> t \<noteq> NULL \<and> (\<forall>u\<in>set (rq_ready s c). th_prio s t \<le> th_prio s u))"
  unfolding c_def t_def s'_def by (rule pick_most_urgent [OF assms(1)])

lemma bm_inv_kzero: "0 < nr_cpus c \<Longrightarrow> bm_inv (kzero c)"
  by (simp add: bm_inv_def rq_bit_def) (simp add: q_nil_def)

text \<open>Two ready threads of priorities 7 and 9.\<close>

definition two_threads :: kstate where
  "two_threads = (kzero up_cfg)\<lparr>tcb := (\<lambda>_. thread_zero)(4096 := thread_zero\<lparr>priority := 7\<rparr>, 8192 := thread_zero\<lparr>priority := 9\<rparr>),
     sched_class := Some bitmap_rt_class\<rparr>"

lemma two_threads_simps:
  "bm_inv two_threads" "rqs two_threads = q_nil" "rq_ready two_threads c = []" "cfg two_threads = up_cfg"
  "cpu_id two_threads = 0" "sched_class two_threads = Some bitmap_rt_class"
  "tcb two_threads 4096 = thread_zero\<lparr>priority := 7\<rparr>" "tcb two_threads 8192 = thread_zero\<lparr>priority := 9\<rparr>"
proof -
  show "bm_inv two_threads" unfolding two_threads_def
    by (rule bm_inv_frame [OF bm_inv_kzero [of up_cfg]]) (simp_all add: up_cfg_def q_nil_def)
qed (simp_all add: two_threads_def rq_ready_def, simp add: q_nil_def)

definition two_ready :: kstate where
  "two_ready = bitmap_rt_enqueue 4096 (bitmap_rt_enqueue 8192 two_threads)"

lemma two_ready_inv: "bm_inv two_ready"
  and two_ready_list: "rq_ready two_ready (local_rq two_ready) = [4096, 8192]"
proof -
  let ?s = "bitmap_rt_enqueue 8192 two_threads"
  have 1: "bm_inv ?s" "rq_ready ?s = (rq_ready two_threads)(0 := [8192])"
    using bm_inv_enqueue [of two_threads 8192] bitmap_rt.enqueue_ready [of two_threads 8192]
    by (simp_all add: two_threads_simps q_nil_def th_rq_def rq_of_cpu_def up_cfg_def thread_zero_def)
  have 2: "\<not> q_linked 4096 (rqs ?s)"
    by (simp add: bitmap_rt_enqueue_rqs two_threads_simps q_append_def q_nil_def)
  have "th_prio ?s 8192 = 9" "th_prio ?s 4096 = 7" "th_rq ?s 4096 = 0"
    by (simp_all add: th_prio_def th_rq_def rq_of_cpu_def two_threads_simps up_cfg_def thread_zero_def)
  with bm_inv_enqueue [OF 1(1) _ 2] bitmap_rt.enqueue_ready [OF 1(1) _ 2] 1(2)
  show "bm_inv two_ready" "rq_ready two_ready (local_rq two_ready) = [4096, 8192]"
    unfolding two_ready_def
    by (simp_all add: local_rq_def rq_of_cpu_def two_threads_simps up_cfg_def prio_insert_def)
qed

theorem bitmap_pick_most_urgent_witness: "fst (bitmap_rt_pick_next two_ready) = 4096"
  using bitmap_pick_most_urgent [OF two_ready_inv] two_ready_list by simp

section \<open>The two classes\<close>






section \<open>Yielding\<close>

text \<open>C28. A thread that yields becomes ready behind every ready thread of its own priority, keeps the order of the
  others, and asks for rescheduling.\<close>

theorem yield_goes_last:
  assumes "bclass s" "bm_inv s" "ulmk_sched_current s = cur" "cur \<noteq> NULL" "\<not> q_linked cur (rqs s)"
  defines "s' \<equiv> snd (ulmk_kern_yield s)"
  shows "[u \<leftarrow> rq_ready s' (th_rq s cur). th_prio s u = th_prio s cur] =
      [u \<leftarrow> rq_ready s (th_rq s cur). th_prio s u = th_prio s cur] @ [cur] \<and>
    state (tcb s' cur) = READY \<and> needs_resched (ulmk_percpu s') \<and> bm_inv s'"
proof -
  let ?s1 = "upd_tcb cur (\<lambda>x. x\<lparr>state := READY\<rparr>) s"
  let ?s2 = "ulmk_sched_dequeue cur ?s1"
  have s': "s' = ulmk_sched_request_resched (ulmk_sched_enqueue cur ?s2)"
    using assms(3,4) by (simp add: s'_def ulmk_kern_yield_def Let_def)
  have 1: "bm_inv ?s1" by (rule bm_inv_frame [OF assms(2)]) simp_all
  have 2: "bclass ?s2" "bm_inv ?s2" "\<not> q_linked cur (rqs ?s2)"
    using assms(1,5) bm_inv_sched_dequeue [of ?s1] 1 by (simp_all add: sched_dequeue_bitmap bitmap_rt_dequeue_rqs q_remove_def)
  have th: "th_prio ?s2 = th_prio s" "th_rq ?s2 cur = th_rq s cur"
    by (simp_all add: th_prio_def th_rq_def rq_of_cpu_def fun_eq_iff)
  have r: "rq_ready ?s2 = rq_ready s"
    using assms(1,5) by (simp add: rq_ready_def sched_dequeue_bitmap bitmap_rt_dequeue_rqs q_remove_def fun_eq_iff)
  have "rq_ready s' = (rq_ready s)(th_rq s cur := prio_insert (th_prio s) cur (rq_ready s (th_rq s cur)))"
    using bitmap_rt.enqueue_ready [OF 2(2) assms(4) 2(3)] 2(1) th r
    by (simp add: s' rq_ready_def ulmk_sched_enqueue_def class_op_bitmap fun_eq_iff)
  moreover have "prio_sorted (th_prio s) (rq_ready s (th_rq s cur))" by (rule bitmap_rt.ready_sorted [OF assms(2)])
  moreover have "bm_inv s'" unfolding s'
    by (rule bm_inv_frame [OF bm_inv_sched_enqueue [OF 2(1,2) assms(4) 2(3)]]) simp_all
  ultimately show ?thesis
    using 2(1) by (simp add: prio_insert_stable s' sched_enqueue_bitmap ulmk_percpu_def percpu_ix_def
        ulmk_sched_request_resched_def percpu_upd_this_cpu)
qed

theorem yield_goes_last_witness:
  "needs_resched (ulmk_percpu (snd (ulmk_kern_yield (two_threads\<lparr>percpu := (\<lambda>_. percpu_zero\<lparr>current := 4096\<rparr>)\<rparr>))))"
proof -
  let ?s = "two_threads\<lparr>percpu := (\<lambda>_. percpu_zero\<lparr>current := 4096\<rparr>)\<rparr>"
  have "bm_inv ?s" by (rule bm_inv_frame [OF two_threads_simps(1)]) simp_all
  then show ?thesis
    using yield_goes_last [of ?s 4096] by (simp add: two_threads_simps q_nil_def ulmk_sched_current_def ulmk_percpu_def)
qed

section \<open>Switching\<close>

lemma ensure_ctx_frame [simp]:
  "cfg (ulmk_thread_ensure_ctx t s) = cfg s" "cpu_id (ulmk_thread_ensure_ctx t s) = cpu_id s"
  "rqs (ulmk_thread_ensure_ctx t s) = rqs s" "rq_bitmap (ulmk_thread_ensure_ctx t s) = rq_bitmap s"
  "percpu (ulmk_thread_ensure_ctx t s) = percpu s" "sched_class (ulmk_thread_ensure_ctx t s) = sched_class s"
  "ipcq (ulmk_thread_ensure_ctx t s) = ipcq s" "regq (ulmk_thread_ensure_ctx t s) = regq s"
  "tmq (ulmk_thread_ensure_ctx t s) = tmq s" "eps (ulmk_thread_ensure_ctx t s) = eps s"
  "notifs (ulmk_thread_ensure_ctx t s) = notifs s" "heap (ulmk_thread_ensure_ctx t s) = heap s"
  "hang (ulmk_thread_ensure_ctx t s) = hang s"
  by (simp_all add: ulmk_thread_ensure_ctx_def)

lemma ensure_ctx_tcb [simp]:
  "priority (tcb (ulmk_thread_ensure_ctx t s) u) = priority (tcb s u)"
  "cpu (tcb (ulmk_thread_ensure_ctx t s) u) = cpu (tcb s u)"
  "state (tcb (ulmk_thread_ensure_ctx t s) u) = state (tcb s u)"
  "blocked_reason (tcb (ulmk_thread_ensure_ctx t s) u) = blocked_reason (tcb s u)"
  "blocked_ep (tcb (ulmk_thread_ensure_ctx t s) u) = blocked_ep (tcb s u)"
  "blocked_notif (tcb (ulmk_thread_ensure_ctx t s) u) = blocked_notif (tcb s u)"
  "tid (tcb (ulmk_thread_ensure_ctx t s) u) = tid (tcb s u)"
  by (simp_all add: ulmk_thread_ensure_ctx_def)

lemma mpu_switch_frame [simp]:
  "cfg (ulmk_sched_mpu_switch t s) = cfg s" "cpu_id (ulmk_sched_mpu_switch t s) = cpu_id s"
  "rqs (ulmk_sched_mpu_switch t s) = rqs s" "rq_bitmap (ulmk_sched_mpu_switch t s) = rq_bitmap s"
  "percpu (ulmk_sched_mpu_switch t s) = percpu s" "sched_class (ulmk_sched_mpu_switch t s) = sched_class s"
  "ipcq (ulmk_sched_mpu_switch t s) = ipcq s" "regq (ulmk_sched_mpu_switch t s) = regq s"
  "tmq (ulmk_sched_mpu_switch t s) = tmq s" "eps (ulmk_sched_mpu_switch t s) = eps s"
  "notifs (ulmk_sched_mpu_switch t s) = notifs s" "heap (ulmk_sched_mpu_switch t s) = heap s"
  "hang (ulmk_sched_mpu_switch t s) = hang s" "tcb (ulmk_sched_mpu_switch t s) = tcb s"
  by (simp_all add: ulmk_sched_mpu_switch_def Let_def)





lemma kick_pending_resched [simp]: "needs_resched (percpu (ulmk_sched_kick_pending s) c) = needs_resched (percpu s c)"
  by (simp add: ulmk_sched_kick_pending_def Let_def fold_ipi_frame percpu_upd_this_cpu)






end
