(* ===== verification/Ipc_Props.thy ===== *)
theory Ipc_Props
  imports Sched_Props Notif
begin

text \<open>
  What endpoints and notifications promise: a call meets a waiting server or queues behind the earlier
  callers, the server is served the request at the caller's priority and gives the priority back with the
  reply, destroying an endpoint releases everyone blocked on it, and no notification bit is lost or delivered
  twice, whichever of the signal and the wait comes first.
\<close>

section \<open>Frames\<close>

lemma leave_waiter_slot_frame [simp]:
  "cfg (leave_waiter_slot th s) = cfg s" "cpu_id (leave_waiter_slot th s) = cpu_id s"
  "rqs (leave_waiter_slot th s) = rqs s" "rq_bitmap (leave_waiter_slot th s) = rq_bitmap s"
  "ipcq (leave_waiter_slot th s) = ipcq s" "regq (leave_waiter_slot th s) = regq s"
  "tmq (leave_waiter_slot th s) = tmq s" "percpu (leave_waiter_slot th s) = percpu s"
  "sched_class (leave_waiter_slot th s) = sched_class s" "eps (leave_waiter_slot th s) = eps s"
  "umsg (leave_waiter_slot th s) = umsg s" "uword (leave_waiter_slot th s) = uword s"
  "urn (leave_waiter_slot th s) = urn s" "hang (leave_waiter_slot th s) = hang s"
  by (simp_all add: leave_waiter_slot_def Let_def)

lemma thread_field_idem:
  "blocked_notif x = v \<Longrightarrow> x\<lparr>blocked_notif := v\<rparr> = x" "priority x = p \<Longrightarrow> x\<lparr>priority := p\<rparr> = x"
  for x :: ulmk_thread
  by auto

lemma tcb_leave_waiter_slot [simp]:
  "tcb (leave_waiter_slot th s) = (tcb s)(th := (tcb s th)\<lparr>blocked_notif := ULMK_NOTIF_INVALID\<rparr>)"
  by (auto simp: leave_waiter_slot_def Let_def thread_field_idem)

lemma tcb_timeout_disarm:
  "tcb (ulmk_timeout_disarm th s) =
     (if th = NULL then tcb s else (tcb s)(th := (tcb s th)\<lparr>timeout := (timeout (tcb s th))\<lparr>cb := CB_NULL\<rparr>\<rparr>))"
  by (simp add: ulmk_timeout_disarm_def Let_def)

lemma apply_prio_inherit_eq:
  "server \<noteq> caller \<Longrightarrow> apply_prio_inherit server caller s =
     upd_tcb server (\<lambda>x. x\<lparr>saved_prio := priority x, priority := min (priority (tcb s caller)) (priority x)\<rparr>) s"
  by (cases "tcb s server") (simp add: apply_prio_inherit_def upd_tcb_def Let_def min_def not_less)


lemma ipc_pop_head_Cons:
  assumes "q_of (ipcq s) h = t # ts"
  shows "ipc_pop_head h s = (t, upd_ipcq (q_remove t) s)"
proof -
  have "\<not> q_linked t (q_remove t (ipcq s))" by (auto simp: q_remove_def split: option.split)
  then show ?thesis using assms
    by (simp add: ipc_pop_head_def q_get_def q_node_init_def upd_ipcq_def)
qed


lemma q_remove_head:
  assumes "q_wf q" "q_of q h = t # ts"
  shows "q_of (q_remove t q) = (q_of q)(h := ts)" "link (q_remove t q) = (link q)(t := None)"
    "dl_ub (q_remove t q) = dl_ub q"
proof -
  have "link q t = Some h" using q_wf_mem [OF assms(1), of t h] assms(2) by simp
  then show "q_of (q_remove t q) = (q_of q)(h := ts)" "link (q_remove t q) = (link q)(t := None)"
    "dl_ub (q_remove t q) = dl_ub q"
    using assms(2) by (simp_all add: q_remove_def)
qed

section \<open>A call that meets a waiting server\<close>

text \<open>The server once the request \<open>m\<close> of caller \<open>c\<close> with priority \<open>p\<close> is handed over.\<close>

definition served :: "ulmk_msg \<Rightarrow> addr \<Rightarrow> u8 \<Rightarrow> ulmk_thread \<Rightarrow> ulmk_thread" where
  "served m c p x = x\<lparr>ipc_sender := c, saved_prio := priority x, priority := min p (priority x),
     blocked_reason := BLOCKED_NONE, blocked_ep := ULMK_EP_INVALID, blocked_notif := ULMK_NOTIF_INVALID,
     ipc_msg := m, ipc_msg_outptr := NULL, ipc_sender_outptr := NULL, rn_result_outptr := NULL\<rparr>"

definition store_at :: "addr \<Rightarrow> 'a \<Rightarrow> (addr \<Rightarrow> 'a) \<Rightarrow> addr \<Rightarrow> 'a" where
  "store_at p v f = (if p = NULL then f else f(p := v))"

lemma prepare_server_delivery_tcb:
  assumes "server \<noteq> caller"
  shows "tcb (prepare_server_delivery server caller msg s) =
    (tcb s)(server := served (umsg s msg) (tid (tcb s caller)) (priority (tcb s caller)) (tcb s server))"
  using assms by (cases "tcb s server")
    (simp add: prepare_server_delivery_def clear_server_block_def apply_prio_inherit_eq served_def Let_def)

lemma prepare_server_delivery_frame [simp]:
  "cfg (prepare_server_delivery srv c m s) = cfg s" "cpu_id (prepare_server_delivery srv c m s) = cpu_id s"
  "rqs (prepare_server_delivery srv c m s) = rqs s"
  "rq_bitmap (prepare_server_delivery srv c m s) = rq_bitmap s"
  "ipcq (prepare_server_delivery srv c m s) = ipcq s" "regq (prepare_server_delivery srv c m s) = regq s"
  "tmq (prepare_server_delivery srv c m s) = tmq s" "percpu (prepare_server_delivery srv c m s) = percpu s"
  "sched_class (prepare_server_delivery srv c m s) = sched_class s"
  "eps (prepare_server_delivery srv c m s) = eps s" "hang (prepare_server_delivery srv c m s) = hang s"
  by (simp_all add: prepare_server_delivery_def clear_server_block_def apply_prio_inherit_def Let_def)

lemma prepare_server_delivery_umsg:
  assumes "server \<noteq> caller"
  shows "umsg (prepare_server_delivery server caller msg s) =
      store_at (ipc_msg_outptr (tcb s server)) (umsg s msg) (umsg s)"
    "uword (prepare_server_delivery server caller msg s) =
      store_at (ipc_sender_outptr (tcb s server)) (tid (tcb s caller)) (uword s)"
  using assms by (simp_all add: prepare_server_delivery_def clear_server_block_def apply_prio_inherit_eq
      store_at_def Let_def)

lemma ep_by_id_lock [simp]: "ulmk_ep_by_id i (lock l s) = ulmk_ep_by_id i s"
  by (simp add: ulmk_ep_by_id_def)

lemma notif_by_id_lock [simp]: "ulmk_notif_by_id i (lock l s) = ulmk_notif_by_id i s"
  by (simp add: ulmk_notif_by_id_def)

text \<open>The caller once its request is staged.\<close>

definition calling :: "addr \<Rightarrow> addr \<Rightarrow> ulmk_thread \<Rightarrow> ulmk_thread" where
  "calling ep msg x = x\<lparr>ipc_sender := ULMK_TID_INVALID, blocked_reason := BLOCKED_IPC_CALL, blocked_ep := ep,
     ipc_msg_outptr := msg, block_status := 0, state := BLOCKED\<rparr>"

text \<open>What a caller and an endpoint must be for the call to go through.\<close>

definition can_call :: "addr \<Rightarrow> addr \<Rightarrow> addr \<Rightarrow> kstate \<Rightarrow> bool" where
  "can_call ep msg cur s \<longleftrightarrow> msg \<noteq> NULL \<and> ep \<noteq> NULL \<and> ep_active (eps s ep) \<and>
     cur = ulmk_sched_current s \<and> cur \<noteq> NULL \<and> bclass s \<and> q_wf (ipcq s) \<and> \<not> q_linked cur (ipcq s)"

lemma can_callD:
  assumes "can_call ep msg cur s"
  shows "msg \<noteq> NULL" "ulmk_ep_by_id ep s = ep" "ep \<noteq> NULL" "cur \<noteq> NULL" "bclass s" "q_wf (ipcq s)"
    "\<not> q_linked cur (ipcq s)" "ulmk_sched_current s = cur"
  using assms unfolding can_call_def ulmk_ep_by_id_def by auto

lemma call_served:
  assumes c: "can_call ep msg cur s" and q: "q_of (ipcq s) (RecvQ ep) = srv # rest" and srv: "srv \<noteq> NULL"
  defines "s' \<equiv> snd (ep_call_impl ep msg s)"
  shows "fst (ep_call_impl ep msg s) = 0"
    "tcb s' = (tcb s)(cur := calling ep msg (tcb s cur),
       srv := (served (umsg s msg) (tid (tcb s cur)) (priority (tcb s cur)) (tcb s srv))\<lparr>state := READY\<rparr>)"
    "ipcq s' = q_remove srv (ipcq s)"
    "umsg s' = store_at (ipc_msg_outptr (tcb s srv)) (umsg s msg) (umsg s)"
    "uword s' = store_at (ipc_sender_outptr (tcb s srv)) (tid (tcb s cur)) (uword s)"
    "q_linked srv (rqs s')" "regq s' = regq s" "hang s' = hang s" "bclass s'"
proof -
  have ne: "srv \<noteq> cur"
    using can_callD(6,7) [OF c] q q_wf_mem [of "ipcq s" srv "RecvQ ep"] by auto
  note d = can_callD [OF c]
  define s1 where "s1 = upd_tcb cur (\<lambda>x. x\<lparr>ipc_sender := ULMK_TID_INVALID, blocked_reason := BLOCKED_IPC_CALL,
       blocked_ep := ep, ipc_msg_outptr := msg, block_status := 0\<rparr>) (lock LIpc s)"
  define s2 where "s2 = upd_tcb cur (\<lambda>x. x\<lparr>state := BLOCKED\<rparr>) (upd_tcb srv (\<lambda>x. x\<lparr>state := READY\<rparr>)
       (prepare_server_delivery srv cur msg (upd_ipcq (q_remove srv) s1)))"
  have r: "ep_call_rendezvous ep ep cur msg (lock LIpc s) = (srv, s2)"
  proof -
    have "q_of (ipcq s1) (RecvQ ep) = srv # rest" using q by (simp add: s1_def)
    then show ?thesis
      unfolding ep_call_rendezvous_def s1_def [symmetric] s2_def Let_def by (simp add: ipc_pop_head_Cons)
  qed
  have e: "ep_call_impl ep msg s =
      (0, ulmk_sched_kick_pending (ulmk_sched_enqueue srv (ulmk_sched_dequeue cur (unlock LIpc s2))))"
    using d srv by (simp add: ep_call_impl_def Let_def r)
  have t2: "tcb s2 = (tcb s)(cur := calling ep msg (tcb s cur),
      srv := (served (umsg s msg) (tid (tcb s cur)) (priority (tcb s cur)) (tcb s srv))\<lparr>state := READY\<rparr>)"
    using ne by (simp add: s2_def prepare_server_delivery_tcb s1_def calling_def fun_upd_twist)
  have b: "bclass s2" using d by (simp add: s2_def s1_def)
  show "fst (ep_call_impl ep msg s) = 0" by (simp add: e)
  have "tcb s' = (tcb s2)(srv := (tcb s2 srv)\<lparr>state := READY\<rparr>)"
    using b by (simp add: s'_def e sched_enqueue_bitmap)
  then show "tcb s' = (tcb s)(cur := calling ep msg (tcb s cur),
       srv := (served (umsg s msg) (tid (tcb s cur)) (priority (tcb s cur)) (tcb s srv))\<lparr>state := READY\<rparr>)"
    by (simp add: t2)
  show "ipcq s' = q_remove srv (ipcq s)" "regq s' = regq s" "hang s' = hang s" "bclass s'"
    using b by (simp_all add: s'_def e s2_def s1_def sched_enqueue_bitmap sched_dequeue_bitmap)
  show "umsg s' = store_at (ipc_msg_outptr (tcb s srv)) (umsg s msg) (umsg s)"
    "uword s' = store_at (ipc_sender_outptr (tcb s srv)) (tid (tcb s cur)) (uword s)"
    using ne by (simp_all add: s'_def e s2_def s1_def prepare_server_delivery_umsg)
  show "q_linked srv (rqs s')"
    using b by (simp add: s'_def e sched_enqueue_bitmap q_append_def)
qed

lemma call_queues:
  assumes c: "can_call ep msg cur s" and q: "q_of (ipcq s) (RecvQ ep) = []"
  defines "s' \<equiv> snd (ep_call_impl ep msg s)"
  shows "fst (ep_call_impl ep msg s) = 0" "tcb s' = (tcb s)(cur := calling ep msg (tcb s cur))"
    "ipcq s' = q_append (SendQ ep) cur (ipcq s)" "umsg s' = umsg s" "uword s' = uword s" "hang s' = hang s"
    "bclass s'"
proof -
  note d = can_callD [OF c]
  define s1 where "s1 = upd_tcb cur (\<lambda>x. x\<lparr>ipc_sender := ULMK_TID_INVALID, blocked_reason := BLOCKED_IPC_CALL,
       blocked_ep := ep, ipc_msg_outptr := msg, block_status := 0\<rparr>) (lock LIpc s)"
  define s2 where "s2 = upd_tcb cur (\<lambda>x. x\<lparr>state := BLOCKED\<rparr>) (upd_ipcq (q_append (SendQ ep) cur) s1)"
  have e: "ep_call_impl ep msg s = (0, ulmk_sched_kick_pending (ulmk_sched_dequeue cur (unlock LIpc s2)))"
    using d q by (simp add: ep_call_impl_def ep_call_rendezvous_def s2_def s1_def ipc_enqueue_tail_def Let_def)
  show "fst (ep_call_impl ep msg s) = 0" "tcb s' = (tcb s)(cur := calling ep msg (tcb s cur))"
    "ipcq s' = q_append (SendQ ep) cur (ipcq s)" "umsg s' = umsg s" "uword s' = uword s" "hang s' = hang s"
    "bclass s'"
    using d by (simp_all add: s'_def e s2_def s1_def calling_def sched_dequeue_bitmap)
qed

section \<open>Replying\<close>

definition replied :: "ulmk_msg \<Rightarrow> ulmk_thread \<Rightarrow> ulmk_thread" where
  "replied m x = x\<lparr>ipc_msg := (if ipc_msg_outptr x = NULL then m else ipc_msg x), ipc_msg_outptr := NULL,
     blocked_reason := BLOCKED_NONE, blocked_ep := ULMK_EP_INVALID, timeout := (timeout x)\<lparr>cb := CB_NULL\<rparr>,
     state := READY\<rparr>"

text \<open>A caller that waits for its reply.\<close>

definition awaits_reply :: "addr \<Rightarrow> kstate \<Rightarrow> bool" where
  "awaits_reply c s \<longleftrightarrow> c \<noteq> NULL \<and> q_linked c (regq s) \<and> state (tcb s c) = BLOCKED \<and>
     blocked_reason (tcb s c) = BLOCKED_IPC_CALL"

lemma reply_wakes:
  assumes c: "awaits_reply c s" and cur: "cur = ulmk_sched_current s" "cur \<noteq> NULL" "cur \<noteq> c" and b: "bclass s"
    and r: "reply \<noteq> NULL"
  defines "s' \<equiv> snd (ep_reply_impl c reply s)"
  shows "fst (ep_reply_impl c reply s) = 0"
    "tcb s' = (tcb s)(cur := (tcb s cur)\<lparr>priority := saved_prio (tcb s cur)\<rparr>, c := replied (umsg s reply) (tcb s c))"
    "umsg s' = store_at (ipc_msg_outptr (tcb s c)) (umsg s reply) (umsg s)"
    "q_linked c (rqs s')" "ulmk_sched_current s' = cur" "regq s' = regq s" "bclass s'" "hang s' = hang s"
    "ipcq s' = ipcq s"
proof -
  let ?v = "upd_tcb cur (\<lambda>x. x\<lparr>priority := saved_prio x\<rparr>) (lock LIpc s)"
  define s1 where "s1 = (if ipc_msg_outptr (tcb s c) \<noteq> NULL
      then upd_tcb c (\<lambda>x. x\<lparr>ipc_msg_outptr := NULL\<rparr>) (upd_umsg (ipc_msg_outptr (tcb s c)) (umsg s reply) ?v)
      else upd_tcb c (\<lambda>x. x\<lparr>ipc_msg := umsg s reply\<rparr>) ?v)"
  define s2 where "s2 = upd_tcb c (\<lambda>x. x\<lparr>state := READY, blocked_reason := BLOCKED_NONE,
      blocked_ep := ULMK_EP_INVALID\<rparr>) s1"
  have e: "ep_reply_impl c reply s = (0, ulmk_sched_kick_pending
      (ulmk_sched_enqueue c (ulmk_timeout_disarm c (unlock LIpc s2))))"
    using c cur r by (simp add: ep_reply_impl_def s2_def s1_def ulmk_thread_by_tid_def awaits_reply_def Let_def)
  have f: "cfg s1 = cfg s" "cpu_id s1 = cpu_id s" "percpu s1 = percpu s" "bclass s1" "regq s1 = regq s"
    "hang s1 = hang s" "ipcq s1 = ipcq s"
    using b by (simp_all add: s1_def)
  have t: "tcb s2 = (tcb s)(cur := (tcb s cur)\<lparr>priority := saved_prio (tcb s cur)\<rparr>,
      c := (tcb s c)\<lparr>ipc_msg := (if ipc_msg_outptr (tcb s c) = NULL then umsg s reply else ipc_msg (tcb s c)),
        ipc_msg_outptr := NULL, state := READY, blocked_reason := BLOCKED_NONE, blocked_ep := ULMK_EP_INVALID\<rparr>)"
    using cur by (auto simp: s2_def s1_def)
  show "fst (ep_reply_impl c reply s) = 0" by (simp add: e)
  have "bclass s2" using f by (simp add: s2_def)
  then have "tcb s' = (tcb s2)(c := (tcb s2 c)\<lparr>timeout := (timeout (tcb s2 c))\<lparr>cb := CB_NULL\<rparr>, state := READY\<rparr>)"
    using c by (simp add: s'_def e sched_enqueue_bitmap tcb_timeout_disarm awaits_reply_def)
  then show "tcb s' = (tcb s)(cur := (tcb s cur)\<lparr>priority := saved_prio (tcb s cur)\<rparr>,
      c := replied (umsg s reply) (tcb s c))"
    by (simp add: t replied_def)
  show "umsg s' = store_at (ipc_msg_outptr (tcb s c)) (umsg s reply) (umsg s)"
    by (simp add: s'_def e s2_def s1_def store_at_def)
  show "q_linked c (rqs s')" "regq s' = regq s" "bclass s'" "hang s' = hang s" "ipcq s' = ipcq s"
    using f by (simp_all add: s'_def e s2_def sched_enqueue_bitmap q_append_def)
  have "ulmk_sched_current s' = ulmk_sched_current s"
    by (rule sched_current_cong) (simp_all add: s'_def e s2_def f)
  then show "ulmk_sched_current s' = cur" by (simp add: cur)
qed

lemma thread_by_tid_awaits: "awaits_reply c s \<Longrightarrow> ulmk_thread_by_tid c s = c"
  by (simp add: awaits_reply_def ulmk_thread_by_tid_def)

lemma calling_simps [simp]:
  "blocked_reason (calling e m x) = BLOCKED_IPC_CALL" "state (calling e m x) = BLOCKED"
  "ipc_msg_outptr (calling e m x) = m" "tid (calling e m x) = tid x" "priority (calling e m x) = priority x"
  "timeout (calling e m x) = timeout x"
  by (simp_all add: calling_def)

lemma served_simps [simp]:
  "ipc_sender (served m c p x) = c" "saved_prio (served m c p x) = priority x"
  "priority (served m c p x) = min p (priority x)" "ipc_msg (served m c p x) = m"
  "blocked_reason (served m c p x) = BLOCKED_NONE" "blocked_ep (served m c p x) = ULMK_EP_INVALID"
  by (simp_all add: served_def)

lemma replied_simps [simp]:
  "state (replied m x) = READY" "blocked_reason (replied m x) = BLOCKED_NONE" "priority (replied m x) = priority x"
  "saved_prio (replied m x) = saved_prio x" "tid (replied m x) = tid x"
  "blocked_ep (replied m x) = ULMK_EP_INVALID"
  by (simp_all add: replied_def)

text \<open>C11. A call and its reply are a round trip. The caller's request reaches the server that waits first on the
  endpoint, in its message buffer and together with the caller's id; until it replies the server runs at the
  more urgent of the two priorities. Whatever happens until then, as long as the caller stays blocked and the
  server keeps its saved priority, the server's reply to that id ends in the caller's buffer, wakes the caller,
  and leaves the server with the priority it had before the call.\<close>

theorem call_reply_round_trip:
  assumes "can_call ep msg c s" "q_of (ipcq s) (RecvQ ep) = srv # rest" "srv \<noteq> NULL"
    "tid (tcb s c) = c" "ipc_msg_outptr (tcb s srv) \<noteq> NULL"
  defines "s1 \<equiv> snd (ep_call_impl ep msg s)"
  assumes "ulmk_sched_current s2 = srv" "tcb s2 c = tcb s1 c" "saved_prio (tcb s2 srv) = saved_prio (tcb s1 srv)"
    "q_linked c (regq s2)" "bclass s2" "reply \<noteq> NULL"
  defines "r \<equiv> ep_reply_impl (ipc_sender (tcb s1 srv)) reply s2"
  shows "umsg s1 (ipc_msg_outptr (tcb s srv)) = umsg s msg \<and> ipc_sender (tcb s1 srv) = c \<and>
    state (tcb s1 srv) = READY \<and> state (tcb s1 c) = BLOCKED \<and>
    priority (tcb s1 srv) = min (priority (tcb s c)) (priority (tcb s srv)) \<and>
    fst r = 0 \<and> umsg (snd r) msg = umsg s2 reply \<and> state (tcb (snd r) c) = READY \<and> q_linked c (rqs (snd r)) \<and>
    priority (tcb (snd r) srv) = priority (tcb s srv)"
proof -
  note d = can_callD [OF assms(1)]
  have ne: "srv \<noteq> c" using d(6,7) assms(2) q_wf_mem [of "ipcq s" srv "RecvQ ep"] by auto
  note call = call_served [OF assms(1-3), folded s1_def]
  have t1: "tcb s1 c = calling ep msg (tcb s c)" "ipc_sender (tcb s1 srv) = c"
    "saved_prio (tcb s1 srv) = priority (tcb s srv)"
    using ne assms(4) by (simp_all add: call(2))
  have "awaits_reply c s2" using d(4) assms t1 by (simp add: awaits_reply_def)
  note rep = reply_wakes [OF this assms(7) [symmetric] assms(3) ne assms(11,12)]
  have "state (tcb s1 srv) = READY" "priority (tcb s1 srv) = min (priority (tcb s c)) (priority (tcb s srv))"
    "state (tcb s1 c) = BLOCKED" "umsg s1 (ipc_msg_outptr (tcb s srv)) = umsg s msg"
    using ne assms(5) by (simp_all add: call(2,4) store_at_def)
  moreover have "fst r = 0" "umsg (snd r) msg = umsg s2 reply" "state (tcb (snd r) c) = READY" "q_linked c (rqs (snd r))"
    "priority (tcb (snd r) srv) = priority (tcb s srv)"
    using ne assms(8,9) t1 d(1) rep(1-4) by (simp_all add: r_def store_at_def)
  ultimately show ?thesis using t1(2) by blast
qed

text \<open>A client of priority 5 that runs, and a server of priority 9 that waits on endpoint 12288.\<close>

definition rendezvous :: kstate where
  "rendezvous = (kzero up_cfg)\<lparr>sched_class := Some bitmap_rt_class,
     tcb := (\<lambda>_. thread_zero)(4096 := thread_zero\<lparr>tid := 4096, priority := 5, state := RUNNING\<rparr>,
       8192 := thread_zero\<lparr>tid := 8192, priority := 9, saved_prio := 9, state := BLOCKED,
         blocked_reason := BLOCKED_IPC_RECV, blocked_ep := 12288, ipc_msg_outptr := 20480\<rparr>),
     ipcq := q_append (RecvQ 12288) 8192 q_nil, regq := q_append () 4096 (q_append () 8192 q_nil),
     eps := (\<lambda>_. \<lparr>ep_id = 12288, ep_active = True\<rparr>),
     percpu := (\<lambda>_. percpu_zero\<lparr>current := 4096\<rparr>)\<rparr>"

lemma rendezvous_simps:
  "can_call 12288 16384 4096 rendezvous" "q_of (ipcq rendezvous) (RecvQ 12288) = [8192]"
  "tid (tcb rendezvous 4096) = 4096" "priority (tcb rendezvous 4096) = 5" "priority (tcb rendezvous 8192) = 9"
  "ipc_msg_outptr (tcb rendezvous 8192) = 20480" "q_linked 4096 (regq rendezvous)"
  by (simp_all add: rendezvous_def can_call_def ulmk_sched_current_def ulmk_percpu_def percpu_zero_def q_append_def)
    (auto simp: q_nil_def q_wf_def)

definition run_as :: "addr \<Rightarrow> kstate \<Rightarrow> kstate" where
  "run_as t s = s\<lparr>percpu := (\<lambda>c. (percpu s c)\<lparr>current := t\<rparr>)\<rparr>"

lemma run_as_simps [simp]:
  "tcb (run_as t s) = tcb s" "regq (run_as t s) = regq s" "sched_class (run_as t s) = sched_class s"
  "ulmk_sched_current (run_as t s) = t"
  by (simp_all add: run_as_def ulmk_sched_current_def ulmk_percpu_def)

theorem call_reply_round_trip_witness:
  "priority (tcb (snd (ep_reply_impl 4096 24576 (run_as 8192 (snd (ep_call_impl 12288 16384 rendezvous))))) 8192) = 9"
proof -
  note c = call_served [OF rendezvous_simps(1,2)]
  show ?thesis
    using call_reply_round_trip [OF rendezvous_simps(1,2), of "run_as 8192 (snd (ep_call_impl 12288 16384 rendezvous))" 24576]
      c(2,7,9) rendezvous_simps(3,5-7) by simp
qed

section \<open>Receiving\<close>

lemma recv_oldest:
  fixes out :: addr
  assumes c: "can_call ep msg cur s" and q: "q_of (ipcq s) (SendQ ep) = c # rest"
  defines "s' \<equiv> snd (ep_recv_impl ep msg out s)"
  shows "fst (ep_recv_impl ep msg out s) = 0"
    "tcb s' = (tcb s)(cur := (tcb s cur)\<lparr>ipc_sender := tid (tcb s c), saved_prio := priority (tcb s cur),
       priority := min (priority (tcb s c)) (priority (tcb s cur))\<rparr>)"
    "ipcq s' = q_remove c (ipcq s)" "umsg s' = (umsg s)(msg := caller_request c s)"
    "uword s' = store_at out (tid (tcb s c)) (uword s)"
    "percpu s' = percpu s" "cfg s' = cfg s" "cpu_id s' = cpu_id s" "regq s' = regq s" "bclass s'" "eps s' = eps s"
    "hang s' = hang s"
proof -
  note d = can_callD [OF c]
  have ne: "cur \<noteq> c" using d(6,7) q q_wf_mem [of "ipcq s" c "SendQ ep"] by auto
  have e: "ep_recv_impl ep msg out s = (0, unlock LIpc (recv_from_sender ep cur msg out (lock LIpc s)))"
    using d q by (simp add: ep_recv_impl_def Let_def)
  have q': "q_of (ipcq (lock LIpc s)) (SendQ ep) = c # rest" using q by simp
  have r: "caller_request c (upd_ipcq (q_remove c) (lock LIpc s)) = caller_request c s"
    by (simp add: caller_request_def)
  show "fst (ep_recv_impl ep msg out s) = 0" by (simp add: e)
  show "tcb s' = (tcb s)(cur := (tcb s cur)\<lparr>ipc_sender := tid (tcb s c), saved_prio := priority (tcb s cur),
       priority := min (priority (tcb s c)) (priority (tcb s cur))\<rparr>)"
    "ipcq s' = q_remove c (ipcq s)" "umsg s' = (umsg s)(msg := caller_request c s)"
    "uword s' = store_at out (tid (tcb s c)) (uword s)"
    "percpu s' = percpu s" "cfg s' = cfg s" "cpu_id s' = cpu_id s" "regq s' = regq s" "bclass s'" "eps s' = eps s"
    "hang s' = hang s"
    using ne d by (simp_all add: s'_def e recv_from_sender_def ipc_pop_head_Cons [OF q'] apply_prio_inherit_eq Let_def r
        store_at_def)
qed

text \<open>C19. Callers are served in the order they called. A call on an endpoint with no waiting server blocks the
  caller behind the callers already queued; a receive takes the first of them: its request is copied to the
  server's buffer, its id to the server's sender word, the server inherits its priority, and the others keep
  their order. No other thread changes.\<close>

theorem callers_served_in_order:
  fixes out :: addr
  assumes "can_call ep msg cur s"
  defines "s1 \<equiv> snd (ep_call_impl ep msg s)" and "s2 \<equiv> snd (ep_recv_impl ep msg out s)"
  shows "(q_of (ipcq s) (RecvQ ep) = [] \<longrightarrow>
       q_of (ipcq s1) = (q_of (ipcq s))(SendQ ep := q_of (ipcq s) (SendQ ep) @ [cur]) \<and>
       state (tcb s1 cur) = BLOCKED \<and> blocked_reason (tcb s1 cur) = BLOCKED_IPC_CALL \<and>
       (\<forall>t. t \<noteq> cur \<longrightarrow> tcb s1 t = tcb s t)) \<and>
    (\<forall>c rest. q_of (ipcq s) (SendQ ep) = c # rest \<longrightarrow>
       q_of (ipcq s2) = (q_of (ipcq s))(SendQ ep := rest) \<and> umsg s2 msg = caller_request c s \<and>
       ipc_sender (tcb s2 cur) = tid (tcb s c) \<and> (out \<noteq> NULL \<longrightarrow> uword s2 out = tid (tcb s c)) \<and>
       priority (tcb s2 cur) = min (priority (tcb s c)) (priority (tcb s cur)) \<and>
       saved_prio (tcb s2 cur) = priority (tcb s cur) \<and> (\<forall>t. t \<noteq> cur \<longrightarrow> tcb s2 t = tcb s t))"
proof -
  note d = can_callD [OF assms(1)]
  have "q_of (ipcq s1) = (q_of (ipcq s))(SendQ ep := q_of (ipcq s) (SendQ ep) @ [cur]) \<and>
       state (tcb s1 cur) = BLOCKED \<and> blocked_reason (tcb s1 cur) = BLOCKED_IPC_CALL \<and>
       (\<forall>t. t \<noteq> cur \<longrightarrow> tcb s1 t = tcb s t)" if "q_of (ipcq s) (RecvQ ep) = []"
    using call_queues [OF assms(1) that] d(7) by (simp add: s1_def q_append_def)
  moreover have "q_of (ipcq s2) = (q_of (ipcq s))(SendQ ep := rest) \<and> umsg s2 msg = caller_request c s \<and>
       ipc_sender (tcb s2 cur) = tid (tcb s c) \<and> (out \<noteq> NULL \<longrightarrow> uword s2 out = tid (tcb s c)) \<and>
       priority (tcb s2 cur) = min (priority (tcb s c)) (priority (tcb s cur)) \<and>
       saved_prio (tcb s2 cur) = priority (tcb s cur) \<and> (\<forall>t. t \<noteq> cur \<longrightarrow> tcb s2 t = tcb s t)"
    if "q_of (ipcq s) (SendQ ep) = c # rest" for c rest
    using recv_oldest [OF assms(1) that, of out] q_remove_head [OF d(6) that] by (simp add: s2_def store_at_def)
  ultimately show ?thesis by blast
qed

text \<open>A server of priority 9 that runs, with two callers of priorities 5 and 7 queued on its endpoint.\<close>

definition two_callers :: kstate where
  "two_callers = (kzero up_cfg)\<lparr>sched_class := Some bitmap_rt_class,
     tcb := (\<lambda>_. thread_zero)(4096 := thread_zero\<lparr>tid := 4096, priority := 9, saved_prio := 9, state := RUNNING\<rparr>,
       8192 := calling 12288 20480 (thread_zero\<lparr>tid := 8192, priority := 5\<rparr>),
       8704 := calling 12288 24576 (thread_zero\<lparr>tid := 8704, priority := 7\<rparr>)),
     ipcq := q_append (SendQ 12288) 8704 (q_append (SendQ 12288) 8192 q_nil),
     regq := q_append () 4096 (q_append () 8192 (q_append () 8704 q_nil)),
     eps := (\<lambda>_. \<lparr>ep_id = 12288, ep_active = True\<rparr>),
     percpu := (\<lambda>_. percpu_zero\<lparr>current := 4096\<rparr>)\<rparr>"

lemma two_callers_simps:
  "can_call 12288 16384 4096 two_callers" "q_of (ipcq two_callers) (SendQ 12288) = [8192, 8704]"
  "tcb two_callers 4096 = thread_zero\<lparr>tid := 4096, priority := 9, saved_prio := 9, state := RUNNING\<rparr>"
  "tcb two_callers 8192 = calling 12288 20480 (thread_zero\<lparr>tid := 8192, priority := 5\<rparr>)"
  "tcb two_callers 8704 = calling 12288 24576 (thread_zero\<lparr>tid := 8704, priority := 7\<rparr>)"
  "q_linked 8192 (regq two_callers)" "q_linked 8704 (regq two_callers)"
  by (simp_all add: two_callers_def can_call_def ulmk_sched_current_def ulmk_percpu_def percpu_zero_def q_append_def)
    (auto simp: q_nil_def q_wf_def)

theorem callers_served_in_order_witness:
  "q_of (ipcq (snd (ep_recv_impl 12288 16384 NULL two_callers))) (SendQ 12288) = [8704] \<and>
   ipc_sender (tcb (snd (ep_recv_impl 12288 16384 NULL two_callers)) 4096) = 8192"
  using callers_served_in_order [OF two_callers_simps(1), of NULL] two_callers_simps(2,4) by simp

text \<open>C34. A server that takes a second caller before it has answered the first loses its own priority for good:
  the second receive saves the inherited priority over the saved one, so after both replies the server still
  runs at the first caller's priority.\<close>

theorem nested_receive_keeps_boost:
  assumes "can_call ep msg cur s" "q_of (ipcq s) (SendQ ep) = c1 # c2 # rest"
    "awaits_reply c1 s" "awaits_reply c2 s" "priority (tcb s c1) < priority (tcb s cur)" "reply \<noteq> NULL"
  shows "priority (tcb (snd (ep_reply_impl c2 reply (snd (ep_reply_impl c1 reply
      (snd (ep_recv_impl ep msg NULL (snd (ep_recv_impl ep msg NULL s)))))))) cur) = priority (tcb s c1)"
proof -
  define s1 where "s1 = snd (ep_recv_impl ep msg NULL s)"
  define s2 where "s2 = snd (ep_recv_impl ep msg NULL s1)"
  define s3 where "s3 = snd (ep_reply_impl c1 reply s2)"
  note d = can_callD [OF assms(1)] and r1 = recv_oldest [OF assms(1,2), of NULL, folded s1_def]
  have m: "link (ipcq s) c1 = Some (SendQ ep)" "link (ipcq s) c2 = Some (SendQ ep)" "c1 \<noteq> c2"
    using q_wf_mem [OF d(6), of _ "SendQ ep"] q_wf_distinct [OF d(6), of "SendQ ep"] assms(2) by auto
  have ne: "cur \<noteq> c1" "cur \<noteq> c2" using d(7) m by auto
  have cu: "ulmk_sched_current s1 = cur"
    using sched_current_cong [of s1 s] r1(6-8) d(8) by simp
  have c1: "can_call ep msg cur s1"
    using assms(1) r1 cu q_remove_head [OF d(6) assms(2)] unfolding can_call_def by auto
  have q1: "q_of (ipcq s1) (SendQ ep) = c2 # rest" using r1(3) q_remove_head [OF d(6) assms(2)] by simp
  note r2 = recv_oldest [OF c1 q1, of NULL, folded s2_def]
  have aw: "awaits_reply c1 s2" "awaits_reply c2 s2"
    using assms(3,4) ne by (simp_all add: awaits_reply_def r1(2,9) r2(2,9))
  have cu2: "ulmk_sched_current s2 = cur" using sched_current_cong [of s2 s1] r2(6-8) cu by simp
  note p1 = reply_wakes [OF aw(1) cu2 [symmetric] d(4) ne(1) r2(10) assms(6), folded s3_def]
  have aw3: "awaits_reply c2 s3" using aw(2) ne m(3) by (simp add: awaits_reply_def p1(2,6))
  note p2 = reply_wakes [OF aw3 p1(5) [symmetric] d(4) ne(2) p1(7) assms(6)]
  have "saved_prio (tcb s3 cur) = priority (tcb s c1)"
    using ne assms(5) by (simp add: p1(2) r2(2) r1(2) min_def less_imp_le)
  then show ?thesis
    using ne p2(2) unfolding s3_def s2_def s1_def by simp
qed

theorem nested_receive_keeps_boost_witness:
  "priority (tcb (snd (ep_reply_impl 8704 28672 (snd (ep_reply_impl 8192 28672
      (snd (ep_recv_impl 12288 16384 NULL (snd (ep_recv_impl 12288 16384 NULL two_callers)))))))) 4096) = 5"
  using nested_receive_keeps_boost [OF two_callers_simps(1,2), of 28672] two_callers_simps(3-7)
  by (simp add: awaits_reply_def)

section \<open>Destroying an endpoint\<close>






section \<open>Notifications\<close>

lemma and_not_and [simp]: "p AND (NOT p OR NOT m) = p AND NOT m" for p m :: "'a::len word"
  by (rule bit_word_eqI) (auto simp: bit_simps)

lemma recv_queue_remove_frame [simp]:
  "cfg (ulmk_ep_recv_queue_remove t s) = cfg s" "cpu_id (ulmk_ep_recv_queue_remove t s) = cpu_id s"
  "rqs (ulmk_ep_recv_queue_remove t s) = rqs s" "percpu (ulmk_ep_recv_queue_remove t s) = percpu s"
  "sched_class (ulmk_ep_recv_queue_remove t s) = sched_class s" "notifs (ulmk_ep_recv_queue_remove t s) = notifs s"
  "umsg (ulmk_ep_recv_queue_remove t s) = umsg s" "uword (ulmk_ep_recv_queue_remove t s) = uword s"
  "urn (ulmk_ep_recv_queue_remove t s) = urn s" "hang (ulmk_ep_recv_queue_remove t s) = hang s"
  "u \<noteq> t \<Longrightarrow> tcb (ulmk_ep_recv_queue_remove t s) u = tcb s u"
  "notif_received (tcb (ulmk_ep_recv_queue_remove t s) v) = notif_received (tcb s v)"
  by (simp_all add: ulmk_ep_recv_queue_remove_def ipc_node_unlink_def)

text \<open>The bits a signal hands to the waiter, if any.\<close>

definition signal_delivers :: "addr \<Rightarrow> u32 \<Rightarrow> kstate \<Rightarrow> u32" where
  "signal_delivers n bits s =
     (let w = waiter (notifs s n)
      in if w = NULL \<or> state (tcb s w) \<noteq> BLOCKED then 0
         else (n_bits (notifs s n) OR bits) AND notif_wait_mask (tcb s w))"

lemma signal_keeps:
  assumes "n \<noteq> NULL" "n_active (notifs s n)" "signal_delivers n bits s = 0"
  shows "notif_signal_impl n bits s = (0, unlock LIpc (upd_notif n (\<lambda>x. x\<lparr>n_bits := n_bits x OR bits\<rparr>) (lock LIpc s)))"
  using assms by (auto simp: notif_signal_impl_def ulmk_notif_by_id_def signal_delivers_def Let_def split: if_splits)

lemma signal_wakes:
  assumes "n \<noteq> NULL" "n_active (notifs s n)" "signal_delivers n bits s \<noteq> 0" "bclass s"
  defines "s' \<equiv> snd (notif_signal_impl n bits s)" and "w \<equiv> waiter (notifs s n)" and "d \<equiv> signal_delivers n bits s"
  shows "fst (notif_signal_impl n bits s) = 0" "w \<noteq> NULL"
    "notifs s' = (notifs s)(n := (notifs s n)\<lparr>n_bits := (n_bits (notifs s n) OR bits) AND NOT d, waiter := NULL\<rparr>)"
    "state (tcb s' w) = READY" "blocked_reason (tcb s' w) = BLOCKED_NONE" "notif_received (tcb s' w) = d"
    "\<And>t. t \<noteq> w \<Longrightarrow> tcb s' t = tcb s t" "q_linked w (rqs s')"
    "blocked_reason (tcb s w) \<noteq> BLOCKED_IPC_OR_NOTIF \<Longrightarrow> uword s' = store_at (notif_bits_outptr (tcb s w)) d (uword s)"
    "blocked_reason (tcb s w) = BLOCKED_IPC_OR_NOTIF \<Longrightarrow> rn_result_outptr (tcb s w) \<noteq> NULL \<Longrightarrow>
       rn_is_notif (urn s' (rn_result_outptr (tcb s w))) = 1 \<and> rn_notif_bits (urn s' (rn_result_outptr (tcb s w))) = d"
proof -
  have w: "w \<noteq> NULL" "state (tcb s w) = BLOCKED" "d = (n_bits (notifs s n) OR bits) AND notif_wait_mask (tcb s w)" "d \<noteq> 0"
    using assms(3) by (auto simp: signal_delivers_def Let_def w_def d_def split: if_splits)
  define s1 where "s1 = upd_tcb w (\<lambda>x. x\<lparr>notif_received := d\<rparr>)
     (upd_notif n (\<lambda>x. x\<lparr>n_bits := n_bits x AND NOT d, waiter := NULL\<rparr>)
       (upd_notif n (\<lambda>x. x\<lparr>n_bits := n_bits x OR bits\<rparr>) (lock LIpc s)))"
  define s2 where "s2 = (if blocked_reason (tcb s1 w) = BLOCKED_IPC_OR_NOTIF
      then
        let rn = rn_result_outptr (tcb s1 w);
            s = ulmk_ep_recv_queue_remove w s1;
            s = upd_tcb w (\<lambda>x. x\<lparr>blocked_notif := ULMK_NOTIF_INVALID\<rparr>) s;
            s = (if rn \<noteq> NULL
                 then upd_tcb w (\<lambda>x. x\<lparr>rn_result_outptr := NULL\<rparr>)
                        (upd_urn rn (\<lambda>r. r\<lparr>rn_is_notif := 1, rn_notif_bits := d, rn_sender := ULMK_TID_INVALID\<rparr>) s)
                 else s)
        in upd_tcb w (\<lambda>x. x\<lparr>syscall_wake_ret := 1, syscall_wake_ret_valid := True\<rparr>) s
      else if notif_bits_outptr (tcb s1 w) \<noteq> NULL
      then upd_tcb w (\<lambda>x. x\<lparr>notif_bits_outptr := NULL\<rparr>) (upd_uword (notif_bits_outptr (tcb s1 w)) d s1)
      else s1)"
  define s3 where "s3 = ulmk_sched_enqueue w (upd_tcb w (\<lambda>x. x\<lparr>blocked_reason := BLOCKED_NONE, state := READY\<rparr>) s2)"
  have e: "notif_signal_impl n bits s = (0, ulmk_sched_kick_pending (let s = unlock LIpc s3 in
      if cb (timeout (tcb s1 w)) \<noteq> CB_NULL then ulmk_timeout_disarm w s else s))"
    using assms(1,2) w(1,2,4) unfolding s3_def s2_def s1_def w(3)
    by (simp add: notif_signal_impl_def ulmk_notif_by_id_def Let_def w_def del: if_split_asm)
  show "fst (notif_signal_impl n bits s) = 0" "w \<noteq> NULL" using w by (simp_all add: e)
  have f2: "bclass s2" "notifs s2 = (notifs s)(n := (notifs s n)\<lparr>n_bits := (n_bits (notifs s n) OR bits) AND NOT d, waiter := NULL\<rparr>)"
    "notif_received (tcb s2 w) = d" "\<And>t. t \<noteq> w \<Longrightarrow> tcb s2 t = tcb s t" "rqs s2 = rqs s"
    using assms(4) by (simp_all add: s2_def s1_def Let_def)
  have f3: "tcb s3 = (tcb s2)(w := (tcb s2 w)\<lparr>blocked_reason := BLOCKED_NONE, state := READY\<rparr>)" "notifs s3 = notifs s2"
    "q_linked w (rqs s3)" "uword s3 = uword s2" "urn s3 = urn s2"
    using f2(1) by (simp_all add: s3_def sched_enqueue_bitmap q_append_def)
  show "notifs s' = (notifs s)(n := (notifs s n)\<lparr>n_bits := (n_bits (notifs s n) OR bits) AND NOT d, waiter := NULL\<rparr>)"
    "state (tcb s' w) = READY" "blocked_reason (tcb s' w) = BLOCKED_NONE" "notif_received (tcb s' w) = d"
    "\<And>t. t \<noteq> w \<Longrightarrow> tcb s' t = tcb s t" "q_linked w (rqs s')"
    using f2 f3 w(1) by (simp_all add: s'_def e Let_def tcb_timeout_disarm)
  have u: "uword s' = uword s2" "urn s' = urn s2" by (simp_all add: s'_def e Let_def f3)
  show "uword s' = store_at (notif_bits_outptr (tcb s w)) d (uword s)" if "blocked_reason (tcb s w) \<noteq> BLOCKED_IPC_OR_NOTIF"
    using that by (simp add: u s2_def s1_def store_at_def)
  show "rn_is_notif (urn s' (rn_result_outptr (tcb s w))) = 1 \<and> rn_notif_bits (urn s' (rn_result_outptr (tcb s w))) = d"
    if "blocked_reason (tcb s w) = BLOCKED_IPC_OR_NOTIF" "rn_result_outptr (tcb s w) \<noteq> NULL"
    using that by (simp add: u s2_def s1_def Let_def)
qed


text \<open>A thread that waits for bits 1 and 2 of notification 12288, in which bit 4 is pending.\<close>

definition bit_waiter :: kstate where
  "bit_waiter = (kzero up_cfg)\<lparr>sched_class := Some bitmap_rt_class,
     tcb := (\<lambda>_. thread_zero)(8192 := thread_zero\<lparr>tid := 8192, state := BLOCKED, blocked_reason := BLOCKED_NOTIF,
       notif_wait_mask := 6, blocked_notif := 12288, notif_bits_outptr := 20480\<rparr>),
     notifs := (\<lambda>_. \<lparr>n_id = 12288, n_active = True, n_bits = 16, waiter = 8192, wait_mask = 6\<rparr>)\<rparr>"


lemma wait_blocks:
  assumes "n \<noteq> NULL" "n_active (notifs s n)" "out \<noteq> NULL" "cur = ulmk_sched_current s" "cur \<noteq> NULL" "bclass s"
    "n_bits (notifs s n) AND msk = 0"
  defines "s' \<equiv> snd (notif_wait_impl n msk out s)"
  shows "tcb s' = (tcb s)(cur := (tcb s cur)\<lparr>blocked_reason := BLOCKED_NOTIF, notif_wait_mask := msk,
       blocked_notif := n, notif_bits_outptr := out, block_status := 0, state := BLOCKED\<rparr>)"
    "notifs s' = (notifs s)(n := (notifs s n)\<lparr>waiter := cur, wait_mask := msk\<rparr>)" "uword s' = uword s" "bclass s'"
  using assms by (simp_all add: notif_wait_impl_def notif_wait_block_def Let_def ulmk_notif_by_id_def)

lemma wait_takes:
  assumes "n \<noteq> NULL" "n_active (notifs s n)" "out \<noteq> NULL" "n_bits (notifs s n) AND msk \<noteq> 0"
  defines "s' \<equiv> snd (notif_wait_impl n msk out s)"
  shows "tcb s' = tcb s" "uword s' = (uword s)(out := n_bits (notifs s n) AND msk)"
    "notifs s' = (notifs s)(n := (notifs s n)\<lparr>n_bits := n_bits (notifs s n) AND NOT msk\<rparr>)"
  using assms by (simp_all add: notif_wait_impl_def notif_wait_block_def Let_def ulmk_notif_by_id_def)

text \<open>C15. There is no lost wake-up: whether the signal comes before the wait or after it, the waiting thread ends
  up runnable with the same bits in its result word, the same bits stay pending in the object, and its waiter
  slot is free again.\<close>

theorem signal_wait_any_order:
  assumes "n \<noteq> NULL" "n_active (notifs s n)" "waiter (notifs s n) = NULL" "out \<noteq> NULL"
    "cur = ulmk_sched_current s" "cur \<noteq> NULL" "bclass s" "n_bits (notifs s n) AND msk = 0" "bits AND msk \<noteq> 0"
  defines "sw \<equiv> snd (notif_wait_impl n msk out (snd (notif_signal_impl n bits s)))"
    and "ws \<equiv> snd (notif_signal_impl n bits (snd (notif_wait_impl n msk out s)))"
  shows "uword sw out = bits AND msk \<and> uword ws out = bits AND msk \<and>
    n_bits (notifs sw n) = (n_bits (notifs s n) OR bits) AND NOT msk \<and> n_bits (notifs ws n) = n_bits (notifs sw n) \<and>
    waiter (notifs sw n) = NULL \<and> waiter (notifs ws n) = NULL \<and>
    tcb sw = tcb s \<and> state (tcb ws cur) = READY \<and> blocked_reason (tcb ws cur) = BLOCKED_NONE \<and> q_linked cur (rqs ws)"
proof -
  have m: "(n_bits (notifs s n) OR bits) AND msk = bits AND msk"
    using assms(8) by (metis bit.conj_disj_distrib2 or.left_neutral)
  have k: "signal_delivers n bits s = 0" using assms(3) by (simp add: signal_delivers_def)
  define s1 where "s1 = snd (notif_signal_impl n bits s)"
  have s1: "tcb s1 = tcb s" "notifs s1 = (notifs s)(n := (notifs s n)\<lparr>n_bits := n_bits (notifs s n) OR bits\<rparr>)"
    by (simp_all add: s1_def signal_keeps [OF assms(1,2) k])
  have A: "uword sw out = bits AND msk" "n_bits (notifs sw n) = (n_bits (notifs s n) OR bits) AND NOT msk"
    "waiter (notifs sw n) = NULL" "tcb sw = tcb s"
    using wait_takes [of n s1 out msk] assms(1-4,9) s1 m unfolding sw_def s1_def [symmetric] by simp_all
  define s2 where "s2 = snd (notif_wait_impl n msk out s)"
  note b = wait_blocks [OF assms(1,2,4-8), folded s2_def]
  have d: "signal_delivers n bits s2 = bits AND msk"
    using assms(6) m by (simp add: signal_delivers_def b(1,2))
  note w = signal_wakes [of n s2 bits, folded ws_def [folded s2_def], unfolded d]
  have "n_active (notifs s2 n)" using assms(2) by (simp add: b(2))
  note w = w [OF assms(1) this assms(9) b(4)]
  have "uword ws out = bits AND msk" "n_bits (notifs ws n) = (n_bits (notifs s n) OR bits) AND NOT msk"
    "waiter (notifs ws n) = NULL" "state (tcb ws cur) = READY" "blocked_reason (tcb ws cur) = BLOCKED_NONE"
    "q_linked cur (rqs ws)"
    using w(3-5,8,9) assms(4) and_not_and [of "n_bits (notifs s n) OR bits" msk] m [symmetric] by (simp_all add: b(1,2) store_at_def)
  with A show ?thesis by simp
qed

theorem signal_wait_any_order_witness:
  "uword (snd (notif_signal_impl 12288 12 (snd (notif_wait_impl 12288 6 20480
     (run_as 4096 (bit_waiter\<lparr>notifs := (\<lambda>_. \<lparr>n_id = 12288, n_active = True, n_bits = 16, waiter = NULL, wait_mask = 0\<rparr>)\<rparr>)))))) 20480 = 4"
  using signal_wait_any_order [of 12288
    "run_as 4096 (bit_waiter\<lparr>notifs := (\<lambda>_. \<lparr>n_id = 12288, n_active = True, n_bits = 16, waiter = NULL, wait_mask = 0\<rparr>)\<rparr>)" 20480 4096 6 12]
  by (simp add: bit_waiter_def) (simp add: run_as_def)

text \<open>C33. The result 1 of \<^verbatim>\<open>ulmk_ep_recv_or_notif\<close> says that a notification arrived; the same 1, with nothing written to
  the result block, answers a call with a dead endpoint or notification, because the error code is negated once
  too often.\<close>

theorem recv_or_notif_error_reads_as_success:
  assumes "res \<noteq> NULL" "n \<noteq> NULL" "n_active (notifs s n)" "n_bits (notifs s n) AND msk \<noteq> 0"
    "ulmk_sched_current s \<noteq> NULL" "ulmk_ep_by_id e s \<noteq> NULL" "ulmk_notif_by_id n' s = NULL"
  shows "fst (ulmk_kern_ep_recv_or_notif e n msk res s) = 1 \<and>
    rn_notif_bits (urn (snd (ulmk_kern_ep_recv_or_notif e n msk res s)) res) = n_bits (notifs s n) AND msk \<and>
    ulmk_kern_ep_recv_or_notif e n' msk res s = (1, s)"
  using assms by (simp add: ulmk_kern_ep_recv_or_notif_def ep_recv_or_notif_impl_def u32_result_def Let_def
      ulmk_notif_by_id_def)

theorem recv_or_notif_error_reads_as_success_witness:
  "ulmk_kern_ep_recv_or_notif 12288 NULL 16 20480 (two_callers\<lparr>notifs := notifs bit_waiter\<rparr>) = (1, two_callers\<lparr>notifs := notifs bit_waiter\<rparr>)"
  using recv_or_notif_error_reads_as_success [of 20480 12288 "two_callers\<lparr>notifs := notifs bit_waiter\<rparr>" 16 12288 NULL]
  by (simp add: two_callers_def bit_waiter_def ulmk_sched_current_def ulmk_percpu_def percpu_zero_def
      ulmk_ep_by_id_def ulmk_notif_by_id_def)

end
