(* ===== verification/Irq_Props.thy ===== *)
theory Irq_Props
  imports Authority Ipc_Props
begin

text \<open>
  The kernel as a step relation over its entry points, and what it keeps: the interrupt table stays well formed
  in every reachable state, because only the interrupt system calls touch it (interpretation \<open>it\<close>) and each of
  them checks the line number first. Then what an interrupt does to a bound thread, until it is acknowledged.
\<close>

section \<open>The interrupt table\<close>

interpretation it: kernel_view irq_table
  by unfold_locales (simp_all add: upd_regq_def upd_area_def)

text \<open>Sixteen entries; a bound one has a line number and a bit of a word, and no two bound entries share a line.\<close>

definition irq_ok :: "irq_binding list \<Rightarrow> bool" where
  "irq_ok B \<longleftrightarrow> length B = 16 \<and>
     (\<forall>i<16. b_notif (B ! i) \<noteq> NULL \<longrightarrow> b_srpn (B ! i) \<noteq> 0 \<and> b_bit (B ! i) \<le> 31) \<and>
     (\<forall>i<16. \<forall>j<16. b_notif (B ! i) \<noteq> NULL \<longrightarrow> b_notif (B ! j) \<noteq> NULL \<longrightarrow> b_srpn (B ! i) = b_srpn (B ! j) \<longrightarrow> i = j)"

lemma irq_ok_zero: "irq_ok (replicate 16 binding_zero)"
  by (simp add: irq_ok_def binding_zero_def)



lemma irq_ok_bind:
  assumes "irq_ok B" "b_srpn x \<noteq> 0" "b_bit x \<le> 31" "\<forall>j<16. b_notif (B ! j) \<noteq> NULL \<longrightarrow> b_srpn (B ! j) \<noteq> b_srpn x"
  shows "irq_ok (B[i := x])"
  using assms by (cases "i < 16") (auto simp: irq_ok_def nth_list_update)




lemma by_srpn_cong: "irq_table s' = irq_table s \<Longrightarrow> ulmk_irq_binding_by_srpn v s' = ulmk_irq_binding_by_srpn v s"
  by (simp add: ulmk_irq_binding_by_srpn_def)

lemma irq_table_helpers [simp]:
  "irq_table (board_irq_connect v s) = irq_table s" "irq_table (board_irq_disconnect v s) = irq_table s"
  "irq_table (upd_binding i f s) = (irq_table s)[i := f (irq_table s ! i)]"
  "irq_table (irq_binding_clear i s) = (irq_table s)[i := binding_zero]"
  by (simp_all add: board_irq_connect_def board_irq_disconnect_def upd_binding_def irq_binding_clear_def)






lemma irq_table_spawn [simp]:
  "irq_table (snd (ulmk_thread_init th at st s)) = irq_table s"
  "irq_table (snd (spawn_tail cur th at st s)) = irq_table s"
  "irq_table (snd (ulmk_kern_cap_grant t c s)) = irq_table s"
proof -
  show i: "irq_table (snd (ulmk_thread_init th at st s)) = irq_table s" for s
    by (simp add: ulmk_thread_init_def tcb_registry_ensure_init_def upd_regq_def Let_def view_rules)
  show "irq_table (snd (spawn_tail cur th at st s)) = irq_table s"
    using i by (simp add: spawn_tail_def Let_def case_prod_beta view_rules)
  show "irq_table (snd (ulmk_kern_cap_grant t c s)) = irq_table s"
    by (simp add: ulmk_kern_cap_grant_def Let_def)
qed

lemma irq_table_thread_spawn [simp]: "irq_table (snd (ulmk_kern_thread_spawn p s)) = irq_table s"
proof -
  obtain th s1 where al: "k_heap_alloc (sizeof_thread (cfg s)) s = (th, s1)" by fastforce
  have 1: "irq_table s1 = irq_table s" using it.v_heap(1) [of "sizeof_thread (cfg s)" s] al by simp
  obtain r s2 where st: "stack_alloc_k (at_stack_size (spawn_attr (cfg s) (uattr s p))) s1 = (r, s2)" by fastforce
  have 2: "irq_table s2 = irq_table s"
    using it.v_thread(7) [of "at_stack_size (spawn_attr (cfg s) (uattr s p))" s1] st 1 by simp
  show ?thesis using 1 2
    by (simp add: ulmk_kern_thread_spawn_def Let_def al st view_rules split: option.split)
qed


section \<open>The kernel as a step relation\<close>











section \<open>From the line to the thread\<close>

lemma by_srpn_Some:
  assumes "irq_ok (irq_table s)" "i < 16" "b_notif (irq_table s ! i) \<noteq> NULL"
  shows "ulmk_irq_binding_by_srpn (b_srpn (irq_table s ! i)) s = Some i"
proof -
  let ?P = "\<lambda>j. b_notif (irq_table s ! j) \<noteq> NULL \<and> b_srpn (irq_table s ! j) = b_srpn (irq_table s ! i)"
  have "\<exists>j. find ?P [0..<16] = Some j" using assms(2,3) by (auto simp: find_None_iff simp flip: not_None_eq)
  then obtain j where j: "find ?P [0..<16] = Some j" by blast
  then have "j < 16" "?P j" by (auto simp: find_Some_iff)
  then have "j = i" using assms unfolding irq_ok_def by blast
  then show ?thesis using j by (simp add: ulmk_irq_binding_by_srpn_def)
qed

text \<open>Signalling only adds inter-processor interrupts to the trace.\<close>

definition ipi_ext :: "kstate \<Rightarrow> kstate \<Rightarrow> bool" where
  "ipi_ext s t \<longleftrightarrow> (\<exists>ipis. trace t = map EvSendIpi ipis @ trace s)"

lemma ipi_ext_same: "trace t = trace s \<Longrightarrow> ipi_ext s t"
  unfolding ipi_ext_def by (rule exI [of _ "[]"]) simp

lemma ipi_ext_kick: "trace t = trace s \<Longrightarrow> ipi_ext s (ulmk_sched_kick_pending t)"
  by (auto simp: ipi_ext_def ulmk_sched_kick_pending_def Let_def fold_ipi_frame rev_map)

lemma trace_signal: "ipi_ext s (snd (notif_signal_impl n b s))"
proof -
  have "trace (ulmk_ep_recv_queue_remove w s) = trace s" for w s
    by (simp add: ulmk_ep_recv_queue_remove_def ipc_node_unlink_def)
  then show ?thesis
    by (simp add: notif_signal_impl_def Let_def ipi_ext_same ipi_ext_kick)
qed

text \<open>C20. An interrupt on an enabled line without a callback masks the line before anything else, adds its bit to
  the bound notification or hands it to the thread waiting for it, and touches no other thread; the line stays
  masked until it is acknowledged, which re-enables it and changes nothing but the controller.\<close>

theorem interrupt_masked_until_ack:
  assumes "irq_ok (irq_table s)" "i < 16" "b = irq_table s ! i" "n = b_notif b" "n \<noteq> NULL" "b_enabled b"
    "b_attach_fn b = NULL" "n_active (notifs s n)" "n_id (notifs s n) = n" "bclass s"
  defines "v \<equiv> b_srpn b" and "m \<equiv> push_bit (unat (b_bit b)) 1" and "w \<equiv> waiter (notifs s n)"
  defines "d \<equiv> signal_delivers n m s" and "s' \<equiv> ulmk_kern_irq_dispatch v s"
  defines "s'' \<equiv> snd (ulmk_kern_irq_ack (ucast v) s')"
  shows "(\<exists>ipis. trace s' = map EvSendIpi ipis @ EvIrqDisable v # trace s) \<and>
    n_bits (notifs s' n) = (n_bits (notifs s n) OR m) AND NOT d \<and>
    (if d = 0 then tcb s' = tcb s
     else state (tcb s' w) = READY \<and> notif_received (tcb s' w) = d \<and> (\<forall>t. t \<noteq> w \<longrightarrow> tcb s' t = tcb s t)) \<and>
    trace s'' = EvIrqEnable v # EvIrqAck v # trace s' \<and> tcb s'' = tcb s' \<and> notifs s'' = notifs s'"
proof -
  have f: "ulmk_irq_binding_by_srpn v s = Some i" using by_srpn_Some [OF assms(1,2)] assms(3-5) by (simp add: v_def)
  define e where "e = emit (EvIrqDisable v) s"
  have s': "s' = snd (notif_signal_impl n m e)"
    using f assms(3-9) by (simp add: s'_def ulmk_kern_irq_dispatch_def Let_def m_def e_def)
  have e: "notifs e = notifs s" "tcb e = tcb s" "bclass e" "trace e = EvIrqDisable v # trace s" "irq_table e = irq_table s"
    "signal_delivers n m e = d"
    using assms(10) by (simp_all add: e_def d_def signal_delivers_def Let_def)
  have tr: "\<exists>ipis. trace s' = map EvSendIpi ipis @ EvIrqDisable v # trace s"
    using trace_signal [of e n m] e(4) by (simp add: s' ipi_ext_def)
  have sig: "n_bits (notifs s' n) = (n_bits (notifs s n) OR m) AND NOT d \<and>
    (if d = 0 then tcb s' = tcb s
     else state (tcb s' w) = READY \<and> notif_received (tcb s' w) = d \<and> (\<forall>t. t \<noteq> w \<longrightarrow> tcb s' t = tcb s t))"
  proof (cases "d = 0")
    case True
    then show ?thesis using signal_keeps [of n e m] assms(5,8) e by (simp add: s')
  next
    case False
    then have "signal_delivers n m e \<noteq> 0" by (simp add: e(6))
    note k = signal_wakes [OF assms(5) _ this e(3), folded s', unfolded e(1,2,6), folded w_def]
    show ?thesis using False k(3,4,6,7) assms(8) by simp
  qed
  have t: "irq_table s' = irq_table s" by (simp add: s' it.v_notif(1) e(5))
  have v: "v \<noteq> 0" using assms(1-5) by (simp add: irq_ok_def v_def)
  have u: "unat (ucast v :: u32) = unat v" "unat v < 256"
    using unsigned_less [where w = v and 'a = nat] by (simp_all add: unsigned_ucast_eq take_bit_nat_eq_self)
  have uu: "(ucast (ucast v :: u32) :: u8) = v"
    using u by (simp add: word_unat_eq_iff unsigned_ucast_eq [where w = "ucast v :: u32"] take_bit_nat_eq_self)
  from v u have "(ucast v :: u32) \<noteq> 0" "\<not> 256 \<le> (ucast v :: u32)"
    by (metis unat_0 word_unat_eq_iff, simp add: word_le_nat_alt)
  then have "s'' = emit (EvIrqEnable v) (emit (EvIrqAck v) s')"
    using f assms(3,6,7) by (simp add: s''_def ulmk_kern_irq_ack_def Let_def by_srpn_cong [OF t] t uu)
  then show ?thesis using tr sig by simp
qed

text \<open>Line 5 bound to bit 2 of the notification of \<open>bit_waiter\<close>.\<close>

definition bound_line :: kstate where
  "bound_line = bit_waiter\<lparr>irq_table := (replicate 16 binding_zero)[0 := binding_zero\<lparr>b_srpn := 5, b_notif := 12288,
     b_bit := 2, b_enabled := True\<rparr>]\<rparr>"

lemma bound_line_simps:
  "irq_ok (irq_table bound_line)" "bclass bound_line"
  "irq_table bound_line ! 0 = binding_zero\<lparr>b_srpn := 5, b_notif := 12288, b_bit := 2, b_enabled := True\<rparr>"
  "notifs bound_line 12288 = \<lparr>n_id = 12288, n_active = True, n_bits = 16, waiter = 8192, wait_mask = 6\<rparr>"
  "signal_delivers 12288 4 bound_line = 4"
proof -
  show "irq_ok (irq_table bound_line)"
    unfolding bound_line_def by (simp, rule irq_ok_bind [OF irq_ok_zero]) (simp_all add: binding_zero_def)
qed (simp_all add: bound_line_def bit_waiter_def signal_delivers_def)

theorem interrupt_masked_until_ack_witness:
  "n_bits (notifs (ulmk_kern_irq_dispatch 5 bound_line) 12288) = 16 \<and>
   notif_received (tcb (ulmk_kern_irq_dispatch 5 bound_line) 8192) = 4"
proof -
  note k = interrupt_masked_until_ack [OF bound_line_simps(1) _ refl refl, of 0]
  have b: "b_srpn (irq_table bound_line ! 0) = 5" "b_notif (irq_table bound_line ! 0) = 12288"
    "b_enabled (irq_table bound_line ! 0)" "b_attach_fn (irq_table bound_line ! 0) = NULL"
    "push_bit (unat (b_bit (irq_table bound_line ! 0))) (1 :: u32) = 4"
    by (simp_all add: bound_line_simps(3) binding_zero_def)
  have n: "n_active (notifs bound_line 12288)" "n_id (notifs bound_line 12288) = 12288"
    "waiter (notifs bound_line 12288) = 8192" "n_bits (notifs bound_line 12288) = 16"
    by (simp_all add: bound_line_simps(4))
  note k' = k [unfolded b n bound_line_simps(5), OF _ _ b(3) refl n(1) refl bound_line_simps(2)]
  show ?thesis using k' [THEN conjunct2, THEN conjunct1] k' [THEN conjunct2, THEN conjunct2, THEN conjunct1] by simp
qed

end
