(* ===== verification/Sv32.thy ===== *)
theory Sv32
  imports Kernel_Types
begin

text \<open>
  The page-table backend of the memory protection, \<^verbatim>\<open>arch/riscv/mmu_sv32.c\<close>. \<open>sv32_cpu\<close> is what one hart owns: its
  entry of \<^verbatim>\<open>g_sv32_cpu\<close>, its root table and its level-2 tables. The number of tables, the length of the ring and the
  addresses the linker gives are the configuration; the writes to \<^verbatim>\<open>satp\<close>, the fences and the PMP entry are events.

  The loops over a range of pages carry a bound of \<open>2\<^sup>2\<^sup>0\<close> turns, the number of pages there are; \<open>sv_hang\<close> would say
  that it was not enough. A panic stops the hart and everything after it.
\<close>

abbreviation PAGE_SIZE :: u32 where "PAGE_SIZE \<equiv> 4096"
abbreviation MEGA_SIZE :: u32 where "MEGA_SIZE \<equiv> 4194304"
abbreviation PTES :: nat where "PTES \<equiv> 1024"

abbreviation PTE_V :: u32 where "PTE_V \<equiv> 1"
abbreviation PTE_R :: u32 where "PTE_R \<equiv> 2"
abbreviation PTE_W :: u32 where "PTE_W \<equiv> 4"
abbreviation PTE_X :: u32 where "PTE_X \<equiv> 8"
abbreviation PTE_U :: u32 where "PTE_U \<equiv> 16"
abbreviation PTE_A :: u32 where "PTE_A \<equiv> 64"
abbreviation PTE_D :: u32 where "PTE_D \<equiv> 128"
abbreviation PTE_LEAF :: u32 where "PTE_LEAF \<equiv> 14"

abbreviation SATP_MODE_SV32 :: u32 where "SATP_MODE_SV32 \<equiv> 0x80000000"
abbreviation L2_NONE :: u16 where "L2_NONE \<equiv> 0xFFFF"
abbreviation SV32_PIN_MAX :: nat where "SV32_PIN_MAX \<equiv> 2"

definition VPN1 :: "addr \<Rightarrow> nat" where
  "VPN1 va = unat (drop_bit 22 va)"

definition VPN0 :: "addr \<Rightarrow> nat" where
  "VPN0 va = unat (drop_bit 12 va AND 1023)"

datatype sv32_ev = EvSatp u32 | EvSfence addr | EvSfenceAll | EvPmpOpen | EvPmpClose

record sv32_cfg =
  l2_num :: nat                    \<comment> \<open>\<^verbatim>\<open>ULMK_ARCH_SV32_L2_NUM\<close>\<close>
  dyn_max :: nat                   \<comment> \<open>\<^verbatim>\<open>ULMK_ARCH_SV32_DYN_MAX\<close>\<close>
  root_pa :: addr
  tbl_pa :: "nat \<Rightarrow> addr"
  user_text_start :: addr
  user_text_end :: addr
  user_ram_start :: addr
  user_pool_start :: addr
  periph_base :: addr
  periph_end :: addr
  has_sv32 :: bool                 \<comment> \<open>\<^verbatim>\<open>satp\<close> reads back what was written\<close>

record sv32_cpu =
  pinned :: addr
  pin :: "nat \<Rightarrow> addr \<times> addr"
  dyn :: "nat \<Rightarrow> u32"
  l2_vpn1 :: "nat \<Rightarrow> u16"
  l2_pin :: u32
  l2_static :: nat
  dyn_n :: nat
  dyn_next :: nat
  root :: "nat \<Rightarrow> u32"
  l2 :: "nat \<Rightarrow> nat \<Rightarrow> u32"
  sv_ev :: "sv32_ev list"
  sv_panic :: bool
  sv_hang :: bool

definition sv_emit :: "sv32_ev \<Rightarrow> sv32_cpu \<Rightarrow> sv32_cpu" where
  "sv_emit e c = c\<lparr>sv_ev := e # sv_ev c\<rparr>"

section \<open>Page tables\<close>

definition sv32_cpu_idx :: "nat \<Rightarrow> nat \<Rightarrow> nat" where
  "sv32_cpu_idx ncpu hart = (if hart < ncpu then hart else 0)"

definition perms_to_pte :: "u32 \<Rightarrow> u32" where
  "perms_to_pte perms =
     (let p = (if perms AND (ULMK_PERM_READ OR ULMK_PERM_WRITE) \<noteq> 0 then PTE_R else 0);
          p = (if perms AND ULMK_PERM_WRITE \<noteq> 0 then p OR PTE_W else p)
      in if perms AND ULMK_PERM_EXEC \<noteq> 0 then p OR PTE_X else p)"

definition pte_leaf :: "addr \<Rightarrow> u32 \<Rightarrow> u32" where
  "pte_leaf pa pte_perms = push_bit 10 (drop_bit 12 pa) OR pte_perms OR PTE_U OR PTE_A OR PTE_D OR PTE_V"

definition pte_table :: "addr \<Rightarrow> u32" where
  "pte_table tbl = push_bit 10 (drop_bit 12 tbl) OR PTE_V"

definition l2_find :: "sv32_cfg \<Rightarrow> sv32_cpu \<Rightarrow> nat \<Rightarrow> nat option" where
  "l2_find C c vpn1 = find (\<lambda>i. unat (l2_vpn1 c i) = vpn1) [0..<l2_num C]"

definition l2_alloc :: "sv32_cfg \<Rightarrow> nat \<Rightarrow> sv32_cpu \<Rightarrow> nat option \<times> sv32_cpu" where
  "l2_alloc C vpn1 c =
     (if root c vpn1 AND PTE_V \<noteq> 0 then (None, c)
      else
        case find (\<lambda>i. l2_vpn1 c i = L2_NONE) [l2_static c..<l2_num C] of
          None \<Rightarrow> (None, c)
        | Some i \<Rightarrow>
            (Some i, c\<lparr>l2 := (l2 c)(i := (\<lambda>_. 0)), l2_vpn1 := (l2_vpn1 c)(i := word_of_nat vpn1),
               root := (root c)(vpn1 := pte_table (tbl_pa C i))\<rparr>))"

definition l2_release :: "nat \<Rightarrow> sv32_cpu \<Rightarrow> sv32_cpu" where
  "l2_release i c =
     c\<lparr>root := (root c)(unat (l2_vpn1 c i) := 0), l2_vpn1 := (l2_vpn1 c)(i := L2_NONE),
       l2_pin := l2_pin c AND NOT (push_bit i 1)\<rparr>"

text \<open>The slot is the index of the table and of the entry.\<close>

definition pte_slot :: "sv32_cfg \<Rightarrow> addr \<Rightarrow> bool \<Rightarrow> sv32_cpu \<Rightarrow> (nat \<times> nat) option \<times> sv32_cpu" where
  "pte_slot C va alloc c =
     (case l2_find C c (VPN1 va) of
        Some i \<Rightarrow> (Some (i, VPN0 va), c)
      | None \<Rightarrow>
          (if alloc
           then (case l2_alloc C (VPN1 va) c of
                   (Some i, c) \<Rightarrow> (Some (i, VPN0 va), c)
                 | (None, c) \<Rightarrow> (None, c))
           else (None, c)))"

definition set_pte :: "nat \<times> nat \<Rightarrow> u32 \<Rightarrow> sv32_cpu \<Rightarrow> sv32_cpu" where
  "set_pte sl e c = c\<lparr>l2 := (l2 c)(fst sl := (l2 c (fst sl))(snd sl := e))\<rparr>"

definition unmap_page :: "sv32_cfg \<Rightarrow> addr \<Rightarrow> sv32_cpu \<Rightarrow> sv32_cpu" where
  "unmap_page C va c =
     (case pte_slot C va False c of
        (Some sl, c) \<Rightarrow> set_pte sl 0 c
      | (None, c) \<Rightarrow> c)"

section \<open>The static map\<close>

definition page_up :: "addr \<Rightarrow> addr" where
  "page_up a = (a + PAGE_SIZE - 1) AND NOT (PAGE_SIZE - 1)"

definition page_down :: "addr \<Rightarrow> addr" where
  "page_down a = a AND NOT (PAGE_SIZE - 1)"

text \<open>One turn of the loop: the page or megapage at \<open>lo\<close>; the result is the next \<open>lo\<close>.\<close>

definition static_turn :: "sv32_cfg \<Rightarrow> addr \<Rightarrow> addr \<Rightarrow> u32 \<Rightarrow> sv32_cpu \<Rightarrow> addr \<times> sv32_cpu" where
  "static_turn C lo hi pp c =
     (if lo AND (MEGA_SIZE - 1) = 0 \<and> hi - lo \<ge> MEGA_SIZE \<and> root c (VPN1 lo) AND PTE_V = 0
      then (lo + MEGA_SIZE, c\<lparr>root := (root c)(VPN1 lo := pte_leaf lo pp)\<rparr>)
      else
        let c = (if l2_find C c (VPN1 lo) = None
                 then (case l2_alloc C (VPN1 lo) c of
                         (None, c) \<Rightarrow> c\<lparr>sv_panic := True\<rparr>
                       | (Some _, c) \<Rightarrow> c\<lparr>l2_static := l2_static c + 1\<rparr>)
                 else c)
        in if sv_panic c then (lo, c)
           else case pte_slot C lo False c of
                  (Some sl, c) \<Rightarrow> (lo + PAGE_SIZE, set_pte sl (pte_leaf lo pp) c)
                | (None, c) \<Rightarrow> (lo, c\<lparr>sv_panic := True\<rparr>))"

fun static_loop :: "nat \<Rightarrow> sv32_cfg \<Rightarrow> addr \<Rightarrow> addr \<Rightarrow> u32 \<Rightarrow> sv32_cpu \<Rightarrow> sv32_cpu" where
  "static_loop 0 C lo hi pp c = (if lo < hi \<and> \<not> sv_panic c then c\<lparr>sv_hang := True\<rparr> else c)"
| "static_loop (Suc n) C lo hi pp c =
     (if lo < hi \<and> \<not> sv_panic c
      then (case static_turn C lo hi pp c of (lo', c') \<Rightarrow> static_loop n C lo' hi pp c')
      else c)"

definition static_map :: "sv32_cfg \<Rightarrow> addr \<Rightarrow> addr \<Rightarrow> u32 \<Rightarrow> sv32_cpu \<Rightarrow> sv32_cpu" where
  "static_map C lo hi perms c = static_loop (2 ^ 20) C (page_up lo) (page_down hi) (perms_to_pte perms) c"

definition static_user :: "sv32_cfg \<Rightarrow> sv32_cpu \<Rightarrow> sv32_cpu" where
  "static_user C c =
     (let c = static_map C (user_text_start C) (user_text_end C) (ULMK_PERM_READ OR ULMK_PERM_EXEC) c;
          c = static_map C (user_ram_start C) (user_pool_start C) (ULMK_PERM_READ OR ULMK_PERM_WRITE) c
      in static_map C (periph_base C) (periph_end C) (ULMK_PERM_READ OR ULMK_PERM_WRITE) c)"

section \<open>Pinned and dynamic pages\<close>

definition covered_by_uram :: "sv32_cfg \<Rightarrow> arch_region \<Rightarrow> bool" where
  "covered_by_uram C r \<longleftrightarrow> r_base r \<ge> user_ram_start C \<and> r_base r + r_size r \<le> user_pool_start C"

definition dyn_drop :: "sv32_cfg \<Rightarrow> sv32_cpu \<Rightarrow> sv32_cpu" where
  "dyn_drop C c =
     (let c = fold (\<lambda>i c. unmap_page C (dyn c i) c) [0..<dyn_n c] c;
          c = c\<lparr>dyn_n := 0, dyn_next := 0\<rparr>
      in fold (\<lambda>i c. if l2_vpn1 c i \<noteq> L2_NONE \<and> l2_pin c AND push_bit i 1 = 0 then l2_release i c else c)
           [l2_static c..<l2_num C] c)"

definition dyn_push :: "sv32_cfg \<Rightarrow> addr \<Rightarrow> sv32_cpu \<Rightarrow> sv32_cpu" where
  "dyn_push C va c =
     (if dyn_n c < dyn_max C
      then c\<lparr>dyn := (dyn c)(dyn_n c := va), dyn_n := dyn_n c + 1\<rparr>
      else
        let old = dyn c (dyn_next c);
            c = sv_emit (EvSfence old) (unmap_page C old c)
        in c\<lparr>dyn := (dyn c)(dyn_next c := va), dyn_next := (dyn_next c + 1) mod dyn_max C\<rparr>)"

fun unmap_range :: "nat \<Rightarrow> sv32_cfg \<Rightarrow> addr \<Rightarrow> addr \<Rightarrow> sv32_cpu \<Rightarrow> sv32_cpu" where
  "unmap_range 0 C va hi c = (if va < hi then c\<lparr>sv_hang := True\<rparr> else c)"
| "unmap_range (Suc n) C va hi c =
     (if va < hi then unmap_range n C (va + PAGE_SIZE) hi (unmap_page C va c) else c)"

definition pin_drop :: "sv32_cfg \<Rightarrow> sv32_cpu \<Rightarrow> sv32_cpu" where
  "pin_drop C c =
     (fold (\<lambda>i c. (unmap_range (2 ^ 20) C (fst (pin c i)) (snd (pin c i)) c)\<lparr>pin := (pin c)(i := (0, 0))\<rparr>)
        [0..<SV32_PIN_MAX] c)\<lparr>l2_pin := 0\<rparr>"

fun pin_loop :: "nat \<Rightarrow> sv32_cfg \<Rightarrow> addr \<Rightarrow> addr \<Rightarrow> u32 \<Rightarrow> sv32_cpu \<Rightarrow> addr \<times> sv32_cpu" where
  "pin_loop 0 C va hi pp c = (va, if va < hi then c\<lparr>sv_hang := True\<rparr> else c)"
| "pin_loop (Suc n) C va hi pp c =
     (if va < hi
      then (case pte_slot C va True c of
              (None, c) \<Rightarrow> (va, c)
            | (Some sl, c) \<Rightarrow>
                (let c = set_pte sl (pte_leaf va pp) c;
                     c = (if fst sl \<ge> l2_static c then c\<lparr>l2_pin := l2_pin c OR push_bit (fst sl) 1\<rparr> else c)
                 in pin_loop n C (va + PAGE_SIZE) hi pp c))
      else (va, c))"

definition pin_map :: "sv32_cfg \<Rightarrow> nat \<Rightarrow> arch_region \<Rightarrow> sv32_cpu \<Rightarrow> sv32_cpu" where
  "pin_map C n r c =
     (let va = page_down (r_base r);
          hi = (r_base r + r_size r + PAGE_SIZE - 1) AND NOT (PAGE_SIZE - 1);
          (va', c) = pin_loop (2 ^ 20) C va hi (perms_to_pte (r_perms r)) c
      in c\<lparr>pin := (pin c)(n := (va, va'))\<rparr>)"

text \<open>The loop over the pinned list: \<open>n\<close> counts the regions mapped so far.\<close>

fun pin_regions :: "sv32_cfg \<Rightarrow> nat \<Rightarrow> arch_region list \<Rightarrow> sv32_cpu \<Rightarrow> sv32_cpu" where
  "pin_regions C n [] c = c"
| "pin_regions C n (r # rs) c =
     (if n < SV32_PIN_MAX
      then (if r_size r = 0 \<or> covered_by_uram C r then pin_regions C n rs c
            else pin_regions C (n + 1) rs (pin_map C n r c))
      else c)"

text \<open>The pinned list of a thread is an array of the TCB; a \<^verbatim>\<open>NULL\<close> list is the empty one.\<close>

definition user_layout :: "sv32_cfg \<Rightarrow> arch_region list \<Rightarrow> sv32_cpu \<Rightarrow> sv32_cpu" where
  "user_layout C regions c = sv_emit EvSfenceAll (pin_regions C 0 regions (dyn_drop C (pin_drop C c)))"

section \<open>The interface of the port\<close>

definition sv32_mpu_init :: "sv32_cfg \<Rightarrow> sv32_cpu \<Rightarrow> sv32_cpu" where
  "sv32_mpu_init C c =
     (let c = sv_emit (EvSatp 0) c;
          c = c\<lparr>root := (\<lambda>_. 0), l2_vpn1 := (\<lambda>_. L2_NONE), pin := (\<lambda>_. (0, 0)), pinned := NULL, l2_pin := 0,
                l2_static := 0, dyn_n := 0, dyn_next := 0\<rparr>;
          c = static_user C c
      in if sv_panic c then c
         else
           let satp = SATP_MODE_SV32 OR drop_bit 12 (root_pa C);
               c = sv_emit (EvSatp satp) (sv_emit EvPmpOpen c)
           in if has_sv32 C then sv_emit EvSfenceAll c else c\<lparr>sv_panic := True\<rparr>)"

definition sv32_mpu_disable :: "sv32_cpu \<Rightarrow> sv32_cpu" where
  "sv32_mpu_disable c = sv_emit EvSfenceAll (sv_emit EvPmpClose (sv_emit (EvSatp 0) c))"

definition sv32_mpu_switch :: "sv32_cfg \<Rightarrow> addr \<Rightarrow> arch_region list \<Rightarrow> bool \<Rightarrow> sv32_cpu \<Rightarrow> sv32_cpu" where
  "sv32_mpu_switch C rp regions kern c =
     (if kern then c\<lparr>pinned := NULL\<rparr>
      else if pinned c = rp \<and> rp \<noteq> NULL then c
      else (user_layout C (if rp = NULL then [] else regions) c)\<lparr>pinned := rp\<rparr>)"

definition sv32_mpu_flush :: "sv32_cfg \<Rightarrow> sv32_cpu \<Rightarrow> sv32_cpu" where
  "sv32_mpu_flush C c = sv_emit EvSfenceAll (dyn_drop C c)"

definition sv32_mpu_load :: "sv32_cfg \<Rightarrow> arch_region \<Rightarrow> sv32_cpu \<Rightarrow> bool \<times> sv32_cpu" where
  "sv32_mpu_load C win c =
     (let pp = perms_to_pte (r_perms win); va = r_base win
      in if pp = 0 \<or> r_size win \<noteq> PAGE_SIZE \<or> va AND (PAGE_SIZE - 1) \<noteq> 0 then (False, c)
         else if root c (VPN1 va) AND PTE_LEAF \<noteq> 0 then (False, c)
         else
           let (sl, c) =
                 (case pte_slot C va True c of
                    (Some sl, c) \<Rightarrow> (Some sl, c)
                  | (None, c) \<Rightarrow> pte_slot C va True (sv_emit EvSfenceAll (dyn_drop C c)))
           in case sl of
                None \<Rightarrow> (False, c)
              | Some sl \<Rightarrow>
                  (if l2 c (fst sl) (snd sl) AND PTE_V \<noteq> 0 then (False, c)
                   else
                     let c = set_pte sl (pte_leaf va pp) c;
                         c = dyn_push C va c
                     in (True, sv_emit (EvSfence va) c)))"

end
