(* ===== verification/Spec2Isabelle.thy ===== *)
theory Spec2Isabelle
  imports Heap_Contract Isolation Irq_Props Sv32
begin

text \<open>
  A verification development of the uLipe microkernel (\<^verbatim>\<open>ulmk\<close>): a small preemptive kernel in C for 32-bit
  microcontrollers with threads, endpoints, notifications, memory areas and user-space interrupt handlers.

  \<^bold>\<open>The program.\<close> A system call traps into \<^verbatim>\<open>kernel_main.c\<close>, which hands it to the router
  (\<^verbatim>\<open>syscall_router.c\<close>). The router checks the privilege and the capabilities of the caller and calls one handler:
  threads (\<^verbatim>\<open>thread.c\<close>), endpoints (\<^verbatim>\<open>ep.c\<close>), notifications (\<^verbatim>\<open>notif.c\<close>), memory (\<^verbatim>\<open>mem.c\<close> over \<^verbatim>\<open>area.c\<close> over the
  heap \<^verbatim>\<open>tlsf.c\<close>), interrupts (\<^verbatim>\<open>irq.c\<close>) or sleeping (\<^verbatim>\<open>sleep.c\<close> over \<^verbatim>\<open>timer_wheel.c\<close>). The handlers block and wake
  threads through the scheduler (\<^verbatim>\<open>sched.c\<close>), which keeps its ready threads in a scheduling class (\<^verbatim>\<open>bitmap_rt.c\<close> or
  \<^verbatim>\<open>fifo_rt.c\<close>); all queues are intrusive lists (\<^verbatim>\<open>list.h\<close>). Timer ticks, interrupts, inter-processor interrupts and
  protection faults enter beside the system calls. The arch layer (\<^verbatim>\<open>arch/*\<close>) switches contexts and programs the
  interrupt controller and the protection unit.

  \<^bold>\<open>The state.\<close> \<open>kstate\<close> (theory Kernel\_Types) has one store per type of object (\<open>tcb\<close>, \<open>eps\<close>, \<open>notifs\<close>, \<open>ars\<close>), reached by
  32-bit pointers, a queue store per kind of list node, the heap, the per-CPU blocks, the binding table and the timing
  wheel. Every operation of the C code is one function on it with the name of the source; integers keep their
  width. Calls into the arch layer without a result are recorded in \<open>trace\<close>; arch calls with a result and build options are
  parameters, in \<open>kconfig\<close>. \<open>lk\<close> records the spinlocks and whether their order was ever broken, \<open>hang\<close> a loop
  that did not end.

  \<^bold>\<open>The theories\<close>, and the files under \<^verbatim>\<open>src/kernel\<close> they model:

  \<^item> Prelude: words, error codes, bit scans and shared lemmas.
  \<^item> Dnode\_List (\<^verbatim>\<open>include/list.h\<close>): the list functions at pointer level, and queues as HOL lists. The first implement the
    second, nodes come out in the order they were appended.
  \<^item> Tlsf (\<^verbatim>\<open>mem/tlsf.c\<close>) with Tlsf\_Proofs, Heap and Heap\_Contract: the allocator over a store of block headers. The pool
    is tiled, free lists and bitmaps agree with it, blocks held are aligned, inside the pool and disjoint, free neighbours are
    always merged. The contract is the locale \<open>allocator\<close>, interpreted by the plain and the aligned allocator.
  \<^item> Kernel\_Types and Kernel\_State (\<^verbatim>\<open>include/*.h\<close>, \<^verbatim>\<open>percpu/percpu.c\<close>): records, per-CPU access, locks and frame facts.
  \<^item> Sched\_Policy, Bitmap\_Rt, Fifo\_Rt, Sched, Dispatch and Sched\_Props (\<^verbatim>\<open>sched/*.c\<close>): the contract of a scheduling class
    (locale \<open>sched_policy\<close>), its two implementations, the scheduler and the context switch. The running thread is a most urgent
    one, first come first served within a priority, and the two classes schedule alike.
  \<^item> Timer\_Wheel and Sleep (\<^verbatim>\<open>time/*.c\<close>): the bucket of a timer and when it fires: never early below the wrap of the
    top level, early in a corner case that is shown too.
  \<^item> Area, Area\_Inv, Mem, Mem\_Inv and Isolation (\<^verbatim>\<open>mem/area.c\<close>, \<^verbatim>\<open>mem/mem.c\<close>): the derivation forest of memory areas. The
    memory calls keep its invariant, a thread reaches only its areas, a grant hands on no more than the caller has, a revocation
    takes a whole subtree and nothing else, the loops end and no record leaks.
  \<^item> Xcall (\<^verbatim>\<open>sched/xcall.c\<close>), Thread\_Registry and Thread (\<^verbatim>\<open>thread/thread.c\<close>): cross calls, the registry and the life cycle
    of threads.
  \<^item> Ipc\_Ep, Notif and Ipc\_Props (\<^verbatim>\<open>ipc/ep.c\<close>, \<^verbatim>\<open>notif/notif.c\<close>): calls and replies are round trips with priority
    inheritance, callers are served in order, destroying an endpoint releases everyone blocked on it, no notification
    bit is lost or delivered twice.
  \<^item> Irq and Irq\_Props (\<^verbatim>\<open>irq/irq.c\<close>): the binding table stays well formed in every state the kernel can reach
    (\<open>kernel_step\<close>, \<open>kernel_reach\<close>); a line stays masked from its interrupt to the acknowledgement.
  \<^item> Syscall (\<^verbatim>\<open>syscall/syscall_router.c\<close>, \<^verbatim>\<open>kernel_main.c\<close>): the router with every case and its gates, the trap, tick and boot
    entries.
  \<^item> Lock\_Discipline (\<^verbatim>\<open>include/ulmk_klock.h\<close>): every entry takes its locks in the documented order and leaves none held.
  \<^item> Views and Authority: what an operation leaves alone (locales \<open>kernel_view\<close> and \<open>irq_blind_view\<close>), and with it that no
    system call creates authority and that the router enforces the policy of the capability table.
  \<^item> Sv32 (\<^verbatim>\<open>src/arch/riscv/mmu_sv32.c\<close>): the page tables of one hart.

  \<^bold>\<open>Bounds.\<close> Loops over lists and tables are structural. The loops over the derivation forest, the scans of \<^verbatim>\<open>list.h\<close> and the
  rounding of a stack size are \<open>partial_function\<close>s, whose \<open>None\<close> is a loop that does not end; that the forest loops
  return under the invariant is a theorem (\<open>Isolation.area_loops_terminate\<close>). The doubling loop of \<^verbatim>\<open>ulmk_area_window\<close> carries 32
  turns, as often as a 32-bit size can double. The page loops of Sv32 carry \<open>2\<^sup>2\<^sup>0\<close> turns, the
  number of pages of the address space, so the bound is never the reason they stop.

  \<^bold>\<open>Not modelled.\<close> The assembly of the ports and their register drivers (interrupt controllers, PMP, the MPUs of ARM and TriCore,
  timers): the kernel sees them as trace events and parameters. Interleaving of two CPUs inside one operation: operations run
  atomically, which the locks and the disabled interrupts of the source arrange, and a cross call is atomic. Payload bytes of the
  heap and of user memory, except the messages and attributes the kernel reads. Kernel printing, start-up code that copies
  linker sections, system-call timing (off by default), the device manager, example components, boards and build tools.
\<close>

end
